(* ===== verification/Prelude.thy ===== *)
theory Prelude
  imports Main "HOL-Library.List_Lexorder" "HOL-Library.Char_ord" "HOL-Library.Multiset"
begin

text \<open>
  Shared vocabulary of the development: Go's byte strings and the few functions of the package
  \<^verbatim>\<open>strings\<close> the sources call, results of fallible code, times, contexts, and generic lemmas on
  lists, maps and sorting.

  Conventions used by every theory:
  \<^item> a Go \<^verbatim>\<open>string\<close> is a HOL \<^typ>\<open>string\<close> (a list of bytes), compared bytewise, which is the
    lexicographic order that \<^verbatim>\<open>List_Lexorder\<close> and \<^verbatim>\<open>Char_ord\<close> provide;
  \<^item> a \<^verbatim>\<open>time.Time\<close> is an integer number of nanoseconds and \<^verbatim>\<open>time.Time{}\<close> is 0;
  \<^item> a \<^verbatim>\<open>context.Context\<close> is what \<^verbatim>\<open>ctx.Err()\<close> returns, \<^term>\<open>None\<close> while the context is live;
  \<^item> a fallible function returns a sum, \<^term>\<open>Inl e\<close> for the error; a fallible method that mutates
    its receiver returns the pair of that sum and the new state, so that what an error path leaves
    behind is visible.
\<close>

named_theorems go_simps \<open>unfolding rules for the Go primitives\<close>

type_synonym time = int
type_synonym go_ctx = "string option"
type_synonym ('e, 'a) result = "'e + 'a"

abbreviation zero_time :: time where
  "zero_time \<equiv> 0"

abbreviation live_ctx :: go_ctx where
  "live_ctx \<equiv> None"

section \<open>Results\<close>

fun rbind :: "('e, 'a) result \<Rightarrow> ('a \<Rightarrow> ('e, 'b) result) \<Rightarrow> ('e, 'b) result" where
  "rbind (Inl e) f = Inl e"
| "rbind (Inr x) f = f x"

lemma rbind_Inr_iff: "rbind r f = Inr y \<longleftrightarrow> (\<exists>x. r = Inr x \<and> f x = Inr y)"
  by (cases r) auto

lemma rbind_Inl_iff: "rbind r f = Inl e \<longleftrightarrow> r = Inl e \<or> (\<exists>x. r = Inr x \<and> f x = Inl e)"
  by (cases r) auto

text \<open>Running a fallible step over a list, stopping at the first error.\<close>

fun rfold :: "('s \<Rightarrow> 'a \<Rightarrow> ('e, 's) result) \<Rightarrow> 's \<Rightarrow> 'a list \<Rightarrow> ('e, 's) result" where
  "rfold f s [] = Inr s"
| "rfold f s (x # xs) = rbind (f s x) (\<lambda>s'. rfold f s' xs)"

lemma rfold_append: "rfold f s (xs @ ys) = rbind (rfold f s xs) (\<lambda>s'. rfold f s' ys)"
proof (induction xs arbitrary: s)
  case (Cons x xs)
  then show ?case by (cases "f s x") simp_all
qed simp

lemma rfold_invariant:
  assumes "rfold f s xs = Inr s'" and "P s"
    and "\<And>s x s'. x \<in> set xs \<Longrightarrow> P s \<Longrightarrow> f s x = Inr s' \<Longrightarrow> P s'"
  shows "P s'"
  using assms
proof (induction xs arbitrary: s)
  case (Cons x xs)
  from Cons.prems(1) obtain s1 where s1: "f s x = Inr s1" "rfold f s1 xs = Inr s'"
    by (auto simp: rbind_Inr_iff)
  have "P s1" by (rule Cons.prems(3) [OF _ Cons.prems(2) s1(1)]) simp
  then show ?case using s1(2) Cons.prems(3) by (intro Cons.IH) auto
qed simp

section \<open>Byte strings\<close>

text \<open>
  ASCII white space, what \<^verbatim>\<open>strings.TrimSpace\<close> removes from a string of ASCII bytes. The
  multi-byte Unicode spaces are not trimmed by the model.
\<close>

definition is_space :: "char \<Rightarrow> bool" where
  "is_space c \<longleftrightarrow> c \<in> {CHR '' '', CHR 0x09, CHR 0x0A, CHR 0x0B, CHR 0x0C, CHR 0x0D}"

definition TrimSpace :: "string \<Rightarrow> string" where
  "TrimSpace s = rev (dropWhile is_space (rev (dropWhile is_space s)))"

fun HasPrefix :: "string \<Rightarrow> string \<Rightarrow> bool" where
  "HasPrefix s [] = True"
| "HasPrefix [] (p # ps) = False"
| "HasPrefix (c # s) (p # ps) = (c = p \<and> HasPrefix s ps)"

definition HasSuffix :: "string \<Rightarrow> string \<Rightarrow> bool" where
  "HasSuffix s p = HasPrefix (rev s) (rev p)"

definition TrimPrefix :: "string \<Rightarrow> string \<Rightarrow> string" where
  "TrimPrefix s p = (if HasPrefix s p then drop (length p) s else s)"

definition TrimSuffix :: "string \<Rightarrow> string \<Rightarrow> string" where
  "TrimSuffix s p = (if HasSuffix s p then take (length s - length p) s else s)"

text \<open>The offset of the first occurrence, as \<^verbatim>\<open>strings.Index\<close>; \<^term>\<open>None\<close> for Go's -1.\<close>

fun Index :: "string \<Rightarrow> string \<Rightarrow> nat option" where
  "Index [] p = (if p = [] then Some 0 else None)"
| "Index (c # s) p = (if HasPrefix (c # s) p then Some 0 else map_option Suc (Index s p))"

definition Contains :: "string \<Rightarrow> string \<Rightarrow> bool" where
  "Contains s p = (Index s p \<noteq> None)"

text \<open>\<^verbatim>\<open>strings.Split\<close> at a one-byte separator: always at least one part.\<close>

fun Split :: "string \<Rightarrow> char \<Rightarrow> string list" where
  "Split [] d = [[]]"
| "Split (c # s) d =
     (if c = d then [] # Split s d
      else (case Split s d of [] \<Rightarrow> [[c]] | p # ps \<Rightarrow> (c # p) # ps))"

lemma HasPrefix_append [simp]: "HasPrefix (p @ s) p"
  by (induction p) auto

lemma HasPrefix_iff: "HasPrefix s p \<longleftrightarrow> (\<exists>t. s = p @ t)"
  by (induction s p rule: HasPrefix.induct) auto

lemma HasSuffix_iff: "HasSuffix s p \<longleftrightarrow> (\<exists>t. s = t @ p)"
proof -
  have "HasSuffix s p \<longleftrightarrow> (\<exists>t. rev s = rev p @ t)"
    by (simp add: HasSuffix_def HasPrefix_iff)
  also have "\<dots> \<longleftrightarrow> (\<exists>t. s = t @ p)"
    by (metis append_Nil2 rev_append rev_rev_ident)
  finally show ?thesis .
qed

lemma TrimPrefix_append [simp]: "TrimPrefix (p @ s) p = s"
  by (simp add: TrimPrefix_def)

lemma Index_Some:
  "Index s p = Some i \<Longrightarrow> \<exists>t. s = take i s @ p @ t \<and> i + length p \<le> length s"
proof (induction s p arbitrary: i rule: Index.induct)
  case (2 c s p)
  show ?case
  proof (cases "HasPrefix (c # s) p")
    case True
    with 2 obtain t where "c # s = p @ t" "i = 0" by (auto simp: HasPrefix_iff)
    then show ?thesis by (metis add_0 append.left_neutral le_add1 length_append take_0)
  next
    case False
    with 2 obtain j where "Index s p = Some j" "i = Suc j" by auto
    with 2 False show ?thesis by fastforce
  qed
qed (auto split: if_splits)

lemma Index_drop_less: "p \<noteq> [] \<Longrightarrow> Index s p = Some i \<Longrightarrow> length s - (i + length p) < length s"
  using Index_Some [of s p i] by (cases p) auto

lemma Index_None: "Index s p = None \<longleftrightarrow> \<not> (\<exists>a b. s = a @ p @ b)"
proof (induction s p rule: Index.induct)
  case (2 c s p)
  show ?case
  proof (cases "HasPrefix (c # s) p")
    case True
    then obtain t where "c # s = [] @ p @ t" by (auto simp: HasPrefix_iff)
    then have "\<exists>a b. c # s = a @ p @ b" by blast
    with True show ?thesis by simp
  next
    case False
    then have np: "\<not> (\<exists>t. c # s = p @ t)" by (simp add: HasPrefix_iff)
    have "(\<exists>a b. c # s = a @ p @ b) \<longleftrightarrow> (\<exists>a b. s = a @ p @ b)"
      using np by (metis (no_types, opaque_lifting) append_Cons append_eq_Cons_conv)
    with 2 False show ?thesis by auto
  qed
qed auto

lemma Split_nonempty [simp]: "Split s d \<noteq> []"
  by (induction s d rule: Split.induct) (auto split: list.splits)

section \<open>Lists and maps\<close>

text \<open>The first index at which a predicate holds, as the linear searches of the sources find it.\<close>

fun find_index :: "('a \<Rightarrow> bool) \<Rightarrow> 'a list \<Rightarrow> nat option" where
  "find_index P [] = None"
| "find_index P (x # xs) = (if P x then Some 0 else map_option Suc (find_index P xs))"

lemma find_index_None [simp]: "find_index P xs = None \<longleftrightarrow> (\<forall>x \<in> set xs. \<not> P x)"
  by (induction xs) auto

lemma find_index_Some:
  "find_index P xs = Some i \<Longrightarrow>
     i < length xs \<and> P (xs ! i) \<and> (\<forall>x \<in> set (take i xs). \<not> P x)"
proof (induction xs arbitrary: i)
  case (Cons x xs)
  then show ?case by (cases i) (auto split: if_splits)
qed simp

lemma find_index_exists: "x \<in> set xs \<Longrightarrow> P x \<Longrightarrow> \<exists>i. find_index P xs = Some i"
  by (induction xs) auto

text \<open>Removing one position, Go's \<^verbatim>\<open>append(xs[:i], xs[i+1:]...)\<close>.\<close>

definition remove_nth :: "nat \<Rightarrow> 'a list \<Rightarrow> 'a list" where
  "remove_nth i xs = take i xs @ drop (Suc i) xs"

lemma remove_nth_simps [simp]:
  "remove_nth 0 (x # xs) = xs"
  "remove_nth (Suc i) (x # xs) = x # remove_nth i xs"
  by (simp_all add: remove_nth_def)

lemma mset_remove_nth: "i < length xs \<Longrightarrow> add_mset (xs ! i) (mset (remove_nth i xs)) = mset xs"
  by (metis add_mset_add_single id_take_nth_drop mset.simps(2) mset_append remove_nth_def
      union_mset_add_mset_right)

lemma set_remove_nth_subset: "set (remove_nth i xs) \<subseteq> set xs"
  by (auto simp: remove_nth_def dest: in_set_takeD in_set_dropD)

lemma sort_key_perm [simp]: "mset (sort_key f xs) = mset xs"
  by simp

lemma map_of_perm:
  assumes "mset xs = mset ys" "distinct (map fst xs)"
  shows "map_of xs = map_of ys"
proof (rule map_of_eqI)
  have "mset (map fst xs) = mset (map fst ys)"
    using assms(1) by simp
  then have dys: "distinct (map fst ys)"
    using assms(2) mset_eq_imp_distinct_iff by blast
  have s: "set xs = set ys" using assms(1) by (rule mset_eq_setD)
  then show "set (map fst xs) = set (map fst ys)" by simp
  show "\<forall>k\<in>set (map fst xs). map_of xs k = map_of ys k"
    using s assms(2) dys by (metis map_of_eq_Some_iff option.exhaust)
qed

lemma sorted_wrt_filter_same:
  "sorted_wrt R xs \<Longrightarrow> sorted_wrt R (filter P xs)"
  by (induction xs) auto

end
