(* ===== verification/Go_Json.thy ===== *)
theory Go_Json
  imports Prelude
begin

text \<open>
  The part of Go's \<^verbatim>\<open>encoding/json\<close> the sources rely on: documents as trees, decoding into a
  struct that already holds a value (absent keys and \<^verbatim>\<open>null\<close> leave a field as it is, unknown keys
  are skipped, a key matches a field name regardless of ASCII case, a later duplicate key wins), and
  encoding with \<^verbatim>\<open>omitempty\<close>. The byte syntax of a document is not modelled: a
  \<^verbatim>\<open>json.RawMessage\<close> is empty, holds bytes that do not parse, or holds the document it parses to.
  Strings are taken to be valid UTF-8, which is when Go's encoder keeps them unchanged. A string
  literal that a \<^verbatim>\<open>time.Time\<close> writes (RFC 3339 with nanoseconds) is the leaf \<^verbatim>\<open>JTime\<close> of the instant it
  denotes; the sources decode such a literal only into a \<^verbatim>\<open>time.Time\<close> again.
\<close>

datatype json =
    JNull
  | JBool bool
  | JNum int
  | JFrac string
  | JStr string
  | JTime time
  | JArr "json list"
  | JObj "(string \<times> json) list"

datatype rawmsg = NoBytes | BadBytes string | Doc json

datatype json_error = SyntaxError | TypeMismatch

type_synonym 's decoder = "json \<Rightarrow> 's \<Rightarrow> (json_error, 's) result"
type_synonym 's handler = "string \<times> 's decoder"

fun Unmarshal :: "'s decoder \<Rightarrow> rawmsg \<Rightarrow> 's \<Rightarrow> (json_error, 's) result" where
  "Unmarshal dec NoBytes s = Inl SyntaxError"
| "Unmarshal dec (BadBytes b) s = Inl SyntaxError"
| "Unmarshal dec (Doc j) s = dec j s"

section \<open>Decoders\<close>

definition ascii_lower :: "char \<Rightarrow> char" where
  "ascii_lower c = (let n = (of_char c :: nat) in if 65 \<le> n \<and> n \<le> 90 then char_of (n + 32) else c)"

definition fold_name :: "string \<Rightarrow> string" where
  "fold_name k = map ascii_lower k"

fun dec_string :: "string decoder" where
  "dec_string (JStr t) s = Inr t"
| "dec_string JNull s = Inr s"
| "dec_string _ s = Inl TypeMismatch"

fun dec_bool :: "bool decoder" where
  "dec_bool (JBool b) s = Inr b"
| "dec_bool JNull s = Inr s"
| "dec_bool _ s = Inl TypeMismatch"

text \<open>Go's \<^verbatim>\<open>int\<close> and \<^verbatim>\<open>int64\<close>: a number literal outside 64 bits is an error.\<close>

definition int64_range :: "int \<Rightarrow> bool" where
  "int64_range n \<longleftrightarrow> - (2 ^ 63) \<le> n \<and> n < 2 ^ 63"

fun dec_int :: "int decoder" where
  "dec_int (JNum n) s = (if int64_range n then Inr n else Inl TypeMismatch)"
| "dec_int JNull s = Inr s"
| "dec_int _ s = Inl TypeMismatch"

text \<open>
  \<^verbatim>\<open>time.Time\<close> marshals only years 0 to 9999; instants count nanoseconds from 1 January of year 1.
\<close>

definition time_json_range :: "time \<Rightarrow> bool" where
  "time_json_range t \<longleftrightarrow> - (366 * 86400 * 10 ^ 9) \<le> t \<and> t < 3652059 * 86400 * 10 ^ 9"

fun dec_time :: "time decoder" where
  "dec_time (JTime t) s = Inr t"
| "dec_time JNull s = Inr s"
| "dec_time _ s = Inl TypeMismatch"

fun dec_elems :: "'a decoder \<Rightarrow> 'a \<Rightarrow> json list \<Rightarrow> (json_error, 'a list) result" where
  "dec_elems dec z [] = Inr []"
| "dec_elems dec z (j # js) = rbind (dec j z) (\<lambda>x. rbind (dec_elems dec z js) (\<lambda>xs. Inr (x # xs)))"

fun dec_list :: "'a decoder \<Rightarrow> 'a \<Rightarrow> 'a list decoder" where
  "dec_list dec z (JArr js) xs = dec_elems dec z js"
| "dec_list dec z JNull xs = Inr []"
| "dec_list dec z _ xs = Inl TypeMismatch"

text \<open>A \<^verbatim>\<open>map[string]string\<close>; the nil map is \<^term>\<open>None\<close>.\<close>

fun dec_entries :: "(string \<rightharpoonup> string) \<Rightarrow> (string \<times> json) list \<Rightarrow> (json_error, string \<rightharpoonup> string) result" where
  "dec_entries m [] = Inr m"
| "dec_entries m ((k, j) # kvs) = rbind (dec_string j []) (\<lambda>v. dec_entries (m(k \<mapsto> v)) kvs)"

fun dec_strmap :: "(string \<rightharpoonup> string) option decoder" where
  "dec_strmap (JObj kvs) m = map_sum id Some (dec_entries (case m of None \<Rightarrow> Map.empty | Some m' \<Rightarrow> m') kvs)"
| "dec_strmap JNull m = Inr None"
| "dec_strmap _ m = Inl TypeMismatch"

fun dec_raw :: "rawmsg decoder" where
  "dec_raw j r = Inr (Doc j)"

definition at_field :: "'a decoder \<Rightarrow> ('s \<Rightarrow> 'a) \<Rightarrow> ('a \<Rightarrow> 's \<Rightarrow> 's) \<Rightarrow> 's decoder" where
  "at_field dec get put = (\<lambda>j s. map_sum id (\<lambda>v. put v s) (dec j (get s)))"

fun dec_fields :: "'s handler list \<Rightarrow> (string \<times> json) list \<Rightarrow> 's \<Rightarrow> (json_error, 's) result" where
  "dec_fields hs [] s = Inr s"
| "dec_fields hs ((k, v) # kvs) s =
     (case find (\<lambda>h. fold_name (fst h) = fold_name k) hs of
        None \<Rightarrow> dec_fields hs kvs s
      | Some h \<Rightarrow> rbind (snd h v s) (dec_fields hs kvs))"

fun dec_struct :: "'s handler list \<Rightarrow> 's decoder" where
  "dec_struct hs (JObj kvs) s = dec_fields hs kvs s"
| "dec_struct hs JNull s = Inr s"
| "dec_struct hs _ s = Inl TypeMismatch"

section \<open>Encoders\<close>

abbreviation fld :: "string \<Rightarrow> json \<Rightarrow> (string \<times> json) list" where
  "fld k j \<equiv> [(k, j)]"

definition omit_str :: "string \<Rightarrow> string \<Rightarrow> (string \<times> json) list" where
  "omit_str k s = (if s = [] then [] else [(k, JStr s)])"

definition omit_int :: "string \<Rightarrow> int \<Rightarrow> (string \<times> json) list" where
  "omit_int k n = (if n = 0 then [] else [(k, JNum n)])"

definition omit_bool :: "string \<Rightarrow> bool \<Rightarrow> (string \<times> json) list" where
  "omit_bool k b = (if b then [(k, JBool True)] else [])"

definition enc_strs :: "string list \<Rightarrow> json" where
  "enc_strs xs = JArr (map JStr xs)"

definition omit_strs :: "string \<Rightarrow> string list \<Rightarrow> (string \<times> json) list" where
  "omit_strs k xs = (if xs = [] then [] else [(k, enc_strs xs)])"

text \<open>A string map is encoded with its keys sorted; the argument lists its entries.\<close>

definition enc_strmap :: "(string \<times> string) list \<Rightarrow> json" where
  "enc_strmap es = JObj (map (\<lambda>(k, v). (k, JStr v)) (sort_key fst es))"

definition omit_strmap :: "string \<Rightarrow> (string \<times> string) list \<Rightarrow> (string \<times> json) list" where
  "omit_strmap k es = (if es = [] then [] else [(k, enc_strmap es)])"

fun omit_raw :: "string \<Rightarrow> rawmsg \<Rightarrow> (string \<times> json) list" where
  "omit_raw k (Doc j) = [(k, j)]"
| "omit_raw k _ = []"

section \<open>Round trips\<close>

lemma dec_elems_strs [simp]: "dec_elems dec_string z (map JStr xs) = Inr xs"
  by (induction xs) auto

lemma dec_list_strs [simp]: "dec_list dec_string z (enc_strs xs) ys = Inr xs"
  by (simp add: enc_strs_def)

lemma dec_entries_strs:
  "distinct (map fst es) \<Longrightarrow>
     dec_entries m (map (\<lambda>(k, v). (k, JStr v)) es) = Inr (m ++ map_of es)"
proof (induction es arbitrary: m)
  case (Cons e es)
  obtain k v where e: "e = (k, v)" by (cases e)
  from Cons have "k \<notin> dom (map_of es)" by (auto simp: e dom_map_of_conv_image_fst)
  then have "m(k \<mapsto> v) ++ map_of es = (m ++ map_of es)(k \<mapsto> v)"
    by (simp add: map_add_upd_left)
  with Cons show ?case by (auto simp: e fun_eq_iff map_add_def split: option.splits)
qed simp

lemma dec_strmap_enc:
  assumes "distinct (map fst es)"
  shows "dec_strmap (enc_strmap es) None = Inr (Some (map_of es))"
proof -
  have p: "mset (sort_key fst es) = mset es" by simp
  then have "distinct (map fst (sort_key fst es))"
    using assms by (metis mset_eq_imp_distinct_iff mset_map)
  then have "dec_entries Map.empty (map (\<lambda>(k, v). (k, JStr v)) (sort_key fst es))
      = Inr (map_of (sort_key fst es))"
    by (simp add: dec_entries_strs)
  moreover have "map_of (sort_key fst es) = map_of es"
    using map_of_perm [OF p [symmetric] assms] by simp
  ultimately show ?thesis by (simp add: enc_strmap_def)
qed

lemma dec_fields_append:
  "dec_fields hs (xs @ ys) s = rbind (dec_fields hs xs s) (dec_fields hs ys)"
proof (induction hs xs s rule: dec_fields.induct)
  case (2 hs k v kvs s)
  show ?case
  proof (cases "find (\<lambda>h. fold_name (fst h) = fold_name k) hs")
    case None
    with 2 show ?thesis by simp
  next
    case (Some h)
    with 2 show ?thesis by (cases "snd h v s") simp_all
  qed
qed simp

lemma dec_fields_fld:
  "find (\<lambda>h. fold_name (fst h) = fold_name k) hs = Some h \<Longrightarrow> dec_fields hs (fld k j) s = snd h j s"
  by (cases "snd h j s") simp_all

lemma dec_fields_omit_str:
  "find (\<lambda>h. fold_name (fst h) = fold_name k) hs = Some (k', at_field dec_string get put) \<Longrightarrow>
     (v = [] \<Longrightarrow> put [] s = s) \<Longrightarrow> dec_fields hs (omit_str k v) s = Inr (put v s)"
  by (simp add: omit_str_def at_field_def)

lemma dec_fields_omit_int:
  "find (\<lambda>h. fold_name (fst h) = fold_name k) hs = Some (k', at_field dec_int get put) \<Longrightarrow>
     int64_range v \<Longrightarrow> (v = 0 \<Longrightarrow> put 0 s = s) \<Longrightarrow> dec_fields hs (omit_int k v) s = Inr (put v s)"
  by (simp add: omit_int_def at_field_def)

lemma dec_fields_omit_raw:
  "find (\<lambda>h. fold_name (fst h) = fold_name k) hs = Some (k', at_field dec_raw get put) \<Longrightarrow>
     (\<And>b. v \<noteq> BadBytes b) \<Longrightarrow> (v = NoBytes \<Longrightarrow> put NoBytes s = s) \<Longrightarrow>
     dec_fields hs (omit_raw k v) s = Inr (put v s)"
  by (cases v) (auto simp: at_field_def)

lemma dec_fields_omit_bool:
  "find (\<lambda>h. fold_name (fst h) = fold_name k) hs = Some (k', at_field dec_bool get put) \<Longrightarrow>
     (\<not> v \<Longrightarrow> put False s = s) \<Longrightarrow> dec_fields hs (omit_bool k v) s = Inr (put v s)"
  by (cases v) (simp_all add: omit_bool_def at_field_def)

lemma dec_fields_omit_strs:
  "find (\<lambda>h. fold_name (fst h) = fold_name k) hs = Some (k', at_field (dec_list dec_string z) get put) \<Longrightarrow>
     (v = [] \<Longrightarrow> put [] s = s) \<Longrightarrow> dec_fields hs (omit_strs k v) s = Inr (put v s)"
  by (simp add: omit_strs_def at_field_def)

lemma at_field_apply: "at_field dec get put j s = map_sum id (\<lambda>v. put v s) (dec j (get s))"
  by (simp add: at_field_def)

text \<open>
  A codec for a struct type: an encoder and a decoder that recovers every value of \<^term>\<open>ok\<close> from
  the zero value of the target. Clients use only these facts.
\<close>

locale codec =
  fixes enc :: "'a \<Rightarrow> json" and dec :: "'a decoder" and zero :: 'a and ok :: "'a \<Rightarrow> bool"
  assumes dec_enc: "ok x \<Longrightarrow> dec (enc x) zero = Inr x"
begin

lemma unmarshal_marshal: "ok x \<Longrightarrow> Unmarshal dec (Doc (enc x)) zero = Inr x"
  by (simp add: dec_enc)

lemma enc_inject: "ok x \<Longrightarrow> ok y \<Longrightarrow> enc x = enc y \<Longrightarrow> x = y"
  by (metis Inr_inject dec_enc)

end

end
