(* ===== verification/Thread_Event.thy ===== *)
theory Thread_Event
  imports Go_Json
begin

text \<open>
  The append-only event of a thread log (\<^verbatim>\<open>src/thread/event.go\<close>, \<^verbatim>\<open>src/thread/ids.go\<close>) and the
  registry that validates event payloads (\<^verbatim>\<open>src/thread/event_registry.go\<close>). Random identifiers
  (\<^verbatim>\<open>NewID\<close>, \<^verbatim>\<open>NewEventID\<close>, \<dots>) are arguments of the operations that draw them.
\<close>

definition MainBranch :: string where
  "MainBranch = ''main''"

definition CurrentEventSchemaVersion :: int where
  "CurrentEventSchemaVersion = 1"

definition EventThreadCreated :: string where
  "EventThreadCreated = ''thread.created''"

definition EventMetadataUpdated :: string where
  "EventMetadataUpdated = ''thread.metadata_updated''"

definition EventThreadArchived :: string where
  "EventThreadArchived = ''thread.archived''"

definition EventThreadUnarchived :: string where
  "EventThreadUnarchived = ''thread.unarchived''"

definition EventBranchCreated :: string where
  "EventBranchCreated = ''branch.created''"

definition EventBranchHeadMoved :: string where
  "EventBranchHeadMoved = ''branch.head_moved''"

lemmas thread_kind_defs = EventThreadCreated_def EventMetadataUpdated_def EventThreadArchived_def
  EventThreadUnarchived_def EventBranchCreated_def EventBranchHeadMoved_def

lemma MainBranch_nonempty [simp]: "MainBranch \<noteq> []" "[] \<noteq> MainBranch"
  by (simp_all add: MainBranch_def)

lemma thread_kind_neq [simp]:
  "EventThreadCreated \<noteq> []" "EventBranchCreated \<noteq> []" "EventThreadArchived \<noteq> []"
  "EventThreadUnarchived \<noteq> []"
  "EventThreadCreated \<noteq> EventBranchCreated" "EventBranchCreated \<noteq> EventThreadCreated"
  "EventThreadCreated \<noteq> EventThreadArchived" "EventThreadArchived \<noteq> EventThreadCreated"
  "EventThreadCreated \<noteq> EventThreadUnarchived" "EventThreadUnarchived \<noteq> EventThreadCreated"
  "EventBranchCreated \<noteq> EventThreadArchived" "EventThreadArchived \<noteq> EventBranchCreated"
  "EventBranchCreated \<noteq> EventThreadUnarchived" "EventThreadUnarchived \<noteq> EventBranchCreated"
  "EventThreadArchived \<noteq> EventThreadUnarchived" "EventThreadUnarchived \<noteq> EventThreadArchived"
  by (simp_all add: thread_kind_defs)

record event_source =
  src_Type :: string
  src_ID :: string
  src_SessionID :: string

definition no_source :: event_source where
  "no_source = \<lparr>src_Type = [], src_ID = [], src_SessionID = []\<rparr>"

record event =
  ev_ID :: string
  ev_ThreadID :: string
  ev_BranchID :: string
  ev_NodeID :: string
  ev_ParentNodeID :: string
  ev_SchemaVersion :: int
  ev_Seq :: int
  ev_Kind :: string
  ev_Payload :: rawmsg
  ev_At :: time
  ev_Source :: event_source
  ev_CausationID :: string
  ev_CorrelationID :: string

text \<open>The zero \<^verbatim>\<open>thread.Event\<close>, from which the sources build literals.\<close>

definition no_event :: event where
  "no_event = \<lparr>ev_ID = [], ev_ThreadID = [], ev_BranchID = [], ev_NodeID = [], ev_ParentNodeID = [],
     ev_SchemaVersion = 0, ev_Seq = 0, ev_Kind = [], ev_Payload = NoBytes, ev_At = zero_time,
     ev_Source = no_source, ev_CausationID = [], ev_CorrelationID = []\<rparr>"

section \<open>Core payloads\<close>

record branch_created_payload =
  bc_FromBranchID :: string
  bc_ToBranchID :: string
  bc_ForkSeq :: int

definition no_branch_created :: branch_created_payload where
  "no_branch_created = \<lparr>bc_FromBranchID = [], bc_ToBranchID = [], bc_ForkSeq = 0\<rparr>"

definition branch_created_handlers :: "branch_created_payload handler list" where
  "branch_created_handlers =
     [(''from_branch_id'', at_field dec_string bc_FromBranchID (\<lambda>v s. s\<lparr>bc_FromBranchID := v\<rparr>)),
      (''to_branch_id'', at_field dec_string bc_ToBranchID (\<lambda>v s. s\<lparr>bc_ToBranchID := v\<rparr>)),
      (''fork_seq'', at_field dec_int bc_ForkSeq (\<lambda>v s. s\<lparr>bc_ForkSeq := v\<rparr>))]"

definition enc_branch_created :: "branch_created_payload \<Rightarrow> json" where
  "enc_branch_created p = JObj
     [(''from_branch_id'', JStr (bc_FromBranchID p)),
      (''to_branch_id'', JStr (bc_ToBranchID p)),
      (''fork_seq'', JNum (bc_ForkSeq p))]"

definition dec_branch_created :: "branch_created_payload decoder" where
  "dec_branch_created = dec_struct branch_created_handlers"

record thread_created_payload =
  tc_Metadata :: "(string \<rightharpoonup> string) option"

definition no_thread_created :: thread_created_payload where
  "no_thread_created = \<lparr>tc_Metadata = None\<rparr>"

definition thread_created_handlers :: "thread_created_payload handler list" where
  "thread_created_handlers =
     [(''metadata'', at_field dec_strmap tc_Metadata (\<lambda>v s. s\<lparr>tc_Metadata := v\<rparr>))]"

text \<open>The metadata argument lists the entries of the Go map.\<close>

definition enc_thread_created :: "(string \<times> string) list \<Rightarrow> json" where
  "enc_thread_created es = JObj (omit_strmap ''metadata'' es)"

definition dec_thread_created :: "thread_created_payload decoder" where
  "dec_thread_created = dec_struct thread_created_handlers"

lemma fold_names [simp]:
  "fold_name ''from_branch_id'' = ''from_branch_id''"
  "fold_name ''to_branch_id'' = ''to_branch_id''"
  "fold_name ''fork_seq'' = ''fork_seq''"
  "fold_name ''metadata'' = ''metadata''"
  by code_simp+

lemma dec_enc_branch_created:
  "int64_range (bc_ForkSeq p) \<Longrightarrow> dec_branch_created (enc_branch_created p) no_branch_created = Inr p"
  by (simp add: dec_branch_created_def enc_branch_created_def branch_created_handlers_def
      at_field_def no_branch_created_def)

interpretation branch_created: codec enc_branch_created dec_branch_created no_branch_created
    "\<lambda>p. int64_range (bc_ForkSeq p)"
  by unfold_locales (rule dec_enc_branch_created)

lemma dec_enc_thread_created:
  assumes "distinct (map fst es)"
  shows "dec_thread_created (enc_thread_created es) no_thread_created
    = Inr \<lparr>tc_Metadata = (if es = [] then None else Some (map_of es))\<rparr>"
  using dec_strmap_enc [OF assms]
  by (simp add: dec_thread_created_def enc_thread_created_def thread_created_handlers_def
      at_field_def no_thread_created_def omit_strmap_def)

section \<open>The event registry\<close>

text \<open>
  A definition's \<^verbatim>\<open>PayloadType\<close> is represented by the test its type gives: which documents
  decode into a value of it.
\<close>

record event_definition =
  ed_Kind :: string
  ed_PayloadType :: "(json \<Rightarrow> bool) option"
  ed_AllowEmptyPayload :: bool

type_synonym event_registry = "string \<rightharpoonup> event_definition"

datatype thread_error =
    CtxErr string
  | NotFoundThread string
  | NotFoundBranch string
  | AlreadyExistsThread string
  | AlreadyExistsBranch string
  | NoThreadID
  | KindRequired
  | ImportKindRequired
  | LiveClosed string
  | DefinitionKindRequired
  | DefinitionExists string
  | PayloadRequired string
  | PayloadInvalid string
  | PayloadUndecodable

definition DefineEvent :: "'s decoder \<Rightarrow> 's \<Rightarrow> string \<Rightarrow> event_definition" where
  "DefineEvent dec z kind =
     \<lparr>ed_Kind = kind, ed_PayloadType = Some (\<lambda>j. \<not> isl (dec j z)), ed_AllowEmptyPayload = False\<rparr>"

definition DefineEmptyEvent :: "string \<Rightarrow> event_definition" where
  "DefineEmptyEvent kind = \<lparr>ed_Kind = kind, ed_PayloadType = None, ed_AllowEmptyPayload = True\<rparr>"

fun EventRegistry_Register ::
  "event_registry \<Rightarrow> event_definition list \<Rightarrow> (thread_error, unit) result \<times> event_registry" where
  "EventRegistry_Register r [] = (Inr (), r)"
| "EventRegistry_Register r (d # ds) =
     (if ed_Kind d = [] then (Inl DefinitionKindRequired, r)
      else if r (ed_Kind d) \<noteq> None then (Inl (DefinitionExists (ed_Kind d)), r)
      else EventRegistry_Register (r(ed_Kind d \<mapsto> d)) ds)"

definition EventRegistry_Validate :: "event_registry \<Rightarrow> event \<Rightarrow> (thread_error, unit) result" where
  "EventRegistry_Validate r ev =
     (if ev_Kind ev = [] then Inl KindRequired
      else case r (ev_Kind ev) of
        None \<Rightarrow> Inr ()
      | Some d \<Rightarrow>
          (case ev_Payload ev of
             NoBytes \<Rightarrow>
               if ed_AllowEmptyPayload d \<or> ed_PayloadType d = None then Inr ()
               else Inl (PayloadRequired (ev_Kind ev))
           | BadBytes b \<Rightarrow>
               (case ed_PayloadType d of None \<Rightarrow> Inr () | Some _ \<Rightarrow> Inl (PayloadInvalid (ev_Kind ev)))
           | Doc j \<Rightarrow>
               (case ed_PayloadType d of
                  None \<Rightarrow> Inr ()
                | Some okj \<Rightarrow> if okj j then Inr () else Inl (PayloadInvalid (ev_Kind ev)))))"

definition NewEventRegistry :: "event_definition list \<Rightarrow> (thread_error, event_registry) result" where
  "NewEventRegistry ds =
     (case EventRegistry_Register Map.empty ds of (Inl e, r) \<Rightarrow> Inl e | (Inr _, r) \<Rightarrow> Inr r)"

definition CoreEventDefinitions :: "event_definition list" where
  "CoreEventDefinitions =
     [DefineEvent dec_thread_created no_thread_created EventThreadCreated,
      DefineEmptyEvent EventMetadataUpdated,
      DefineEmptyEvent EventThreadArchived,
      DefineEmptyEvent EventThreadUnarchived,
      DefineEvent dec_branch_created no_branch_created EventBranchCreated,
      DefineEmptyEvent EventBranchHeadMoved]"

lemma Register_result:
  "EventRegistry_Register r ds = (Inr (), r') \<longleftrightarrow>
     (\<forall>d \<in> set ds. ed_Kind d \<noteq> [] \<and> r (ed_Kind d) = None) \<and> distinct (map ed_Kind ds) \<and>
     r' = r ++ map_of (map (\<lambda>d. (ed_Kind d, d)) ds)"
proof (induction r ds rule: EventRegistry_Register.induct)
  case (2 r d ds)
  show ?case
  proof (cases "ed_Kind d = [] \<or> r (ed_Kind d) \<noteq> None")
    case True
    then show ?thesis by auto
  next
    case False
    let ?m = "map_of (map (\<lambda>d. (ed_Kind d, d)) ds)"
    have upd: "r(ed_Kind d \<mapsto> d) ++ ?m = r ++ map_of (map (\<lambda>d. (ed_Kind d, d)) (d # ds))"
      if "ed_Kind d \<notin> ed_Kind ` set ds"
      by (rule ext) (use that in \<open>force simp: map_add_def dest!: map_of_SomeD split: option.splits\<close>)
    from False have "EventRegistry_Register r (d # ds) = (Inr (), r') \<longleftrightarrow>
        EventRegistry_Register (r(ed_Kind d \<mapsto> d)) ds = (Inr (), r')"
      by simp
    also from 2 False have "\<dots> \<longleftrightarrow>
        (\<forall>x \<in> set ds. ed_Kind x \<noteq> [] \<and> (r(ed_Kind d \<mapsto> d)) (ed_Kind x) = None) \<and>
        distinct (map ed_Kind ds) \<and> r' = r(ed_Kind d \<mapsto> d) ++ ?m"
      by blast
    also have "\<dots> \<longleftrightarrow> (\<forall>x \<in> set (d # ds). ed_Kind x \<noteq> [] \<and> r (ed_Kind x) = None) \<and>
        distinct (map ed_Kind (d # ds)) \<and>
        r' = r ++ map_of (map (\<lambda>d. (ed_Kind d, d)) (d # ds))" (is "?A \<longleftrightarrow> ?B")
    proof (cases "ed_Kind d \<in> ed_Kind ` set ds")
      case True
      then show ?thesis by auto
    next
      case False': False
      then have "\<forall>x \<in> set ds. (r(ed_Kind d \<mapsto> d)) (ed_Kind x) = r (ed_Kind x)"
        by (metis fun_upd_other imageI)
      with False False' upd [OF False'] show ?thesis by (simp only: list.set list.map distinct.simps) auto
    qed
    finally show ?thesis .
  qed
qed auto

end
