(* ===== verification/Thread_Store.thy ===== *)
theory Thread_Store
  imports Thread_Event "HOL-Library.Finite_Map"
begin

text \<open>
  The stored view of a thread and the events visible on one of its branches
  (\<^verbatim>\<open>src/thread/store.go\<close>). Go maps are finite maps. \<^verbatim>\<open>branchWindows\<close> follows parent links in a
  loop that ends only when the links do, so the chain it walks is a partial function: \<^term>\<open>None\<close>
  stands for a call that never returns.

  Contents: \<^term>\<open>EventsForBranch\<close> and what it is made of; the well-formedness of a branch map
  (every branch but a root was forked from an existing branch at a later sequence number), under
  which the walk returns; and the algebra of branch windows the stores build on.
\<close>

record branch =
  br_ID :: string
  br_Parent :: string
  br_ForkSeq :: int
  br_CreatedAt :: time

record stored =
  st_ID :: string
  st_BranchID :: string
  st_Branches :: "(string, branch) fmap"
  st_Metadata :: "string \<rightharpoonup> string"
  st_Archived :: bool
  st_CreatedAt :: time
  st_UpdatedAt :: time
  st_Events :: "event list"

record branch_window =
  bw_after :: int
  bw_until :: int

text \<open>
  The loop of \<^verbatim>\<open>branchWindows\<close>: the branches from \<^term>\<open>cur\<close> up to its root, the starting branch
  first (the Go variable \<^verbatim>\<open>reversed\<close>).
\<close>

partial_function (option) branch_chain ::
  "(string, branch) fmap \<Rightarrow> string \<Rightarrow> (thread_error, branch list) result option" where
  "branch_chain bs cur =
     (if cur = [] then Some (Inr [])
      else case fmlookup bs cur of
        None \<Rightarrow> Some (Inl (NotFoundBranch cur))
      | Some b \<Rightarrow> Option.bind (branch_chain bs (br_Parent b))
          (\<lambda>r. Some (rbind r (\<lambda>bs'. Inr (b # bs')))))"

text \<open>The windows of a path given root first: each branch up to the fork of the next one.\<close>

fun path_windows :: "branch list \<Rightarrow> (string, branch_window) fmap \<Rightarrow> (string, branch_window) fmap" where
  "path_windows [] m = m"
| "path_windows [b] m = fmupd (br_ID b) \<lparr>bw_after = br_ForkSeq b, bw_until = 0\<rparr> m"
| "path_windows (b # c # ps) m =
     path_windows (c # ps) (fmupd (br_ID b) \<lparr>bw_after = br_ForkSeq b, bw_until = br_ForkSeq c\<rparr> m)"

definition branchWindows ::
  "stored \<Rightarrow> string \<Rightarrow> (thread_error, (string, branch_window) fmap) result option" where
  "branchWindows s branchID =
     (if st_Branches s = fmempty then
        (if branchID = MainBranch \<or> branchID = []
         then Some (Inr (fmupd MainBranch \<lparr>bw_after = 0, bw_until = 0\<rparr> fmempty))
         else Some (Inl (NotFoundBranch branchID)))
      else map_option (\<lambda>r. rbind r (\<lambda>reversed. Inr (path_windows (rev reversed) fmempty)))
             (branch_chain (st_Branches s) branchID))"

definition in_window :: "(string, branch_window) fmap \<Rightarrow> event \<Rightarrow> bool" where
  "in_window windows ev =
     (case fmlookup windows (ev_BranchID ev) of
        None \<Rightarrow> False
      | Some w \<Rightarrow> \<not> ev_Seq ev \<le> bw_after w \<and> \<not> (bw_until w > 0 \<and> ev_Seq ev > bw_until w))"

definition EventsForBranch :: "stored \<Rightarrow> string \<Rightarrow> (thread_error, event list) result option" where
  "EventsForBranch s branchID =
     (let b1 = (if branchID = [] then st_BranchID s else branchID);
          b2 = (if b1 = [] then MainBranch else b1)
      in map_option (\<lambda>r. rbind r (\<lambda>windows. Inr (filter (in_window windows) (st_Events s))))
           (branchWindows s b2))"

section \<open>Well-formed branch maps\<close>

definition branches_wf :: "(string, branch) fmap \<Rightarrow> bool" where
  "branches_wf bs \<longleftrightarrow>
     fmlookup bs [] = None \<and>
     (\<forall>b br. fmlookup bs b = Some br \<longrightarrow>
        br_ID br = b \<and> 0 \<le> br_ForkSeq br \<and>
        (br_Parent br \<noteq> [] \<longrightarrow>
           (\<exists>pb. fmlookup bs (br_Parent br) = Some pb \<and> br_ForkSeq pb < br_ForkSeq br)))"

lemma branches_wfD:
  assumes "branches_wf bs" "fmlookup bs b = Some br"
  shows "br_ID br = b" "0 \<le> br_ForkSeq br" "b \<noteq> []"
    "br_Parent br \<noteq> [] \<Longrightarrow> \<exists>pb. fmlookup bs (br_Parent br) = Some pb \<and> br_ForkSeq pb < br_ForkSeq br"
  using assms unfolding branches_wf_def by fastforce+

lemma branch_chain_Nil [simp]: "branch_chain bs [] = Some (Inr [])"
  by (simp add: branch_chain.simps)

lemma branch_chain_missing: "cur \<noteq> [] \<Longrightarrow> fmlookup bs cur = None \<Longrightarrow>
    branch_chain bs cur = Some (Inl (NotFoundBranch cur))"
  by (simp add: branch_chain.simps)

lemma branch_chain_step: "cur \<noteq> [] \<Longrightarrow> fmlookup bs cur = Some b \<Longrightarrow>
    branch_chain bs cur = Option.bind (branch_chain bs (br_Parent b))
      (\<lambda>r. Some (rbind r (\<lambda>bs'. Inr (b # bs'))))"
  by (subst branch_chain.simps) simp

text \<open>
  On a well-formed map the walk returns: fork sequence numbers decrease along it. The chain is
  described by \<^term>\<open>chain_ok\<close>.
\<close>

fun chain_ok :: "(string, branch) fmap \<Rightarrow> string \<Rightarrow> branch list \<Rightarrow> bool" where
  "chain_ok bs cur [] = (cur = [])"
| "chain_ok bs cur (b # cs) = (cur \<noteq> [] \<and> fmlookup bs cur = Some b \<and> chain_ok bs (br_Parent b) cs)"

lemma chain_ok_chain: "chain_ok bs cur cs \<Longrightarrow> branch_chain bs cur = Some (Inr cs)"
  by (induction cs arbitrary: cur) (auto simp: branch_chain_step)

lemma chain_exists:
  assumes "branches_wf bs" "fmlookup bs b = Some br"
  shows "\<exists>cs. chain_ok bs b (br # cs)"
  using assms(2)
proof (induction "nat (br_ForkSeq br)" arbitrary: b br rule: less_induct)
  case less
  note wf = branches_wfD [OF assms(1) less.prems]
  show ?case
  proof (cases "br_Parent br = []")
    case True
    then have "chain_ok bs b [br]" using less.prems wf(3) by simp
    then show ?thesis by blast
  next
    case False
    then obtain pb where pb: "fmlookup bs (br_Parent br) = Some pb" "br_ForkSeq pb < br_ForkSeq br"
      using wf(4) by blast
    moreover have "0 \<le> br_ForkSeq pb" by (rule branches_wfD(2) [OF assms(1) pb(1)])
    ultimately obtain cs where "chain_ok bs (br_Parent br) (pb # cs)"
      using less.hyps by (metis nat_less_eq_zless)
    then have "chain_ok bs b (br # pb # cs)" using less.prems wf(3) by simp
    then show ?thesis by blast
  qed
qed

lemma chain_ok_unique: "chain_ok bs b cs \<Longrightarrow> chain_ok bs b ds \<Longrightarrow> cs = ds"
proof (induction cs arbitrary: b ds)
  case Nil
  then show ?case by (cases ds) auto
next
  case (Cons c cs)
  then show ?case by (cases ds) auto
qed

lemma chain_ok_mono:
  "chain_ok bs b cs \<Longrightarrow> (\<And>k v. fmlookup bs k = Some v \<Longrightarrow> fmlookup bs' k = Some v) \<Longrightarrow> chain_ok bs' b cs"
  by (induction cs arbitrary: b) auto

lemma chain_ok_lookup: "chain_ok bs b cs \<Longrightarrow> c \<in> set cs \<Longrightarrow> \<exists>k. fmlookup bs k = Some c"
  by (induction cs arbitrary: b) auto

text \<open>Fork points strictly decrease towards the root, so no branch occurs twice.\<close>

lemma chain_ok_sorted:
  assumes "branches_wf bs" "chain_ok bs b cs"
  shows "sorted_wrt (\<lambda>x y. br_ForkSeq x > br_ForkSeq y) cs"
  using assms(2)
proof (induction cs arbitrary: b)
  case (Cons c cs)
  then have c: "fmlookup bs b = Some c" and rest: "chain_ok bs (br_Parent c) cs" by auto
  from Cons.IH [OF rest] have IH: "sorted_wrt (\<lambda>x y. br_ForkSeq x > br_ForkSeq y) cs" .
  show ?case
  proof (cases cs)
    case (Cons d ds)
    with rest have "br_Parent c \<noteq> []" "fmlookup bs (br_Parent c) = Some d" by auto
    with branches_wfD(4) [OF assms(1) c] have "br_ForkSeq d < br_ForkSeq c" by auto
    with IH Cons show ?thesis by fastforce
  qed simp
qed simp

lemma chain_ok_distinct:
  assumes "branches_wf bs" "chain_ok bs b cs"
  shows "distinct (map br_ID cs)"
proof -
  have s: "sorted_wrt (\<lambda>x y. br_ForkSeq x > br_ForkSeq y) cs"
    by (rule chain_ok_sorted [OF assms])
  have "c = d" if cd: "c \<in> set cs" "d \<in> set cs" "br_ID c = br_ID d" for c d
  proof -
    obtain k l where "fmlookup bs k = Some c" "fmlookup bs l = Some d"
      using chain_ok_lookup [OF assms(2)] cd(1,2) by blast
    with cd(3) branches_wfD(1) [OF assms(1)] show ?thesis by (metis option.inject)
  qed
  then have inj: "inj_on br_ID (set cs)" by (auto simp: inj_on_def)
  have "distinct cs"
    using s by (induction cs) auto
  with inj show ?thesis by (simp add: distinct_map)
qed

section \<open>Windows of a path\<close>

text \<open>The event lies on a branch of the chain (starting branch first) inside that branch's window.\<close>

fun chain_sees :: "branch list \<Rightarrow> int \<Rightarrow> event \<Rightarrow> bool" where
  "chain_sees [] lim ev = False"
| "chain_sees (b # cs) lim ev =
     (if ev_BranchID ev = br_ID b
      then ev_Seq ev > br_ForkSeq b \<and> \<not> (lim > 0 \<and> ev_Seq ev > lim)
      else chain_sees cs (br_ForkSeq b) ev)"

lemma path_windows_other:
  "k \<notin> br_ID ` set ps \<Longrightarrow> fmlookup (path_windows ps m) k = fmlookup m k"
  by (induction ps m rule: path_windows.induct) auto

text \<open>The general form: a path whose last branch is bounded by \<^term>\<open>lim\<close>.\<close>

fun path_windows_to :: "branch list \<Rightarrow> int \<Rightarrow> (string, branch_window) fmap \<Rightarrow> (string, branch_window) fmap" where
  "path_windows_to [] lim m = m"
| "path_windows_to [b] lim m = fmupd (br_ID b) \<lparr>bw_after = br_ForkSeq b, bw_until = lim\<rparr> m"
| "path_windows_to (b # c # ps) lim m =
     path_windows_to (c # ps) lim (fmupd (br_ID b) \<lparr>bw_after = br_ForkSeq b, bw_until = br_ForkSeq c\<rparr> m)"

lemma path_windows_eq_to: "path_windows ps m = path_windows_to ps 0 m"
  by (induction ps m rule: path_windows.induct) auto

lemma path_windows_to_snoc:
  "path_windows_to (ps @ [b]) lim m =
     fmupd (br_ID b) \<lparr>bw_after = br_ForkSeq b, bw_until = lim\<rparr> (path_windows_to ps (br_ForkSeq b) m)"
proof (induction ps lim m rule: path_windows_to.induct)
  case (3 a c ps lim m)
  then show ?case by simp
qed simp_all

lemma in_window_chain:
  "distinct (map br_ID cs) \<Longrightarrow>
     in_window (path_windows_to (rev cs) lim fmempty) ev = chain_sees cs lim ev"
proof (induction cs arbitrary: lim)
  case Nil
  then show ?case by (simp add: in_window_def)
next
  case (Cons b cs)
  then have IH: "in_window (path_windows_to (rev cs) (br_ForkSeq b) fmempty) ev
      = chain_sees cs (br_ForkSeq b) ev" by simp
  show ?case
  proof (cases "ev_BranchID ev = br_ID b")
    case True
    then show ?thesis by (auto simp: in_window_def path_windows_to_snoc)
  next
    case False
    then show ?thesis using IH by (simp add: in_window_def path_windows_to_snoc)
  qed
qed

lemma branches_wf_nonempty: "fmlookup bs b = Some br \<Longrightarrow> bs \<noteq> fmempty"
  by auto

text \<open>What \<^term>\<open>EventsForBranch\<close> returns on a well-formed branch map, for a named branch.\<close>

lemma EventsForBranch_chain:
  assumes "branches_wf (st_Branches s)" "chain_ok (st_Branches s) b cs" "cs \<noteq> []"
  shows "EventsForBranch s b = Some (Inr (filter (chain_sees cs 0) (st_Events s)))"
proof -
  from assms(2,3) have b: "b \<noteq> []" and "fmlookup (st_Branches s) b \<noteq> None"
    by (cases cs; auto)+
  then have ne: "st_Branches s \<noteq> fmempty" by auto
  have "branchWindows s b = Some (Inr (path_windows (rev cs) fmempty))"
    using ne chain_ok_chain [OF assms(2)] by (simp add: branchWindows_def)
  moreover have "in_window (path_windows (rev cs) fmempty) ev = chain_sees cs 0 ev" for ev
    by (simp add: path_windows_eq_to in_window_chain [OF chain_ok_distinct [OF assms(1,2)]])
  ultimately show ?thesis
    using b by (simp add: EventsForBranch_def cong: filter_cong)
qed

lemma EventsForBranch_missing:
  assumes "b \<noteq> []" "fmlookup (st_Branches s) b = None" "st_Branches s \<noteq> fmempty"
  shows "EventsForBranch s b = Some (Inl (NotFoundBranch b))"
  using assms by (simp add: EventsForBranch_def branchWindows_def branch_chain_missing)

end
