(* ===== verification/Memory_Store.thy ===== *)
theory Memory_Store
  imports Thread_Store
begin

text \<open>
  The in-memory thread store (\<^verbatim>\<open>src/thread/memorystore.go\<close>). The mutex makes each method atomic,
  so a method is a function from the store to its result and the new store. What a method draws
  from its surroundings is an argument: random identifiers and the clock (the record \<^verbatim>\<open>gen\<close>) and
  Go's unspecified map iteration order (the argument \<^verbatim>\<open>iter\<close> of \<^verbatim>\<open>List\<close>).
\<close>

section \<open>State and operations\<close>

record memory_thread =
  mt_id :: string
  mt_branchID :: string
  mt_branches :: "(string, branch) fmap"
  mt_metadata :: "string \<rightharpoonup> string"
  mt_archived :: bool
  mt_createdAt :: time
  mt_updatedAt :: time
  mt_nextSeq :: int
  mt_events :: "event list"

record memory_store =
  ms_threads :: "(string, memory_thread) fmap"
  ms_registry :: "event_registry option"

record memory_live =
  ml_threadID :: string
  ml_branchID :: string
  ml_source :: event_source
  ml_closed :: bool

record gen =
  g_ID :: string
  g_BranchID :: string
  g_EventID :: "int \<Rightarrow> string"
  g_now :: time

record create_params =
  cp_ID :: string
  cp_BranchID :: string
  cp_Metadata :: "(string \<times> string) list"
  cp_Source :: event_source
  cp_Now :: time

record resume_params =
  rp_ID :: string
  rp_BranchID :: string
  rp_Source :: event_source

record fork_params =
  fp_ID :: string
  fp_FromBranchID :: string
  fp_ToBranchID :: string
  fp_Source :: event_source

record list_params =
  lp_IncludeArchived :: bool
  lp_Limit :: int

definition NewMemoryStore :: "event_registry option \<Rightarrow> memory_store" where
  "NewMemoryStore r = \<lparr>ms_threads = fmempty, ms_registry = r\<rparr>"

definition put_thread :: "string \<Rightarrow> memory_thread \<Rightarrow> memory_store \<Rightarrow> memory_store" where
  "put_thread tid t s = s\<lparr>ms_threads := fmupd tid t (ms_threads s)\<rparr>"

definition validateEvent :: "memory_store \<Rightarrow> event \<Rightarrow> (thread_error, unit) result" where
  "validateEvent s ev = (case ms_registry s of None \<Rightarrow> Inr () | Some r \<Rightarrow> EventRegistry_Validate r ev)"

text \<open>One iteration of \<^verbatim>\<open>appendLocked\<close>: the event as it is stored.\<close>

definition stamp_event :: "gen \<Rightarrow> string \<Rightarrow> memory_thread \<Rightarrow> event \<Rightarrow> event" where
  "stamp_event g branchID t e =
     (let e1 = (if ev_ID e = [] then e\<lparr>ev_ID := g_EventID g (mt_nextSeq t)\<rparr> else e);
          e2 = e1\<lparr>ev_ThreadID := mt_id t\<rparr>;
          e3 = (if ev_BranchID e2 = [] then e2\<lparr>ev_BranchID := branchID\<rparr> else e2);
          e4 = (if ev_BranchID e3 = [] then e3\<lparr>ev_BranchID := mt_branchID t\<rparr> else e3);
          e5 = (if ev_SchemaVersion e4 = 0 then e4\<lparr>ev_SchemaVersion := CurrentEventSchemaVersion\<rparr> else e4);
          e6 = e5\<lparr>ev_Seq := mt_nextSeq t\<rparr>
      in if ev_At e6 = zero_time then e6\<lparr>ev_At := g_now g\<rparr> else e6)"

fun appendLocked :: "gen \<Rightarrow> string \<Rightarrow> memory_thread \<Rightarrow> event list \<Rightarrow> memory_thread" where
  "appendLocked g branchID t [] = t"
| "appendLocked g branchID t (e # es) =
     (let e' = stamp_event g branchID t e
      in appendLocked g branchID
           (t\<lparr>mt_nextSeq := mt_nextSeq t + 1, mt_events := mt_events t @ [e'], mt_updatedAt := ev_At e'\<rparr>) es)"

definition snapshot :: "memory_thread \<Rightarrow> stored" where
  "snapshot t = \<lparr>st_ID = mt_id t, st_BranchID = mt_branchID t, st_Branches = mt_branches t,
     st_Metadata = mt_metadata t, st_Archived = mt_archived t, st_CreatedAt = mt_createdAt t,
     st_UpdatedAt = mt_updatedAt t, st_Events = mt_events t\<rparr>"

text \<open>The parts of one iteration of \<^verbatim>\<open>Import\<close>, in the order of the code.\<close>

definition import_new_thread :: "event \<Rightarrow> string \<Rightarrow> memory_thread" where
  "import_new_thread e branchID =
     \<lparr>mt_id = ev_ThreadID e, mt_branchID = branchID,
      mt_branches = fmupd branchID
        \<lparr>br_ID = branchID, br_Parent = [], br_ForkSeq = 0, br_CreatedAt = ev_At e\<rparr> fmempty,
      mt_metadata = Map.empty, mt_archived = False, mt_createdAt = ev_At e, mt_updatedAt = ev_At e,
      mt_nextSeq = 1, mt_events = []\<rparr>"

definition import_known_branch :: "event \<Rightarrow> string \<Rightarrow> memory_thread \<Rightarrow> memory_thread" where
  "import_known_branch e branchID t =
     (if fmlookup (mt_branches t) branchID = None
      then t\<lparr>mt_branches := fmupd branchID
             \<lparr>br_ID = branchID, br_Parent = [], br_ForkSeq = 0, br_CreatedAt = ev_At e\<rparr> (mt_branches t)\<rparr>
      else t)"

definition import_created :: "event \<Rightarrow> string \<Rightarrow> memory_thread \<Rightarrow> memory_thread" where
  "import_created e branchID t =
     (if ev_Kind e = EventThreadCreated then
        let t1 = (if ev_At e < mt_createdAt t \<or> mt_createdAt t = zero_time
                  then t\<lparr>mt_createdAt := ev_At e\<rparr> else t);
            t2 = t1\<lparr>mt_branchID := branchID\<rparr>
        in case Unmarshal dec_thread_created (ev_Payload e) no_thread_created of
             Inl _ \<Rightarrow> t2
           | Inr p \<Rightarrow> (case tc_Metadata p of None \<Rightarrow> t2 | Some m \<Rightarrow> t2\<lparr>mt_metadata := m\<rparr>)
      else t)"

definition import_branch_created ::
  "event \<Rightarrow> string \<Rightarrow> memory_thread \<Rightarrow> (thread_error, memory_thread) result" where
  "import_branch_created e branchID t =
     (if ev_Kind e = EventBranchCreated then
        case Unmarshal dec_branch_created (ev_Payload e) no_branch_created of
          Inl _ \<Rightarrow> Inl PayloadUndecodable
        | Inr p \<Rightarrow>
            (let to = (if bc_ToBranchID p = [] then branchID else bc_ToBranchID p)
             in Inr (t\<lparr>mt_branches := fmupd to
                  \<lparr>br_ID = to, br_Parent = bc_FromBranchID p, br_ForkSeq = bc_ForkSeq p,
                   br_CreatedAt = ev_At e\<rparr> (mt_branches t)\<rparr>))
      else Inr t)"

definition import_log :: "event \<Rightarrow> memory_thread \<Rightarrow> memory_thread" where
  "import_log e t =
     (let t1 = (if ev_Kind e = EventThreadArchived then t\<lparr>mt_archived := True\<rparr> else t);
          t2 = (if ev_Kind e = EventThreadUnarchived then t1\<lparr>mt_archived := False\<rparr> else t1);
          t3 = t2\<lparr>mt_events := mt_events t2 @ [e]\<rparr>;
          t4 = (if mt_nextSeq t3 \<le> ev_Seq e then t3\<lparr>mt_nextSeq := ev_Seq e + 1\<rparr> else t3)
      in if mt_updatedAt t4 < ev_At e \<or> mt_updatedAt t4 = zero_time
         then t4\<lparr>mt_updatedAt := ev_At e\<rparr> else t4)"

definition import_event :: "memory_store \<Rightarrow> event \<Rightarrow> (thread_error, unit) result \<times> memory_store" where
  "import_event s e0 =
     (if ev_ThreadID e0 = [] then (Inl NoThreadID, s)
      else if ev_Kind e0 = [] then (Inl ImportKindRequired, s)
      else
        let e1 = (if ev_SchemaVersion e0 = 0 then e0\<lparr>ev_SchemaVersion := CurrentEventSchemaVersion\<rparr> else e0)
        in case validateEvent s e1 of
             Inl err \<Rightarrow> (Inl err, s)
           | Inr _ \<Rightarrow>
               (let branchID = (if ev_BranchID e1 = [] then MainBranch else ev_BranchID e1);
                    e = e1\<lparr>ev_BranchID := branchID\<rparr>;
                    t0 = (case fmlookup (ms_threads s) (ev_ThreadID e) of
                            None \<Rightarrow> import_new_thread e branchID | Some t \<Rightarrow> t);
                    t1 = import_created e branchID (import_known_branch e branchID t0)
                in case import_branch_created e branchID t1 of
                     Inl err \<Rightarrow> (Inl err, put_thread (ev_ThreadID e) t1 s)
                   | Inr t2 \<Rightarrow> (Inr (), put_thread (ev_ThreadID e) (import_log e t2) s)))"

fun import_events :: "memory_store \<Rightarrow> event list \<Rightarrow> (thread_error, unit) result \<times> memory_store" where
  "import_events s [] = (Inr (), s)"
| "import_events s (e # es) =
     (case import_event s e of (Inl err, s') \<Rightarrow> (Inl err, s') | (Inr _, s') \<Rightarrow> import_events s' es)"

definition MemoryStore_Import ::
  "go_ctx \<Rightarrow> event list \<Rightarrow> memory_store \<Rightarrow> (thread_error, unit) result \<times> memory_store" where
  "MemoryStore_Import ctx es s = (case ctx of Some err \<Rightarrow> (Inl (CtxErr err), s) | None \<Rightarrow> import_events s es)"

definition new_thread :: "create_params \<Rightarrow> string \<Rightarrow> string \<Rightarrow> time \<Rightarrow> memory_thread" where
  "new_thread p tid branchID now =
     \<lparr>mt_id = tid, mt_branchID = branchID,
      mt_branches = fmupd branchID
        \<lparr>br_ID = branchID, br_Parent = [], br_ForkSeq = 0, br_CreatedAt = now\<rparr> fmempty,
      mt_metadata = map_of (cp_Metadata p), mt_archived = False, mt_createdAt = now,
      mt_updatedAt = now, mt_nextSeq = 1, mt_events = []\<rparr>"

definition created_event :: "gen \<Rightarrow> create_params \<Rightarrow> string \<Rightarrow> string \<Rightarrow> time \<Rightarrow> event" where
  "created_event g p tid branchID now =
     no_event\<lparr>ev_ID := g_EventID g 1, ev_ThreadID := tid, ev_BranchID := branchID, ev_Seq := 1,
       ev_SchemaVersion := CurrentEventSchemaVersion, ev_Kind := EventThreadCreated,
       ev_Payload := Doc (enc_thread_created (cp_Metadata p)), ev_At := now, ev_Source := cp_Source p\<rparr>"

definition MemoryStore_Create ::
  "go_ctx \<Rightarrow> gen \<Rightarrow> create_params \<Rightarrow> memory_store \<Rightarrow> (thread_error, memory_live) result \<times> memory_store" where
  "MemoryStore_Create ctx g p s =
     (case ctx of Some err \<Rightarrow> (Inl (CtxErr err), s) | None \<Rightarrow>
        let tid = (if cp_ID p = [] then g_ID g else cp_ID p) in
        if fmlookup (ms_threads s) tid \<noteq> None then (Inl (AlreadyExistsThread tid), s)
        else
          let branchID = (if cp_BranchID p = [] then MainBranch else cp_BranchID p);
              now = (if cp_Now p = zero_time then g_now g else cp_Now p);
              t = new_thread p tid branchID now;
              created = created_event g p tid branchID now
          in case validateEvent s created of
               Inl err \<Rightarrow> (Inl err, s)
             | Inr _ \<Rightarrow>
                 (Inr \<lparr>ml_threadID = tid, ml_branchID = branchID, ml_source = cp_Source p, ml_closed = False\<rparr>,
                  put_thread tid (t\<lparr>mt_events := mt_events t @ [created], mt_nextSeq := mt_nextSeq t + 1\<rparr>) s))"

definition MemoryStore_Resume ::
  "go_ctx \<Rightarrow> resume_params \<Rightarrow> memory_store \<Rightarrow> (thread_error, memory_live) result" where
  "MemoryStore_Resume ctx p s =
     (case ctx of Some err \<Rightarrow> Inl (CtxErr err) | None \<Rightarrow>
        (case fmlookup (ms_threads s) (rp_ID p) of
           None \<Rightarrow> Inl (NotFoundThread (rp_ID p))
         | Some t \<Rightarrow>
             (let branchID = (if rp_BranchID p = [] then mt_branchID t else rp_BranchID p) in
              if fmlookup (mt_branches t) branchID = None then Inl (NotFoundBranch branchID)
              else Inr \<lparr>ml_threadID = mt_id t, ml_branchID = branchID, ml_source = rp_Source p,
                        ml_closed = False\<rparr>)))"

definition fork_event :: "fork_params \<Rightarrow> string \<Rightarrow> string \<Rightarrow> int \<Rightarrow> time \<Rightarrow> event" where
  "fork_event p from to forkSeq now =
     no_event\<lparr>ev_Kind := EventBranchCreated,
       ev_Payload := Doc (enc_branch_created
         \<lparr>bc_FromBranchID = from, bc_ToBranchID = to, bc_ForkSeq = forkSeq\<rparr>),
       ev_Source := fp_Source p, ev_At := now\<rparr>"

definition MemoryStore_Fork ::
  "go_ctx \<Rightarrow> gen \<Rightarrow> fork_params \<Rightarrow> memory_store \<Rightarrow> (thread_error, memory_live) result \<times> memory_store" where
  "MemoryStore_Fork ctx g p s =
     (case ctx of Some err \<Rightarrow> (Inl (CtxErr err), s) | None \<Rightarrow>
        (case fmlookup (ms_threads s) (fp_ID p) of
           None \<Rightarrow> (Inl (NotFoundThread (fp_ID p)), s)
         | Some t \<Rightarrow>
             (let from1 = (if fp_FromBranchID p = [] then mt_branchID t else fp_FromBranchID p);
                  from = (if from1 = [] then MainBranch else from1) in
              if fmlookup (mt_branches t) from = None then (Inl (NotFoundBranch from), s)
              else
                let to = (if fp_ToBranchID p = [] then g_BranchID g else fp_ToBranchID p) in
                if fmlookup (mt_branches t) to \<noteq> None then (Inl (AlreadyExistsBranch to), s)
                else
                  let forkSeq = mt_nextSeq t - 1;
                      t1 = t\<lparr>mt_branches := fmupd to
                             \<lparr>br_ID = to, br_Parent = from, br_ForkSeq = forkSeq, br_CreatedAt = g_now g\<rparr>
                             (mt_branches t)\<rparr>;
                      ev = fork_event p from to forkSeq (g_now g)
                  in case validateEvent s ev of
                       Inl err \<Rightarrow> (Inl err, put_thread (fp_ID p) t1 s)
                     | Inr _ \<Rightarrow>
                         (Inr \<lparr>ml_threadID = mt_id t, ml_branchID = to, ml_source = fp_Source p,
                               ml_closed = False\<rparr>,
                          put_thread (fp_ID p) (appendLocked g to t1 [ev]) s))))"

definition MemoryStore_Read :: "go_ctx \<Rightarrow> string \<Rightarrow> memory_store \<Rightarrow> (thread_error, stored) result" where
  "MemoryStore_Read ctx tid s =
     (case ctx of Some err \<Rightarrow> Inl (CtxErr err) | None \<Rightarrow>
        (case fmlookup (ms_threads s) tid of
           None \<Rightarrow> Inl (NotFoundThread tid) | Some t \<Rightarrow> Inr (snapshot t)))"

text \<open>
  \<^verbatim>\<open>List\<close>: \<^term>\<open>iter\<close> enumerates the keys of the map in the order Go happens to visit them; the
  unstable \<^verbatim>\<open>sort.Slice\<close> on an arbitrary enumeration is a stable sort on an arbitrary enumeration.
\<close>

definition MemoryStore_List ::
  "go_ctx \<Rightarrow> string list \<Rightarrow> list_params \<Rightarrow> memory_store \<Rightarrow> (thread_error, stored list) result" where
  "MemoryStore_List ctx iter p s =
     (case ctx of Some err \<Rightarrow> Inl (CtxErr err) | None \<Rightarrow>
        let ts = List.map_filter (fmlookup (ms_threads s)) iter;
            kept = map snapshot (filter (\<lambda>t. \<not> (mt_archived t \<and> \<not> lp_IncludeArchived p)) ts);
            threads = sort_key (\<lambda>x. - st_UpdatedAt x) kept
        in Inr (if lp_Limit p > 0 \<and> int (length threads) > lp_Limit p
                then take (nat (lp_Limit p)) threads else threads))"

definition setArchived ::
  "go_ctx \<Rightarrow> gen \<Rightarrow> string \<Rightarrow> bool \<Rightarrow> string \<Rightarrow> memory_store \<Rightarrow> (thread_error, unit) result \<times> memory_store" where
  "setArchived ctx g tid archived kind s =
     (case ctx of Some err \<Rightarrow> (Inl (CtxErr err), s) | None \<Rightarrow>
        (case fmlookup (ms_threads s) tid of
           None \<Rightarrow> (Inl (NotFoundThread tid), s)
         | Some t \<Rightarrow>
             (let t1 = t\<lparr>mt_archived := archived\<rparr>;
                  ev = no_event\<lparr>ev_Kind := kind\<rparr>
              in case validateEvent s ev of
                   Inl err \<Rightarrow> (Inl err, put_thread tid t1 s)
                 | Inr _ \<Rightarrow> (Inr (), put_thread tid (appendLocked g (mt_branchID t1) t1 [ev]) s))))"

definition MemoryStore_Archive where
  "MemoryStore_Archive ctx g tid = setArchived ctx g tid True EventThreadArchived"

definition MemoryStore_Unarchive where
  "MemoryStore_Unarchive ctx g tid = setArchived ctx g tid False EventThreadUnarchived"

text \<open>\<^verbatim>\<open>memoryLive.Append\<close>: the whole batch is checked before any event is stored.\<close>

definition live_event :: "memory_live \<Rightarrow> event \<Rightarrow> event" where
  "live_event l e =
     (let e1 = e\<lparr>ev_ThreadID := ml_threadID l\<rparr>;
          e2 = (if ev_BranchID e1 = [] then e1\<lparr>ev_BranchID := ml_branchID l\<rparr> else e1)
      in if src_Type (ev_Source e2) = [] \<and> src_ID (ev_Source e2) = [] \<and> src_SessionID (ev_Source e2) = []
         then e2\<lparr>ev_Source := ml_source l\<rparr> else e2)"

fun live_batch :: "memory_store \<Rightarrow> memory_live \<Rightarrow> event list \<Rightarrow> (thread_error, event list) result" where
  "live_batch s l [] = Inr []"
| "live_batch s l (e # es) =
     (if ev_Kind e = [] then Inl KindRequired
      else case validateEvent s e of
        Inl err \<Rightarrow> Inl err
      | Inr _ \<Rightarrow> rbind (live_batch s l es) (\<lambda>b. Inr (live_event l e # b)))"

definition memoryLive_Append ::
  "go_ctx \<Rightarrow> gen \<Rightarrow> memory_live \<Rightarrow> event list \<Rightarrow> memory_store \<Rightarrow> (thread_error, unit) result \<times> memory_store" where
  "memoryLive_Append ctx g l es s =
     (case ctx of Some err \<Rightarrow> (Inl (CtxErr err), s) | None \<Rightarrow>
        if es = [] then (Inr (), s)
        else if ml_closed l then (Inl (LiveClosed (ml_threadID l)), s)
        else case fmlookup (ms_threads s) (ml_threadID l) of
          None \<Rightarrow> (Inl (NotFoundThread (ml_threadID l)), s)
        | Some t \<Rightarrow>
            (case live_batch s l es of
               Inl err \<Rightarrow> (Inl err, s)
             | Inr batch \<Rightarrow> (Inr (), put_thread (ml_threadID l) (appendLocked g (ml_branchID l) t batch) s)))"

definition memoryLive_Shutdown :: "memory_live \<Rightarrow> memory_live" where
  "memoryLive_Shutdown l = l\<lparr>ml_closed := True\<rparr>"

definition memoryLive_Discard :: "memory_live \<Rightarrow> memory_store \<Rightarrow> memory_live \<times> memory_store" where
  "memoryLive_Discard l s =
     (l\<lparr>ml_closed := True\<rparr>, s\<lparr>ms_threads := fmdrop (ml_threadID l) (ms_threads s)\<rparr>)"

definition MemoryStore_DiscardThread ::
  "go_ctx \<Rightarrow> string \<Rightarrow> memory_store \<Rightarrow> (thread_error, unit) result \<times> memory_store" where
  "MemoryStore_DiscardThread ctx tid s =
     (case ctx of Some err \<Rightarrow> (Inl (CtxErr err), s)
      | None \<Rightarrow> (Inr (), s\<lparr>ms_threads := fmdrop tid (ms_threads s)\<rparr>))"


section \<open>Stamping and appending\<close>

definition push_event :: "gen \<Rightarrow> string \<Rightarrow> memory_thread \<Rightarrow> event \<Rightarrow> memory_thread" where
  "push_event g b t e =
     t\<lparr>mt_nextSeq := mt_nextSeq t + 1, mt_events := mt_events t @ [stamp_event g b t e],
       mt_updatedAt := ev_At (stamp_event g b t e)\<rparr>"

lemma fmupd_same [simp]: "fmupd k v (fmupd k w m) = fmupd k v m"
  by (rule fmap_ext) simp

lemma appendLocked_foldl: "appendLocked g b t es = foldl (push_event g b) t es"
  by (induction es arbitrary: t) (simp_all add: push_event_def Let_def)

lemma push_event_sel [simp]:
  "mt_id (push_event g b t e) = mt_id t"
  "mt_branchID (push_event g b t e) = mt_branchID t"
  "mt_branches (push_event g b t e) = mt_branches t"
  "mt_metadata (push_event g b t e) = mt_metadata t"
  "mt_archived (push_event g b t e) = mt_archived t"
  "mt_createdAt (push_event g b t e) = mt_createdAt t"
  "mt_nextSeq (push_event g b t e) = mt_nextSeq t + 1"
  "mt_events (push_event g b t e) = mt_events t @ [stamp_event g b t e]"
  by (simp_all add: push_event_def)

lemma stamp_event_sel [simp]:
  "ev_ThreadID (stamp_event g b t e) = mt_id t"
  "ev_Seq (stamp_event g b t e) = mt_nextSeq t"
  "ev_Kind (stamp_event g b t e) = ev_Kind e"
  "ev_Payload (stamp_event g b t e) = ev_Payload e"
  "ev_BranchID (stamp_event g b t e) =
     (if ev_BranchID e \<noteq> [] then ev_BranchID e else if b \<noteq> [] then b else mt_branchID t)"
  "ev_SchemaVersion (stamp_event g b t e) =
     (if ev_SchemaVersion e = 0 then CurrentEventSchemaVersion else ev_SchemaVersion e)"
  "ev_At (stamp_event g b t e) = (if ev_At e = zero_time then g_now g else ev_At e)"
  by (simp_all add: stamp_event_def Let_def)

text \<open>Induction over a batch: what one append keeps, the whole batch keeps.\<close>

lemma appendLocked_induct [consumes 1, case_names step]:
  assumes "P t" and "\<And>t e. e \<in> set es \<Longrightarrow> P t \<Longrightarrow> P (push_event g b t e)"
  shows "P (appendLocked g b t es)"
  using assms unfolding appendLocked_foldl
  by (induction es arbitrary: t) auto

lemma appendLocked_sel [simp]:
  "mt_id (appendLocked g b t es) = mt_id t"
  "mt_branchID (appendLocked g b t es) = mt_branchID t"
  "mt_branches (appendLocked g b t es) = mt_branches t"
  "mt_metadata (appendLocked g b t es) = mt_metadata t"
  "mt_archived (appendLocked g b t es) = mt_archived t"
  "mt_createdAt (appendLocked g b t es) = mt_createdAt t"
  "mt_nextSeq (appendLocked g b t es) = mt_nextSeq t + int (length es)"
  by (induction es arbitrary: t) (simp_all add: Let_def)

text \<open>The events a batch adds, and their sequence numbers.\<close>

definition new_events :: "memory_thread \<Rightarrow> memory_thread \<Rightarrow> event list" where
  "new_events t t' = drop (length (mt_events t)) (mt_events t')"

lemma appendLocked_events:
  "\<exists>new. mt_events (appendLocked g b t es) = mt_events t @ new \<and>
     list_all2 (\<lambda>e n. ev_Kind n = ev_Kind e \<and> ev_Payload n = ev_Payload e \<and>
       (ev_BranchID e \<noteq> [] \<longrightarrow> ev_BranchID n = ev_BranchID e)) es new \<and>
     map ev_Seq new = [mt_nextSeq t .. mt_nextSeq t + int (length es) - 1]"
proof (induction es arbitrary: t)
  case (Cons e es)
  let ?n = "stamp_event g b t e"
  obtain new where new: "mt_events (appendLocked g b (push_event g b t e) es) = mt_events t @ ?n # new"
    "list_all2 (\<lambda>e n. ev_Kind n = ev_Kind e \<and> ev_Payload n = ev_Payload e \<and>
       (ev_BranchID e \<noteq> [] \<longrightarrow> ev_BranchID n = ev_BranchID e)) es new"
    "map ev_Seq new = [mt_nextSeq t + 1 .. mt_nextSeq t + 1 + int (length es) - 1]"
    using Cons.IH [of "push_event g b t e"] by auto
  show ?case
    by (rule exI [of _ "?n # new"]) (use new in \<open>simp add: appendLocked_foldl upto_rec1 add.assoc\<close>)
qed simp

section \<open>The invariant\<close>

text \<open>
  A thread's log is gap-free (its sequence numbers are 1, 2, \<dots>, \<^verbatim>\<open>nextSeq\<close> - 1), its branch map is
  well formed and every fork point precedes the last logged event.
\<close>

definition log_seqs :: "memory_thread \<Rightarrow> bool" where
  "log_seqs t \<longleftrightarrow> 2 \<le> mt_nextSeq t \<and> map ev_Seq (mt_events t) = [1 .. mt_nextSeq t - 1]"

definition event_ok :: "memory_thread \<Rightarrow> event \<Rightarrow> bool" where
  "event_ok t e \<longleftrightarrow> ev_ThreadID e = mt_id t \<and> ev_BranchID e \<noteq> [] \<and> ev_Kind e \<noteq> [] \<and> ev_SchemaVersion e \<noteq> 0"

definition thread_inv :: "memory_thread \<Rightarrow> bool" where
  "thread_inv t \<longleftrightarrow>
     mt_id t \<noteq> [] \<and> fmlookup (mt_branches t) (mt_branchID t) \<noteq> None \<and> branches_wf (mt_branches t) \<and>
     (\<forall>b br. fmlookup (mt_branches t) b = Some br \<longrightarrow> br_ForkSeq br < mt_nextSeq t - 1) \<and>
     log_seqs t \<and> (\<forall>e \<in> set (mt_events t). event_ok t e)"

definition store_inv :: "memory_store \<Rightarrow> bool" where
  "store_inv s \<longleftrightarrow> (\<forall>tid t. fmlookup (ms_threads s) tid = Some t \<longrightarrow> mt_id t = tid \<and> thread_inv t)"

lemma store_invD: "store_inv s \<Longrightarrow> fmlookup (ms_threads s) tid = Some t \<Longrightarrow> mt_id t = tid \<and> thread_inv t"
  by (simp add: store_inv_def)

lemma store_inv_put: "store_inv s \<Longrightarrow> thread_inv t \<Longrightarrow> store_inv (put_thread (mt_id t) t s)"
  by (simp add: store_inv_def put_thread_def)

lemma store_inv_drop: "store_inv s \<Longrightarrow> store_inv (s\<lparr>ms_threads := fmdrop tid (ms_threads s)\<rparr>)"
  by (auto simp: store_inv_def)

lemma thread_inv_branchID: "thread_inv t \<Longrightarrow> mt_branchID t \<noteq> []"
  by (auto simp: thread_inv_def branches_wf_def)

lemma log_seqs_push:
  "2 \<le> n \<Longrightarrow> xs = [1 .. n - 1] \<Longrightarrow> xs @ [n] = [1 .. (n::int)]"
  by (simp add: upto_rec2)

lemma push_event_inv:
  assumes "thread_inv t" "ev_Kind e \<noteq> []"
  shows "thread_inv (push_event g b t e)"
proof -
  have "event_ok (push_event g b t e) (stamp_event g b t e)"
    using assms thread_inv_branchID [OF assms(1)]
    by (simp add: event_ok_def CurrentEventSchemaVersion_def)
  moreover have "log_seqs (push_event g b t e)"
    using assms(1) log_seqs_push by (auto simp: thread_inv_def log_seqs_def)
  ultimately show ?thesis
    using assms(1) unfolding thread_inv_def by (fastforce simp: event_ok_def)
qed

lemma appendLocked_inv:
  "thread_inv t \<Longrightarrow> \<forall>e \<in> set es. ev_Kind e \<noteq> [] \<Longrightarrow> thread_inv (appendLocked g b t es)"
  by (rule appendLocked_induct [where P = thread_inv]) (auto intro: push_event_inv)

lemma new_thread_inv:
  assumes "tid \<noteq> []" "branchID \<noteq> []"
  shows "thread_inv ((new_thread p tid branchID now)\<lparr>mt_events := [created_event g p tid branchID now],
    mt_nextSeq := 2\<rparr>)"
  using assms
  by (auto simp: thread_inv_def new_thread_def created_event_def event_ok_def log_seqs_def no_event_def
      CurrentEventSchemaVersion_def branches_wf_def)

text \<open>Adding the branch of a fork together with its event.\<close>

lemma branches_wf_fork:
  assumes "branches_wf bs" "fmlookup bs from = Some fb" "fmlookup bs to = None" "to \<noteq> []"
    "br_ForkSeq fb < n"
  shows "branches_wf (fmupd to \<lparr>br_ID = to, br_Parent = from, br_ForkSeq = n, br_CreatedAt = c\<rparr> bs)"
proof -
  have "0 \<le> n" using branches_wfD(2) [OF assms(1,2)] assms(5) by simp
  moreover have "from \<noteq> to" using assms(2,3) by auto
  moreover have "\<exists>pb. (if to = br_Parent br then Some x else fmlookup bs (br_Parent br)) = Some pb \<and>
      br_ForkSeq pb < br_ForkSeq br"
    if "fmlookup bs b = Some br" "br_Parent br \<noteq> []" for b br x
    using branches_wfD(4) [OF assms(1) that] assms(3) by auto
  ultimately show ?thesis
    using assms unfolding branches_wf_def by auto
qed

lemma fork_inv:
  assumes "thread_inv t" "fmlookup (mt_branches t) from = Some fb" "fmlookup (mt_branches t) to = None"
    "to \<noteq> []" "ev_Kind e \<noteq> []"
  shows "thread_inv (push_event g to (t\<lparr>mt_branches := fmupd to
      \<lparr>br_ID = to, br_Parent = from, br_ForkSeq = mt_nextSeq t - 1, br_CreatedAt = c\<rparr> (mt_branches t)\<rparr>) e)"
    (is "thread_inv ?t'")
proof -
  have "thread_inv (push_event g to t e)" by (rule push_event_inv [OF assms(1,5)])
  moreover have "branches_wf (mt_branches ?t')"
    using assms by (simp add: branches_wf_fork thread_inv_def)
  moreover have "stamp_event g to (t\<lparr>mt_branches := x\<rparr>) e = stamp_event g to t e" for x
    by (simp add: stamp_event_def Let_def)
  ultimately show ?thesis
    using assms unfolding thread_inv_def log_seqs_def event_ok_def by auto
qed


section \<open>Every operation keeps the invariant\<close>

lemma live_batch_kinds: "live_batch s l es = Inr batch \<Longrightarrow> \<forall>e \<in> set batch. ev_Kind e \<noteq> []"
  by (induction es arbitrary: batch)
    (auto simp: rbind_Inr_iff live_event_def Let_def split: if_splits sum.splits)

lemma Create_inv:
  assumes "store_inv s" "MemoryStore_Create ctx g p s = (r, s')" "g_ID g \<noteq> []"
  shows "store_inv s'"
proof (cases r)
  case (Inl e)
  with assms show ?thesis
    by (auto simp: MemoryStore_Create_def Let_def split: option.splits if_splits sum.splits)
next
  case (Inr l)
  define tid where "tid = (if cp_ID p = [] then g_ID g else cp_ID p)"
  define bid where "bid = (if cp_BranchID p = [] then MainBranch else cp_BranchID p)"
  define now where "now = (if cp_Now p = zero_time then g_now g else cp_Now p)"
  define t where "t = (new_thread p tid bid now)\<lparr>mt_events := [created_event g p tid bid now], mt_nextSeq := 2\<rparr>"
  have "tid \<noteq> []" "bid \<noteq> []" using assms(3) by (auto simp: tid_def bid_def)
  then have "thread_inv t" unfolding t_def by (rule new_thread_inv)
  moreover have "s' = put_thread (mt_id t) t s"
    using assms(2) Inr unfolding MemoryStore_Create_def tid_def bid_def now_def t_def
    by (auto simp: Let_def new_thread_def split: option.splits if_splits sum.splits)
  ultimately show ?thesis using assms(1) store_inv_put by simp
qed

text \<open>A fork that succeeds, taken apart.\<close>

lemma Fork_success:
  assumes "MemoryStore_Fork ctx g p s = (Inr l, s')"
  obtains t "from" to fb where
    "ctx = None" "fmlookup (ms_threads s) (fp_ID p) = Some t"
    "fmlookup (mt_branches t) from = Some fb" "fmlookup (mt_branches t) to = None"
    "from = (if fp_FromBranchID p \<noteq> [] then fp_FromBranchID p
             else if mt_branchID t \<noteq> [] then mt_branchID t else MainBranch)"
    "to = (if fp_ToBranchID p = [] then g_BranchID g else fp_ToBranchID p)"
    "l = \<lparr>ml_threadID = mt_id t, ml_branchID = to, ml_source = fp_Source p, ml_closed = False\<rparr>"
    "validateEvent s (fork_event p from to (mt_nextSeq t - 1) (g_now g)) = Inr ()"
    "s' = put_thread (fp_ID p) (push_event g to (t\<lparr>mt_branches := fmupd to
      \<lparr>br_ID = to, br_Parent = from, br_ForkSeq = mt_nextSeq t - 1, br_CreatedAt = g_now g\<rparr>
      (mt_branches t)\<rparr>) (fork_event p from to (mt_nextSeq t - 1) (g_now g))) s"
  using assms unfolding MemoryStore_Fork_def
  by (auto simp: Let_def appendLocked_foldl simp del: appendLocked.simps
      split: option.splits if_splits sum.splits)

lemma fork_event_kind [simp]: "ev_Kind (fork_event p from to n now) = EventBranchCreated"
  by (simp add: fork_event_def)

lemma Fork_inv:
  assumes "store_inv s" "MemoryStore_Fork ctx g p s = (Inr l, s')" "g_BranchID g \<noteq> []"
  shows "store_inv s'"
  using assms(2)
proof (rule Fork_success)
  fix t "from" to fb
  assume t: "fmlookup (ms_threads s) (fp_ID p) = Some t"
    and b: "fmlookup (mt_branches t) from = Some fb" "fmlookup (mt_branches t) to = None"
    and to: "to = (if fp_ToBranchID p = [] then g_BranchID g else fp_ToBranchID p)"
    and s': "s' = put_thread (fp_ID p) (push_event g to (t\<lparr>mt_branches := fmupd to
      \<lparr>br_ID = to, br_Parent = from, br_ForkSeq = mt_nextSeq t - 1, br_CreatedAt = g_now g\<rparr>
      (mt_branches t)\<rparr>) (fork_event p from to (mt_nextSeq t - 1) (g_now g))) s"
      (is "s' = put_thread _ ?t' s")
  have ti: "mt_id t = fp_ID p" "thread_inv t" using store_invD [OF assms(1) t] by auto
  have "thread_inv ?t'"
    by (rule fork_inv [OF ti(2) b]) (use to assms(3) in auto)
  from store_inv_put [OF assms(1) this] show "store_inv s'"
    using s' ti(1) by simp
qed

lemma setArchived_inv:
  assumes "store_inv s" "setArchived ctx g tid a kind s = (r, s')" "kind \<noteq> []"
  shows "store_inv s'"
proof (cases "ctx = None \<and> fmlookup (ms_threads s) tid \<noteq> None")
  case True
  then obtain t where t: "ctx = None" "fmlookup (ms_threads s) tid = Some t" by auto
  then have ti: "mt_id t = tid" "thread_inv (t\<lparr>mt_archived := a\<rparr>)"
    using store_invD [OF assms(1) t(2)] by (auto simp: thread_inv_def log_seqs_def event_ok_def)
  then have "thread_inv (appendLocked g (mt_branchID t) (t\<lparr>mt_archived := a\<rparr>) [no_event\<lparr>ev_Kind := kind\<rparr>])"
    by (intro appendLocked_inv) (simp_all add: assms(3))
  from store_inv_put [OF assms(1) ti(2)] store_inv_put [OF assms(1) this] show ?thesis
    using assms(2) t ti(1) by (auto simp: setArchived_def Let_def split: sum.splits)
next
  case False
  then show ?thesis using assms by (auto simp: setArchived_def split: option.splits)
qed

lemma Append_success:
  assumes "memoryLive_Append ctx g l es s = (Inr (), s')" "es \<noteq> []"
  obtains t batch where "ctx = None" "\<not> ml_closed l" "fmlookup (ms_threads s) (ml_threadID l) = Some t"
    "live_batch s l es = Inr batch"
    "s' = put_thread (ml_threadID l) (appendLocked g (ml_branchID l) t batch) s"
  using assms unfolding memoryLive_Append_def by (auto split: option.splits if_splits sum.splits)

lemma Append_inv:
  assumes "store_inv s" "memoryLive_Append ctx g l es s = (r, s')"
  shows "store_inv s'"
proof (cases "isl r \<or> es = []")
  case True
  then show ?thesis using assms
    by (auto simp: memoryLive_Append_def split: option.splits if_splits sum.splits)
next
  case False
  then have "memoryLive_Append ctx g l es s = (Inr (), s')" using assms(2) by (cases r) auto
  then obtain t batch where t: "fmlookup (ms_threads s) (ml_threadID l) = Some t"
    and b: "live_batch s l es = Inr batch"
    and s': "s' = put_thread (ml_threadID l) (appendLocked g (ml_branchID l) t batch) s"
    using False by (rule_tac Append_success) auto
  have ti: "mt_id t = ml_threadID l" "thread_inv t" using store_invD [OF assms(1) t] by auto
  have "thread_inv (appendLocked g (ml_branchID l) t batch)"
    by (rule appendLocked_inv [OF ti(2) live_batch_kinds [OF b]])
  from store_inv_put [OF assms(1) this] show ?thesis using s' ti(1) by simp
qed

text \<open>
  The store driven by any sequence of calls, each with its own identifiers and clock. A call that
  fails is a step too; \<^verbatim>\<open>Fork\<close> is the one whose failure may leave a partial change (see below), so
  its failing steps are those the registry did not cause.
\<close>

definition gen_ok :: "gen \<Rightarrow> bool" where
  "gen_ok g \<longleftrightarrow> g_ID g \<noteq> [] \<and> g_BranchID g \<noteq> []"

inductive store_step :: "memory_store \<Rightarrow> memory_store \<Rightarrow> bool" where
  create: "gen_ok g \<Longrightarrow> MemoryStore_Create ctx g p s = (r, s') \<Longrightarrow> store_step s s'"
| fork: "gen_ok g \<Longrightarrow> MemoryStore_Fork ctx g fp s = (Inr l, s') \<Longrightarrow> store_step s s'"
| archive: "MemoryStore_Archive ctx g tid s = (r', s') \<Longrightarrow> store_step s s'"
| unarchive: "MemoryStore_Unarchive ctx g tid s = (r', s') \<Longrightarrow> store_step s s'"
| append: "memoryLive_Append ctx g l es s = (r', s') \<Longrightarrow> store_step s s'"
| discard: "memoryLive_Discard l s = (l', s') \<Longrightarrow> store_step s s'"
| discard_thread: "MemoryStore_DiscardThread ctx tid s = (r', s') \<Longrightarrow> store_step s s'"

lemma store_step_inv: "store_step s s' \<Longrightarrow> store_inv s \<Longrightarrow> store_inv s'"
proof (induction rule: store_step.induct)
  case create
  then show ?case using Create_inv gen_ok_def by blast
next
  case fork
  then show ?case using Fork_inv gen_ok_def by blast
next
  case archive
  then show ?case unfolding MemoryStore_Archive_def by (rule_tac setArchived_inv) auto
next
  case unarchive
  then show ?case unfolding MemoryStore_Unarchive_def by (rule_tac setArchived_inv) auto
next
  case append
  then show ?case using Append_inv by blast
next
  case discard
  then show ?case using store_inv_drop by (auto simp: memoryLive_Discard_def)
next
  case discard_thread
  then show ?case using store_inv_drop
    by (auto simp: MemoryStore_DiscardThread_def split: option.splits)
qed

lemma NewMemoryStore_inv: "store_inv (NewMemoryStore r)"
  by (simp add: store_inv_def NewMemoryStore_def)


section \<open>Branch views\<close>

lemma chain_sees_branch: "chain_sees cs lim ev \<Longrightarrow> ev_BranchID ev \<in> br_ID ` set cs"
  by (induction cs arbitrary: lim) (auto split: if_splits)

text \<open>Beyond a positive bound nothing of an ancestor is visible.\<close>

lemma chain_sees_beyond:
  assumes "branches_wf bs" "chain_ok bs b cs" "0 < lim" "lim < ev_Seq ev"
    "\<forall>c \<in> set cs. br_ForkSeq c < ev_Seq ev"
  shows "\<not> chain_sees cs lim ev"
  using assms(2-)
proof (induction cs arbitrary: b lim)
  case (Cons c cs)
  have c: "fmlookup bs b = Some c" and rest: "chain_ok bs (br_Parent c) cs" using Cons.prems by auto
  show ?case
  proof (cases cs)
    case Nil
    then show ?thesis using Cons.prems by auto
  next
    case (Cons d ds)
    with rest have d: "br_Parent c \<noteq> []" "fmlookup bs (br_Parent c) = Some d" by auto
    with branches_wfD(4) [OF assms(1) c] branches_wfD(2) [OF assms(1) d(2)]
    have "0 < br_ForkSeq c" by auto
    with Cons.IH [OF rest] Cons.prems show ?thesis by auto
  qed
qed simp

lemma chain_sees_new:
  assumes "branches_wf bs" "chain_ok bs b (c # cs)" "\<forall>d \<in> set (c # cs). br_ForkSeq d < ev_Seq ev"
  shows "chain_sees (c # cs) 0 ev \<longleftrightarrow> ev_BranchID ev = b"
proof -
  have c: "fmlookup bs b = Some c" "br_ID c = b" "chain_ok bs (br_Parent c) cs"
    using assms(2) branches_wfD(1) [OF assms(1)] by auto
  have "\<not> chain_sees cs (br_ForkSeq c) ev"
  proof (cases cs)
    case (Cons d ds)
    with c(3) have d: "br_Parent c \<noteq> []" "fmlookup bs (br_Parent c) = Some d" by auto
    with branches_wfD(4) [OF assms(1) c(1)] branches_wfD(2) [OF assms(1) d(2)]
    have "0 < br_ForkSeq c" by auto
    then show ?thesis using chain_sees_beyond [OF assms(1) c(3)] assms(3) by auto
  qed simp
  then show ?thesis using c(2) assms(3) by auto
qed

lemma chain_ForkSeq_less:
  assumes "thread_inv t" "chain_ok (mt_branches t) b cs" "c \<in> set cs"
  shows "br_ForkSeq c < mt_nextSeq t - 1"
  using assms chain_ok_lookup unfolding thread_inv_def by blast

lemma thread_inv_seq_less: "thread_inv t \<Longrightarrow> e \<in> set (mt_events t) \<Longrightarrow> ev_Seq e < mt_nextSeq t"
proof -
  assume a: "thread_inv t" "e \<in> set (mt_events t)"
  then have "ev_Seq e \<in> set (map ev_Seq (mt_events t))" by simp
  with a(1) show ?thesis unfolding thread_inv_def log_seqs_def by auto
qed

lemma snapshot_sel [simp]:
  "st_Branches (snapshot t) = mt_branches t" "st_Events (snapshot t) = mt_events t"
  "st_BranchID (snapshot t) = mt_branchID t" "st_ID (snapshot t) = mt_id t"
  by (simp_all add: snapshot_def)

lemma view_exists:
  assumes "thread_inv t" "fmlookup (mt_branches t) b = Some br"
  obtains cs where "chain_ok (mt_branches t) b (br # cs)"
    "EventsForBranch (snapshot t) b = Some (Inr (filter (chain_sees (br # cs) 0) (mt_events t)))"
proof -
  have wf: "branches_wf (mt_branches t)" using assms(1) by (simp add: thread_inv_def)
  from chain_exists [OF wf assms(2)] obtain cs where cs: "chain_ok (mt_branches t) b (br # cs)" by blast
  have "EventsForBranch (snapshot t) b = Some (Inr (filter (chain_sees (br # cs) 0) (mt_events t)))"
    using EventsForBranch_chain [of "snapshot t" b "br # cs"] wf cs by simp
  with cs show ?thesis by (rule that)
qed

text \<open>
  Two threads with the same branch map as seen from \<^term>\<open>b\<close>, the second with more events, all
  later than the first one's: the view grows by the new events of that very branch.
\<close>

lemma view_grows:
  assumes t: "thread_inv t" "thread_inv t'" and b: "fmlookup (mt_branches t) b = Some br"
    and mono: "\<And>k v. fmlookup (mt_branches t) k = Some v \<Longrightarrow> fmlookup (mt_branches t') k = Some v"
    and ev: "mt_events t' = mt_events t @ new" "\<forall>e \<in> set new. mt_nextSeq t \<le> ev_Seq e"
  shows "\<exists>old. EventsForBranch (snapshot t) b = Some (Inr old) \<and>
    EventsForBranch (snapshot t') b = Some (Inr (old @ filter (\<lambda>e. ev_BranchID e = b) new))"
proof -
  obtain cs where cs: "chain_ok (mt_branches t) b (br # cs)"
    "EventsForBranch (snapshot t) b = Some (Inr (filter (chain_sees (br # cs) 0) (mt_events t)))"
    using view_exists [OF t(1) b] .
  have wf: "branches_wf (mt_branches t)" "branches_wf (mt_branches t')"
    using t by (simp_all add: thread_inv_def)
  have ok': "chain_ok (mt_branches t') b (br # cs)"
    by (rule chain_ok_mono [OF cs(1)]) (rule mono)
  have "chain_sees (br # cs) 0 e \<longleftrightarrow> ev_BranchID e = b" if e: "e \<in> set new" for e
  proof (rule chain_sees_new [OF wf(1) cs(1)], rule ballI)
    fix d assume "d \<in> set (br # cs)"
    from chain_ForkSeq_less [OF t(1) cs(1) this] ev(2) e show "br_ForkSeq d < ev_Seq e" by fastforce
  qed
  then have "filter (chain_sees (br # cs) 0) new = filter (\<lambda>e. ev_BranchID e = b) new"
    by (rule filter_cong [OF refl])
  then have "EventsForBranch (snapshot t') b = Some (Inr (filter (chain_sees (br # cs) 0) (mt_events t) @
      filter (\<lambda>e. ev_BranchID e = b) new))"
    using EventsForBranch_chain [of "snapshot t'" b "br # cs"] wf(2) ok' ev(1) by simp
  with cs(2) show ?thesis by blast
qed

text \<open>The view of a fresh fork: everything its parent showed at the fork point.\<close>

lemma fork_view:
  assumes t: "thread_inv t" "thread_inv t'" and b: "fmlookup (mt_branches t) from = Some fb"
    "fmlookup (mt_branches t) to = None" "to \<noteq> []"
    and t': "mt_branches t' = fmupd to nb (mt_branches t)" "br_Parent nb = from"
      "br_ForkSeq nb = mt_nextSeq t - 1"
    and ev: "mt_events t' = mt_events t @ [e]" "ev_Seq e = mt_nextSeq t" "ev_BranchID e = to"
  shows "\<exists>old. EventsForBranch (snapshot t) from = Some (Inr old) \<and>
    EventsForBranch (snapshot t') to = Some (Inr (old @ [e])) \<and> (\<forall>x \<in> set old. ev_BranchID x \<noteq> to)"
proof -
  obtain cs where cs: "chain_ok (mt_branches t) from (fb # cs)"
    "EventsForBranch (snapshot t) from = Some (Inr (filter (chain_sees (fb # cs) 0) (mt_events t)))"
    using view_exists [OF t(1) b(1)] .
  have wf: "branches_wf (mt_branches t)" "branches_wf (mt_branches t')"
    using t by (simp_all add: thread_inv_def)
  have nb: "br_ID nb = to" using branches_wfD(1) [OF wf(2), of to nb] t'(1) by simp
  have "chain_ok (mt_branches t') from (fb # cs)"
    by (rule chain_ok_mono [OF cs(1)]) (use t'(1) b(2) in auto)
  then have ok': "chain_ok (mt_branches t') to (nb # fb # cs)"
    using t'(1,2) b(3) by simp
  have "br_ID c \<noteq> to" if c: "c \<in> set (fb # cs)" for c
    using chain_ok_lookup [OF cs(1) c] b(2) branches_wfD(1) [OF wf(1)] by (metis option.distinct(1))
  then have notto: "\<not> chain_sees (fb # cs) lim x" if "ev_BranchID x = to" for lim x
    using that chain_sees_branch [of "fb # cs" lim x] by (metis imageE)
  have lim: "chain_sees ds (mt_nextSeq t - 1) x = chain_sees ds 0 x"
    if "ev_Seq x < mt_nextSeq t" for ds x
    using that by (cases ds) auto
  have "chain_sees (nb # fb # cs) 0 x = chain_sees (fb # cs) 0 x" if x: "x \<in> set (mt_events t)" for x
  proof -
    have "ev_Seq x < mt_nextSeq t" by (rule thread_inv_seq_less [OF t(1) x])
    then show ?thesis
      using lim [of x "fb # cs"] notto [of x 0] nb t'(3)
      by (subst chain_sees.simps(2)) (simp del: chain_sees.simps(2))
  qed
  then have "filter (chain_sees (nb # fb # cs) 0) (mt_events t) = filter (chain_sees (fb # cs) 0) (mt_events t)"
    by (rule filter_cong [OF refl])
  moreover have "chain_sees (nb # fb # cs) 0 e" using nb ev(2,3) t'(3) by simp
  ultimately have "EventsForBranch (snapshot t') to =
      Some (Inr (filter (chain_sees (fb # cs) 0) (mt_events t) @ [e]))"
    using EventsForBranch_chain [of "snapshot t'" to "nb # fb # cs"] wf(2) ok' ev(1)
    by (simp del: chain_sees.simps(2))
  with cs(2) notto show ?thesis by fastforce
qed


section \<open>Properties of the store\<close>

lemma live_event_sel [simp]:
  "ev_Kind (live_event l e) = ev_Kind e" "ev_Payload (live_event l e) = ev_Payload e"
  "ev_BranchID (live_event l e) = (if ev_BranchID e = [] then ml_branchID l else ev_BranchID e)"
  "ev_SchemaVersion (live_event l e) = ev_SchemaVersion e"
  by (simp_all add: live_event_def Let_def)

lemma live_batch_map: "live_batch s l es = Inr batch \<Longrightarrow> batch = map (live_event l) es"
  by (induction es arbitrary: batch) (auto simp: rbind_Inr_iff split: if_splits sum.splits)

lemma live_batch_valid: "live_batch s l es = Inr batch \<Longrightarrow> \<forall>e \<in> set es. validateEvent s e = Inr ()"
  by (induction es arbitrary: batch) (auto simp: rbind_Inr_iff split: if_splits sum.splits)


definition demo_gen :: gen where
  "demo_gen = \<lparr>g_ID = ''t1'', g_BranchID = ''b1'', g_EventID = (\<lambda>n. ''e''), g_now = 5\<rparr>"

definition demo_create :: create_params where
  "demo_create = \<lparr>cp_ID = [], cp_BranchID = [], cp_Metadata = [], cp_Source = no_source, cp_Now = 0\<rparr>"

definition demo_store :: memory_store where
  "demo_store = snd (MemoryStore_Create None demo_gen demo_create (NewMemoryStore None))"

definition demo_fork :: fork_params where
  "demo_fork = \<lparr>fp_ID = ''t1'', fp_FromBranchID = [], fp_ToBranchID = [], fp_Source = no_source\<rparr>"

definition demo_live :: memory_live where
  "demo_live = \<lparr>ml_threadID = ''t1'', ml_branchID = ''main'', ml_source = no_source, ml_closed = False\<rparr>"

definition demo_event :: event where
  "demo_event = no_event\<lparr>ev_Kind := ''k''\<rparr>"

lemmas demo_defs = demo_gen_def demo_create_def demo_fork_def demo_live_def demo_event_def

lemma demo_gen_ok: "gen_ok demo_gen"
  by (simp add: gen_ok_def demo_gen_def)

lemma demo_store_step: "store_step (NewMemoryStore None) demo_store"
  unfolding demo_store_def by (rule store_step.create [OF demo_gen_ok]) (rule surjective_pairing)

lemma demo_store_inv: "store_inv demo_store"
  by (rule store_step_inv [OF demo_store_step NewMemoryStore_inv])

definition demo_thread :: memory_thread where
  "demo_thread = (new_thread demo_create ''t1'' ''main'' 5)
     \<lparr>mt_events := [created_event demo_gen demo_create ''t1'' ''main'' 5], mt_nextSeq := 2\<rparr>"

lemma demo_store_eq: "demo_store = put_thread ''t1'' demo_thread (NewMemoryStore None)"
  by (simp add: demo_store_def MemoryStore_Create_def NewMemoryStore_def Let_def demo_gen_def
      demo_create_def MainBranch_def validateEvent_def demo_thread_def new_thread_def put_thread_def)

lemma demo_lookup: "fmlookup (ms_threads demo_store) ''t1'' = Some demo_thread"
  by (simp add: demo_store_eq put_thread_def)

lemma demo_main: "fmlookup (mt_branches demo_thread) ''main'' =
    Some \<lparr>br_ID = ''main'', br_Parent = [], br_ForkSeq = 0, br_CreatedAt = 5\<rparr>"
  by (simp add: demo_thread_def new_thread_def)


lemma append_view:
  assumes "store_inv s" "memoryLive_Append ctx g l es s = (Inr (), s')" "ml_branchID l \<noteq> []"
    "fmlookup (ms_threads s) (ml_threadID l) = Some t" "fmlookup (mt_branches t) b = Some br"
  shows "\<exists>t' new old. fmlookup (ms_threads s') (ml_threadID l) = Some t' \<and>
    mt_events t' = mt_events t @ new \<and>
    map (\<lambda>e. (ev_Kind e, ev_BranchID e, ev_Payload e)) new =
      map (\<lambda>e. (ev_Kind e, if ev_BranchID e = [] then ml_branchID l else ev_BranchID e, ev_Payload e)) es \<and>
    EventsForBranch (snapshot t) b = Some (Inr old) \<and>
    EventsForBranch (snapshot t') b = Some (Inr (old @ filter (\<lambda>e. ev_BranchID e = b) new))"
proof (cases "es = []")
  case True
  then have "s' = s" using assms(2) by (simp add: memoryLive_Append_def split: option.splits)
  have "thread_inv t" using store_invD [OF assms(1,4)] by simp
  from view_exists [OF this assms(5)] show ?thesis using True \<open>s' = s\<close> assms(4) by fastforce
next
  case False
  obtain batch where batch: "live_batch s l es = Inr batch"
    and s': "s' = put_thread (ml_threadID l) (appendLocked g (ml_branchID l) t batch) s"
    using Append_success [OF assms(2) False] assms(4) by (metis option.inject)
  let ?t' = "appendLocked g (ml_branchID l) t batch"
  have t: "thread_inv t" using store_invD [OF assms(1,4)] by simp
  have t': "thread_inv ?t'" by (rule appendLocked_inv [OF t live_batch_kinds [OF batch]])
  obtain new where new: "mt_events ?t' = mt_events t @ new"
    "list_all2 (\<lambda>e n. ev_Kind n = ev_Kind e \<and> ev_Payload n = ev_Payload e \<and>
       (ev_BranchID e \<noteq> [] \<longrightarrow> ev_BranchID n = ev_BranchID e)) batch new"
    "map ev_Seq new = [mt_nextSeq t .. mt_nextSeq t + int (length batch) - 1]"
    using appendLocked_events by blast
  have "ev_Seq e \<in> set [mt_nextSeq t .. mt_nextSeq t + int (length batch) - 1]" if "e \<in> set new" for e
    using that by (simp only: new(3) [symmetric] set_map imageI)
  then have "\<forall>e \<in> set new. mt_nextSeq t \<le> ev_Seq e" by auto
  from view_grows [OF t t' assms(5) _ new(1) this]
  obtain old where "EventsForBranch (snapshot t) b = Some (Inr old)"
    "EventsForBranch (snapshot ?t') b = Some (Inr (old @ filter (\<lambda>e. ev_BranchID e = b) new))"
    by auto
  moreover have "map (\<lambda>e. (ev_Kind e, ev_BranchID e, ev_Payload e)) new =
      map (\<lambda>e. (ev_Kind e, if ev_BranchID e = [] then ml_branchID l else ev_BranchID e, ev_Payload e)) es"
    using new(2) assms(3) unfolding live_batch_map [OF batch]
    by (intro nth_equalityI) (auto simp: list_all2_conv_all_nth)
  ultimately show ?thesis using new(1) s' by (auto simp: put_thread_def)
qed

lemma append_own_branch:
  assumes "store_inv s" "memoryLive_Append ctx g l es s = (Inr (), s')" "ml_branchID l \<noteq> []"
    "fmlookup (ms_threads s) (ml_threadID l) = Some t" "fmlookup (mt_branches t) (ml_branchID l) = Some br"
    and own: "\<forall>e \<in> set es. ev_BranchID e = []"
  obtains t' new old where "fmlookup (ms_threads s') (ml_threadID l) = Some t'"
    "EventsForBranch (snapshot t) (ml_branchID l) = Some (Inr old)"
    "EventsForBranch (snapshot t') (ml_branchID l) = Some (Inr (old @ new))"
    "map (\<lambda>e. (ev_Kind e, ev_Payload e)) new = map (\<lambda>e. (ev_Kind e, ev_Payload e)) es"
proof -
  from append_view [OF assms(1-5)] obtain t' new old where n: "fmlookup (ms_threads s') (ml_threadID l) = Some t'"
    "map (\<lambda>e. (ev_Kind e, ev_BranchID e, ev_Payload e)) new =
      map (\<lambda>e. (ev_Kind e, if ev_BranchID e = [] then ml_branchID l else ev_BranchID e, ev_Payload e)) es"
    "EventsForBranch (snapshot t) (ml_branchID l) = Some (Inr old)"
    "EventsForBranch (snapshot t') (ml_branchID l) = Some (Inr (old @ filter (\<lambda>e. ev_BranchID e = ml_branchID l) new))" by blast
  have "map ev_BranchID new = map (\<lambda>e. if ev_BranchID e = [] then ml_branchID l else ev_BranchID e) es"
    using arg_cong [OF n(2), of "map (fst \<circ> snd)"] by (simp add: comp_def)
  also have "\<dots> = map (\<lambda>_. ml_branchID l) es" using own by simp
  finally have "\<forall>e \<in> set new. ev_BranchID e = ml_branchID l"
    by (metis (no_types, lifting) ex_map_conv list.set_map imageI image_iff)
  then have "filter (\<lambda>e. ev_BranchID e = ml_branchID l) new = new" by (simp add: filter_True)
  moreover have "map (\<lambda>e. (ev_Kind e, ev_Payload e)) new = map (\<lambda>e. (ev_Kind e, ev_Payload e)) es"
    using arg_cong [OF n(2), of "map (\<lambda>(k, b, p). (k, p))"] by (simp add: comp_def)
  ultimately show thesis using that n by simp
qed

text \<open>
  C2: a successful append through a live handle adds exactly its events, on the branch each event
  names or else the branch of the handle, and the view of every branch of the thread grows by
  exactly the new events of that branch: neither a child nor a parent nor a sibling sees them.
\<close>

theorem append_isolated:
  assumes "store_inv s" "memoryLive_Append ctx g l es s = (Inr (), s')" "ml_branchID l \<noteq> []"
    "fmlookup (ms_threads s) (ml_threadID l) = Some t" "fmlookup (mt_branches t) b = Some br"
  shows "\<exists>t' new old. fmlookup (ms_threads s') (ml_threadID l) = Some t' \<and>
    mt_events t' = mt_events t @ new \<and>
    map (\<lambda>e. (ev_Kind e, ev_BranchID e, ev_Payload e)) new =
      map (\<lambda>e. (ev_Kind e, if ev_BranchID e = [] then ml_branchID l else ev_BranchID e, ev_Payload e)) es \<and>
    EventsForBranch (snapshot t) b = Some (Inr old) \<and>
    EventsForBranch (snapshot t') b = Some (Inr (old @ filter (\<lambda>e. ev_BranchID e = b) new))"
  using append_view [OF assms] .

theorem append_isolated_witness:
  "\<exists>s' t' new old. memoryLive_Append None demo_gen demo_live [demo_event] demo_store = (Inr (), s') \<and>
    fmlookup (ms_threads s') ''t1'' = Some t' \<and> mt_events t' = mt_events demo_thread @ new \<and>
    map ev_BranchID new = [''main''] \<and> EventsForBranch (snapshot demo_thread) ''main'' = Some (Inr old) \<and>
    EventsForBranch (snapshot t') ''main'' = Some (Inr (old @ filter (\<lambda>e. ev_BranchID e = ''main'') new))"
proof -
  have "\<exists>s'. memoryLive_Append None demo_gen demo_live [demo_event] demo_store = (Inr (), s')"
    using demo_lookup by (simp add: memoryLive_Append_def demo_live_def demo_event_def
        validateEvent_def demo_store_eq put_thread_def NewMemoryStore_def)
  then obtain s' where "memoryLive_Append None demo_gen demo_live [demo_event] demo_store = (Inr (), s')" ..
  with append_isolated [OF demo_store_inv this, of demo_thread "''main''"] demo_lookup demo_main
  show ?thesis by (fastforce simp: demo_live_def demo_event_def no_event_def)
qed


lemma Fork_view:
  assumes "store_inv s" "gen_ok g" "MemoryStore_Fork ctx g p s = (Inr l, s')"
  shows "\<exists>t t' from e old. fmlookup (ms_threads s) (fp_ID p) = Some t \<and> ml_threadID l = fp_ID p \<and>
    from = (if fp_FromBranchID p \<noteq> [] then fp_FromBranchID p else if mt_branchID t \<noteq> [] then mt_branchID t else MainBranch) \<and>
    fmlookup (ms_threads s') (fp_ID p) = Some t' \<and> ev_Kind e = EventBranchCreated \<and>
    EventsForBranch (snapshot t) from = Some (Inr old) \<and>
    EventsForBranch (snapshot t') (ml_branchID l) = Some (Inr (old @ [e])) \<and> (\<forall>x \<in> set old. ev_BranchID x \<noteq> ml_branchID l) \<and>
    (\<forall>b. fmlookup (mt_branches t) b \<noteq> None \<longrightarrow>
       EventsForBranch (snapshot t') b = EventsForBranch (snapshot t) b)"
  using assms(3)
proof (rule Fork_success)
  fix t "from" to fb
  assume t: "fmlookup (ms_threads s) (fp_ID p) = Some t"
    and b: "fmlookup (mt_branches t) from = Some fb" "fmlookup (mt_branches t) to = None"
    and fr: "from = (if fp_FromBranchID p \<noteq> [] then fp_FromBranchID p
             else if mt_branchID t \<noteq> [] then mt_branchID t else MainBranch)"
    and to: "to = (if fp_ToBranchID p = [] then g_BranchID g else fp_ToBranchID p)"
    and l: "l = \<lparr>ml_threadID = mt_id t, ml_branchID = to, ml_source = fp_Source p, ml_closed = False\<rparr>"
    and s': "s' = put_thread (fp_ID p) (push_event g to (t\<lparr>mt_branches := fmupd to
      \<lparr>br_ID = to, br_Parent = from, br_ForkSeq = mt_nextSeq t - 1, br_CreatedAt = g_now g\<rparr>
      (mt_branches t)\<rparr>) (fork_event p from to (mt_nextSeq t - 1) (g_now g))) s"
      (is "s' = put_thread _ ?t' s")
  let ?e = "stamp_event g to (t\<lparr>mt_branches := mt_branches ?t'\<rparr>) (fork_event p from to (mt_nextSeq t - 1) (g_now g))"
  have to0: "to \<noteq> []" using to assms(2) by (auto simp: gen_ok_def)
  have ti: "thread_inv t" using store_invD [OF assms(1) t] by simp
  have ti': "thread_inv ?t'" by (rule fork_inv [OF ti b to0]) simp
  have e: "mt_events ?t' = mt_events t @ [?e]" "ev_Seq ?e = mt_nextSeq t" "ev_BranchID ?e = to"
    using to0 by (simp_all add: fork_event_def no_event_def)
  have mono: "fmlookup (mt_branches ?t') k = Some v" if "fmlookup (mt_branches t) k = Some v" for k v
    using that b(2) by auto
  have "EventsForBranch (snapshot ?t') c = EventsForBranch (snapshot t) c"
    if c: "fmlookup (mt_branches t) c = Some cb" for c cb
  proof -
    have "to \<noteq> c" using b(2) c by auto
    then show ?thesis using view_grows [OF ti ti' c mono e(1)] e(2,3) by (auto simp del: stamp_event_sel)
  qed
  moreover have "\<exists>old. EventsForBranch (snapshot t) from = Some (Inr old) \<and>
      EventsForBranch (snapshot ?t') to = Some (Inr (old @ [?e])) \<and> (\<forall>x \<in> set old. ev_BranchID x \<noteq> to)"
    by (rule fork_view [OF ti ti' b to0 _ _ _ e]) (simp, simp_all)
  moreover have "ev_Kind ?e = EventBranchCreated" by simp
  moreover have "fmlookup (ms_threads s') (fp_ID p) = Some ?t'" using s' by (simp add: put_thread_def)
  moreover have "ml_threadID l = fp_ID p" using l store_invD [OF assms(1) t] by simp
  ultimately show ?thesis using t fr l by fastforce
qed

text \<open>
  C3: a fork is a snapshot. The new branch shows what its parent showed at that moment followed by
  the branch.created event, and no other branch's view changes.
\<close>

theorem fork_snapshot:
  assumes "store_inv s" "gen_ok g" "MemoryStore_Fork ctx g p s = (Inr l, s')" "fp_FromBranchID p \<noteq> []"
  shows "\<exists>t t' e old. fmlookup (ms_threads s) (fp_ID p) = Some t \<and>
    fmlookup (ms_threads s') (fp_ID p) = Some t' \<and> ev_Kind e = EventBranchCreated \<and>
    EventsForBranch (snapshot t) (fp_FromBranchID p) = Some (Inr old) \<and>
    EventsForBranch (snapshot t') (ml_branchID l) = Some (Inr (old @ [e])) \<and>
    (\<forall>b. fmlookup (mt_branches t) b \<noteq> None \<longrightarrow>
       EventsForBranch (snapshot t') b = EventsForBranch (snapshot t) b)"
  using Fork_view [OF assms(1-3)] assms(4) by auto

theorem fork_snapshot_witness:
  "\<exists>l s' t' e old. MemoryStore_Fork None demo_gen (demo_fork\<lparr>fp_FromBranchID := ''main''\<rparr>) demo_store = (Inr l, s') \<and>
    ml_branchID l = ''b1'' \<and> fmlookup (ms_threads s') ''t1'' = Some t' \<and>
    EventsForBranch (snapshot demo_thread) ''main'' = Some (Inr old) \<and>
    EventsForBranch (snapshot t') ''b1'' = Some (Inr (old @ [e]))"
proof -
  have "\<exists>l s'. MemoryStore_Fork None demo_gen (demo_fork\<lparr>fp_FromBranchID := ''main''\<rparr>) demo_store = (Inr l, s') \<and>
      ml_branchID l = ''b1''"
    using demo_lookup
    by (simp add: MemoryStore_Fork_def demo_fork_def demo_gen_def demo_main Let_def validateEvent_def
        demo_store_eq put_thread_def NewMemoryStore_def)
      (simp add: demo_thread_def new_thread_def)
  then obtain l s' where f: "MemoryStore_Fork None demo_gen (demo_fork\<lparr>fp_FromBranchID := ''main''\<rparr>) demo_store = (Inr l, s')"
    "ml_branchID l = ''b1''" by blast
  with fork_snapshot [OF demo_store_inv demo_gen_ok f(1)] demo_lookup show ?thesis
    by (fastforce simp: demo_fork_def)
qed

text \<open>
  C4: reading a branch always returns on a thread of a reachable store: the events of the branch if
  it exists and a not-found error otherwise; the empty name stands for the thread's own branch.
\<close>

theorem EventsForBranch_returns:
  assumes "store_inv s" "MemoryStore_Read ctx tid s = Inr st"
  shows "if fmlookup (st_Branches st) (if b = [] then st_BranchID st else b) = None
    then EventsForBranch st b = Some (Inl (NotFoundBranch b))
    else \<exists>es. EventsForBranch st b = Some (Inr es) \<and> set es \<subseteq> set (st_Events st) \<and>
           sorted_wrt (<) (map ev_Seq es)"
proof -
  obtain t where t: "fmlookup (ms_threads s) tid = Some t" "st = snapshot t"
    using assms(2) by (auto simp: MemoryStore_Read_def split: option.splits)
  have ti: "thread_inv t" using store_invD [OF assms(1) t(1)] by simp
  let ?c = "if b = [] then st_BranchID st else b"
  have c: "?c \<noteq> []" "EventsForBranch st b = EventsForBranch st ?c"
    using thread_inv_branchID [OF ti] t(2) by (auto simp: EventsForBranch_def)
  show ?thesis
  proof (cases "fmlookup (st_Branches st) ?c")
    case None
    moreover have "st_Branches st \<noteq> fmempty" using ti t(2) by (auto simp: thread_inv_def)
    moreover have "?c = b" using None ti t(2) by (auto simp: thread_inv_def)
    ultimately show ?thesis using EventsForBranch_missing [of ?c st] c(1) by simp
  next
    case (Some br)
    then obtain cs where "EventsForBranch st ?c = Some (Inr (filter (chain_sees (br # cs) 0) (mt_events t)))"
      using view_exists [OF ti, of ?c br] t(2) by auto
    moreover have "sorted_wrt (<) (map ev_Seq (mt_events t))"
      using ti by (simp add: thread_inv_def log_seqs_def)
    then have "sorted_wrt (<) (map ev_Seq (filter (chain_sees (br # cs) 0) (mt_events t)))"
      by (simp add: sorted_wrt_map sorted_wrt_filter_same)
    ultimately show ?thesis using Some c(2) t(2) by simp
  qed
qed

theorem EventsForBranch_returns_witness:
  "MemoryStore_Read None ''t1'' demo_store = Inr (snapshot demo_thread) \<and>
   (\<exists>es. EventsForBranch (snapshot demo_thread) [] = Some (Inr es)) \<and>
   EventsForBranch (snapshot demo_thread) ''x'' = Some (Inl (NotFoundBranch ''x''))"
proof -
  have r: "MemoryStore_Read None ''t1'' demo_store = Inr (snapshot demo_thread)"
    by (simp add: MemoryStore_Read_def demo_lookup)
  show ?thesis
    using EventsForBranch_returns [OF demo_store_inv r, of "[]"]
      EventsForBranch_returns [OF demo_store_inv r, of "''x''"] r
    by (auto simp: demo_thread_def new_thread_def)
qed


lemma live_batch_Inr_iff:
  "\<not> isl (live_batch s l es) \<longleftrightarrow> (\<forall>e \<in> set es. ev_Kind e \<noteq> [] \<and> validateEvent s e = Inr ())"
proof (induction es)
  case (Cons e es)
  then show ?case by (cases "live_batch s l es"; cases "validateEvent s e") auto
qed simp

text \<open>
  C5: an append is all or nothing. It succeeds exactly when the context is live and the batch is
  empty or the handle is open, the thread exists and every event has a kind and a valid payload;
  otherwise the store is unchanged.
\<close>

theorem append_all_or_nothing:
  assumes "memoryLive_Append ctx g l es s = (r, s')"
  shows "(\<not> isl r \<longleftrightarrow> ctx = None \<and> (es = [] \<or>
      (\<not> ml_closed l \<and> fmlookup (ms_threads s) (ml_threadID l) \<noteq> None \<and>
       (\<forall>e \<in> set es. ev_Kind e \<noteq> [] \<and> validateEvent s e = Inr ())))) \<and> (isl r \<longrightarrow> s' = s)"
  using assms live_batch_Inr_iff [of s l es]
  by (auto simp: memoryLive_Append_def split: option.splits if_splits sum.splits)

theorem append_all_or_nothing_witness:
  "\<exists>r. memoryLive_Append None demo_gen demo_live [demo_event, no_event] demo_store = (r, demo_store) \<and> isl r"
proof -
  obtain r s' where a: "memoryLive_Append None demo_gen demo_live [demo_event, no_event] demo_store = (r, s')"
    by (rule prod.exhaust)
  from append_all_or_nothing [OF a] have "isl r" "s' = demo_store" by (auto simp: no_event_def)
  with a show ?thesis by blast
qed

text \<open>
  a fork whose branch.created event the registry rejects returns the error and yet leaves the
  new branch in the thread, without any event that records it.
\<close>

lemma fork_rejected_leaves_branch:
  assumes "fmlookup (ms_threads s) (fp_ID p) = Some t" "fp_FromBranchID p \<noteq> []" "fp_ToBranchID p \<noteq> []"
    "fmlookup (mt_branches t) (fp_FromBranchID p) \<noteq> None" "fmlookup (mt_branches t) (fp_ToBranchID p) = None"
    "validateEvent s (fork_event p (fp_FromBranchID p) (fp_ToBranchID p) (mt_nextSeq t - 1) (g_now g)) = Inl err"
  shows "\<exists>s' t'. MemoryStore_Fork None g p s = (Inl err, s') \<and>
    fmlookup (ms_threads s') (fp_ID p) = Some t' \<and>
    fmlookup (mt_branches t') (fp_ToBranchID p) \<noteq> None \<and> mt_events t' = mt_events t"
  using assms by (auto simp: MemoryStore_Fork_def put_thread_def Let_def)

lemma fork_rejected_leaves_branch_example:
  "\<exists>err s' t'. MemoryStore_Fork None demo_gen
       \<lparr>fp_ID = ''t1'', fp_FromBranchID = ''main'', fp_ToBranchID = ''b1'', fp_Source = no_source\<rparr>
       (demo_store\<lparr>ms_registry := Some [EventBranchCreated \<mapsto>
          \<lparr>ed_Kind = EventBranchCreated, ed_PayloadType = Some (\<lambda>j. False), ed_AllowEmptyPayload = False\<rparr>]\<rparr>)
     = (Inl err, s') \<and>
     fmlookup (ms_threads s') ''t1'' = Some t' \<and> fmlookup (mt_branches t') ''b1'' \<noteq> None \<and>
     mt_events t' = mt_events demo_thread"
    (is "\<exists>err s' t'. MemoryStore_Fork None demo_gen ?p ?s = _ \<and> _")
proof -
  have "validateEvent ?s (fork_event ?p ''main'' ''b1'' n now) = Inl (PayloadInvalid EventBranchCreated)"
    for n now
    by (simp add: validateEvent_def EventRegistry_Validate_def fork_event_def)
  moreover have "fmlookup (mt_branches demo_thread) ''b1'' = None"
    by (simp add: demo_thread_def new_thread_def)
  ultimately have "\<exists>s' t'. MemoryStore_Fork None demo_gen ?p ?s = (Inl (PayloadInvalid EventBranchCreated), s') \<and>
     fmlookup (ms_threads s') ''t1'' = Some t' \<and> fmlookup (mt_branches t') ''b1'' \<noteq> None \<and>
     mt_events t' = mt_events demo_thread"
    using fork_rejected_leaves_branch [of ?s ?p demo_thread demo_gen] demo_lookup demo_main by simp
  then show ?thesis by blast
qed

text \<open>Walking parent links out of a branch that is its own parent does not return.\<close>

lemma branch_chain_self_parent:
  assumes "branch_chain bs c = Some r"
  shows "c \<noteq> [] \<Longrightarrow> fmlookup bs c = Some br \<Longrightarrow> br_Parent br \<noteq> c"
proof (induction rule: branch_chain.raw_induct [OF _ assms])
  case (1 chain bs cur r)
  show ?case
  proof
    assume self: "br_Parent br = cur"
    with 1(2-4) obtain y where "chain bs cur = Some y" by (auto split: Option.bind_splits)
    from 1(1) [OF this 1(3,4)] self show False by simp
  qed
qed

lemma branch_chain_self:
  "b \<noteq> [] \<Longrightarrow> fmlookup bs b = Some br \<Longrightarrow> br_Parent br = b \<Longrightarrow> branch_chain bs b = None"
  using branch_chain_self_parent by (cases "branch_chain bs b") auto

lemma import_log_branches [simp]: "mt_branches (import_log e t) = mt_branches t"
  by (simp add: import_log_def Let_def)

text \<open>
  C6: \<^verbatim>\<open>Import\<close> accepts a branch.created event that names the new branch as its own parent; reading
  that branch afterwards never returns.
\<close>

theorem import_self_parent_diverges:
  assumes "ev_ThreadID e \<noteq> []" "ev_Kind e = EventBranchCreated" "ms_registry s = None"
    "ev_Payload e = Doc (enc_branch_created \<lparr>bc_FromBranchID = b, bc_ToBranchID = b, bc_ForkSeq = n\<rparr>)"
    "int64_range n" "b \<noteq> []"
  shows "\<exists>s' st. MemoryStore_Import None [e] s = (Inr (), s') \<and>
    MemoryStore_Read None (ev_ThreadID e) s' = Inr st \<and> EventsForBranch st b = None"
proof -
  let ?p = "\<lparr>bc_FromBranchID = b, bc_ToBranchID = b, bc_ForkSeq = n\<rparr>"
  have "Unmarshal dec_branch_created (ev_Payload e) no_branch_created = Inr ?p"
    using branch_created.unmarshal_marshal [of ?p] assms(4,5) by simp
  then have "import_branch_created e' c t0 = Inr (t0\<lparr>mt_branches := fmupd b
      \<lparr>br_ID = b, br_Parent = b, br_ForkSeq = n, br_CreatedAt = ev_At e\<rparr> (mt_branches t0)\<rparr>)"
    if "ev_Kind e' = ev_Kind e" "ev_Payload e' = ev_Payload e" "ev_At e' = ev_At e" for e' c t0
    using that assms(2,6) by (simp add: import_branch_created_def)
  then have "\<exists>s' t0 e'. import_event s e = (Inr (), s') \<and>
      fmlookup (ms_threads s') (ev_ThreadID e) = Some (import_log e' (t0\<lparr>mt_branches := fmupd b
      \<lparr>br_ID = b, br_Parent = b, br_ForkSeq = n, br_CreatedAt = ev_At e\<rparr> (mt_branches t0)\<rparr>))"
    using assms(1-3) by (simp add: import_event_def validateEvent_def Let_def put_thread_def) blast
  then obtain s' t where i: "MemoryStore_Import None [e] s = (Inr (), s')"
    and t: "fmlookup (ms_threads s') (ev_ThreadID e) = Some t"
    and br: "fmlookup (mt_branches t) b = Some \<lparr>br_ID = b, br_Parent = b, br_ForkSeq = n, br_CreatedAt = ev_At e\<rparr>"
    by (auto simp: MemoryStore_Import_def)
  from branch_chain_self [OF assms(6) br] br assms(6) have "EventsForBranch (snapshot t) b = None"
    by (auto simp: EventsForBranch_def branchWindows_def)
  with i t show ?thesis by (auto simp: MemoryStore_Read_def)
qed

theorem import_self_parent_diverges_witness:
  "\<exists>s' st. MemoryStore_Import None [no_event\<lparr>ev_ThreadID := ''t'', ev_Kind := EventBranchCreated,
      ev_Payload := Doc (enc_branch_created \<lparr>bc_FromBranchID = ''x'', bc_ToBranchID = ''x'', bc_ForkSeq = 0\<rparr>)\<rparr>]
      (NewMemoryStore None) = (Inr (), s') \<and>
    MemoryStore_Read None ''t'' s' = Inr st \<and> EventsForBranch st ''x'' = None"
  using import_self_parent_diverges [of "no_event\<lparr>ev_ThreadID := ''t'', ev_Kind := EventBranchCreated,
      ev_Payload := Doc (enc_branch_created \<lparr>bc_FromBranchID = ''x'', bc_ToBranchID = ''x'', bc_ForkSeq = 0\<rparr>)\<rparr>"
      "NewMemoryStore None" "''x''" 0]
  by (simp add: NewMemoryStore_def int64_range_def)

end
