(* ===== verification/Thread_Replay.thy ===== *)
theory Thread_Replay
  imports Memory_Store
begin

text \<open>
  Replaying a thread's log. \<^verbatim>\<open>MemoryStore.Import\<close> of the events that the live operations wrote
  rebuilds the thread they left behind: identity, default branch, branch map, metadata, archived
  flag, creation time, sequence counter and log. Only \<^verbatim>\<open>updatedAt\<close> may differ, because live appends
  record the time of the last event and \<^verbatim>\<open>Import\<close> the latest time.

  The step relation \<^verbatim>\<open>logged_step\<close> restricts the calls to the ones that speak through the log: no
  caller appends a core event kind by hand or names a branch that does not exist, the metadata of
  a new thread lists each key once, sequence numbers fit 64 bits and no archive call is rejected by
  the registry.
\<close>

definition core_kinds :: "string list" where
  "core_kinds = [EventThreadCreated, EventBranchCreated, EventThreadArchived, EventThreadUnarchived]"

definition plain_event :: "memory_thread \<Rightarrow> event \<Rightarrow> bool" where
  "plain_event t e \<longleftrightarrow> ev_Kind e \<notin> set core_kinds \<and>
     (ev_BranchID e = [] \<or> fmlookup (mt_branches t) (ev_BranchID e) \<noteq> None)"

text \<open>Equality of threads but for the time of the last update.\<close>

definition same_thread :: "memory_thread \<Rightarrow> memory_thread \<Rightarrow> bool" where
  "same_thread t t' \<longleftrightarrow> t'\<lparr>mt_updatedAt := mt_updatedAt t\<rparr> = t"

lemma same_thread_iff:
  "same_thread t t' \<longleftrightarrow> mt_id t' = mt_id t \<and> mt_branchID t' = mt_branchID t \<and>
     mt_branches t' = mt_branches t \<and> mt_metadata t' = mt_metadata t \<and> mt_archived t' = mt_archived t \<and>
     mt_createdAt t' = mt_createdAt t \<and> mt_nextSeq t' = mt_nextSeq t \<and> mt_events t' = mt_events t"
  by (cases t; cases t') (auto simp: same_thread_def)

lemma same_thread_views: "same_thread t t' \<Longrightarrow> EventsForBranch (snapshot t') b = EventsForBranch (snapshot t) b"
  by (simp add: same_thread_iff EventsForBranch_def branchWindows_def)

lemma validateEvent_cong:
  "ev_Kind e = ev_Kind e' \<Longrightarrow> ev_Payload e = ev_Payload e' \<Longrightarrow> validateEvent s e = validateEvent s e'"
  by (simp only: validateEvent_def EventRegistry_Validate_def)

lemma validateEvent_registry: "ms_registry s = ms_registry s' \<Longrightarrow> validateEvent s e = validateEvent s' e"
  by (simp add: validateEvent_def)

section \<open>Importing one event\<close>

lemma import_log_sel [simp]:
  "mt_id (import_log e t) = mt_id t" "mt_branchID (import_log e t) = mt_branchID t"
  "mt_metadata (import_log e t) = mt_metadata t" "mt_createdAt (import_log e t) = mt_createdAt t"
  "mt_events (import_log e t) = mt_events t @ [e]"
  "mt_nextSeq (import_log e t) = (if mt_nextSeq t \<le> ev_Seq e then ev_Seq e + 1 else mt_nextSeq t)"
  "mt_archived (import_log e t) =
     (ev_Kind e = EventThreadArchived \<or> ev_Kind e \<noteq> EventThreadUnarchived \<and> mt_archived t)"
  by (simp_all add: import_log_def Let_def)

lemma import_existing:
  assumes "ev_ThreadID e \<noteq> []" "ev_Kind e \<noteq> []" "ev_SchemaVersion e \<noteq> 0" "ev_BranchID e \<noteq> []"
    "validateEvent s e = Inr ()" "fmlookup (ms_threads s) (ev_ThreadID e) = Some t" "ev_Kind e \<noteq> EventThreadCreated"
    "import_branch_created e (ev_BranchID e) (import_known_branch e (ev_BranchID e) t) = Inr t2"
  shows "import_event s e = (Inr (), put_thread (ev_ThreadID e) (import_log e t2) s)"
proof -
  have "e\<lparr>ev_BranchID := ev_BranchID e\<rparr> = e" by simp
  then show ?thesis using assms by (simp add: import_event_def import_created_def Let_def)
qed

text \<open>The import of a stamped event mirrors the append that stamped it.\<close>

lemma import_plain:
  assumes t: "thread_inv t" "same_thread t t'" "fmlookup (ms_threads s) (mt_id t) = Some t'"
    and e: "ev_Kind e \<noteq> []" "ev_Kind e \<noteq> EventThreadCreated" "ev_Kind e \<noteq> EventBranchCreated"
    and b: "fmlookup (mt_branches t) (ev_BranchID (stamp_event g b t e)) \<noteq> None"
    and v: "validateEvent s e = Inr ()"
  shows "\<exists>t''. import_event s (stamp_event g b t e) = (Inr (), put_thread (mt_id t) t'' s) \<and>
    same_thread ((push_event g b t e)\<lparr>mt_archived := (ev_Kind e = EventThreadArchived \<or>
      ev_Kind e \<noteq> EventThreadUnarchived \<and> mt_archived t)\<rparr>) t''"
proof -
  let ?e = "stamp_event g b t e"
  have eq: "mt_branches t' = mt_branches t" "mt_nextSeq t' = mt_nextSeq t"
    using t(2) by (simp_all add: same_thread_iff)
  have "import_known_branch ?e (ev_BranchID ?e) t' = t'"
    using b eq(1) by (auto simp: import_known_branch_def simp del: stamp_event_sel(5))
  then have "import_branch_created ?e (ev_BranchID ?e) (import_known_branch ?e (ev_BranchID ?e) t') = Inr t'"
    using e(3) by (simp add: import_branch_created_def)
  moreover have "ev_BranchID ?e \<noteq> []" using thread_inv_branchID [OF t(1)] by simp
  moreover have "validateEvent s ?e = Inr ()" using v validateEvent_cong [of ?e e s] by simp
  moreover have "mt_id t \<noteq> []" using t(1) by (simp add: thread_inv_def)
  ultimately have "import_event s ?e = (Inr (), put_thread (mt_id t) (import_log ?e t') s)"
    using import_existing [of ?e s t' t'] e t(3) by (simp add: CurrentEventSchemaVersion_def)
  then show ?thesis using t(2) eq(2) by (auto simp: same_thread_iff)
qed

lemma import_fork:
  assumes t: "thread_inv t" "same_thread t t'" "fmlookup (ms_threads s) (mt_id t) = Some t'"
    and b: "fmlookup (mt_branches t) to = None" "to \<noteq> []" "int64_range (mt_nextSeq t - 1)"
    and v: "validateEvent s (fork_event p from to (mt_nextSeq t - 1) (g_now g)) = Inr ()" (is "validateEvent s ?f = _")
  defines "t1 \<equiv> t\<lparr>mt_branches := fmupd to
      \<lparr>br_ID = to, br_Parent = from, br_ForkSeq = mt_nextSeq t - 1, br_CreatedAt = g_now g\<rparr> (mt_branches t)\<rparr>"
  shows "\<exists>t''. import_event s (stamp_event g to t1 ?f) = (Inr (), put_thread (mt_id t) t'' s) \<and>
    same_thread (push_event g to t1 ?f) t''"
proof -
  let ?e = "stamp_event g to t1 ?f"
  let ?p = "\<lparr>bc_FromBranchID = from, bc_ToBranchID = to, bc_ForkSeq = mt_nextSeq t - 1\<rparr>"
  let ?t2 = "t'\<lparr>mt_branches := mt_branches t1\<rparr>"
  have eq: "mt_branches t' = mt_branches t" "mt_nextSeq t' = mt_nextSeq t"
    using t(2) by (simp_all add: same_thread_iff)
  have e: "ev_BranchID ?e = to" "ev_At ?e = g_now g" "ev_Payload ?e = Doc (enc_branch_created ?p)"
    "ev_ThreadID ?e = mt_id t" "ev_Seq ?e = mt_nextSeq t"
    using b(2) by (simp_all add: fork_event_def no_event_def t1_def)
  have "Unmarshal dec_branch_created (ev_Payload ?e) no_branch_created = Inr ?p"
    using branch_created.unmarshal_marshal [of ?p] b(3) e(3) by simp
  then have "import_branch_created ?e to (import_known_branch ?e to t') = Inr ?t2"
    using b(1,2) eq(1) e(1,2) by (simp add: import_branch_created_def import_known_branch_def t1_def)
  moreover have "validateEvent s ?e = Inr ()" using v validateEvent_cong [of ?e ?f s] by simp
  moreover have "mt_id t \<noteq> []" using t(1) by (simp add: thread_inv_def)
  ultimately have "import_event s ?e = (Inr (), put_thread (mt_id t) (import_log ?e ?t2) s)"
    using import_existing [of ?e s t' ?t2] e t(3) b(2)
    by (simp add: CurrentEventSchemaVersion_def t1_def)
  then show ?thesis using t(2) eq(2) e(5) by (auto simp: same_thread_iff t1_def)
qed

lemma import_create:
  assumes "tid \<noteq> []" "bid \<noteq> []" "distinct (map fst (cp_Metadata p))"
    "validateEvent s (created_event g p tid bid now) = Inr ()" "fmlookup (ms_threads s) tid = None"
  shows "\<exists>t''. import_event s (created_event g p tid bid now) = (Inr (), put_thread tid t'' s) \<and>
    same_thread ((new_thread p tid bid now)\<lparr>mt_events := [created_event g p tid bid now], mt_nextSeq := 2\<rparr>) t''"
proof -
  let ?e = "created_event g p tid bid now"
  have e: "ev_ThreadID ?e = tid" "ev_BranchID ?e = bid" "ev_Kind ?e = EventThreadCreated" "ev_Seq ?e = 1"
    "ev_At ?e = now" "ev_SchemaVersion ?e = 1"
    "ev_Payload ?e = Doc (enc_thread_created (cp_Metadata p))"
    by (simp_all add: created_event_def no_event_def CurrentEventSchemaVersion_def)
  define t1 where "t1 = import_created ?e bid (import_known_branch ?e bid (import_new_thread ?e bid))"
  have meta: "(if cp_Metadata p = [] then None else Some (map_of (cp_Metadata p))) = Some m \<Longrightarrow>
      m = map_of (cp_Metadata p)" for m by (auto split: if_splits)
  have t1: "mt_id t1 = tid" "mt_branchID t1 = bid" "mt_archived t1 = False" "mt_createdAt t1 = now"
    "mt_nextSeq t1 = 1" "mt_events t1 = []" "mt_metadata t1 = map_of (cp_Metadata p)"
    "mt_branches t1 = mt_branches (new_thread p tid bid now)"
    using assms(3) e
    by (auto simp: t1_def import_created_def import_known_branch_def import_new_thread_def
        dec_enc_thread_created Let_def new_thread_def dest: meta split: option.splits)
  have upd: "?e\<lparr>ev_BranchID := bid\<rparr> = ?e" by (simp add: created_event_def)
  have "import_event s ?e = (Inr (), put_thread tid (import_log ?e t1) s)"
    using assms e unfolding t1_def by (simp add: import_event_def import_branch_created_def Let_def upd)
  moreover have "same_thread ((new_thread p tid bid now)\<lparr>mt_events := [?e], mt_nextSeq := 2\<rparr>) (import_log ?e t1)"
    using t1 e by (simp add: same_thread_iff new_thread_def)
  ultimately show ?thesis by blast
qed


section \<open>Threads that equal the replay of their log\<close>

definition replayed :: "event_registry option \<Rightarrow> memory_thread \<Rightarrow> bool" where
  "replayed r t \<longleftrightarrow> (\<exists>t'. import_events (NewMemoryStore r) (mt_events t)
       = (Inr (), put_thread (mt_id t) t' (NewMemoryStore r)) \<and> same_thread t t')"

lemma import_events_append:
  "import_events s (xs @ ys) = (case import_events s xs of (Inl e, s') \<Rightarrow> (Inl e, s') | (Inr _, s') \<Rightarrow> import_events s' ys)"
  by (induction xs arbitrary: s) (auto split: prod.splits sum.splits)

lemma put_thread_put [simp]: "put_thread k t (put_thread k t' s) = put_thread k t s"
  by (simp add: put_thread_def)

lemma replayed_push:
  assumes "replayed r t" "mt_events t1 = mt_events t @ [e]" "mt_id t1 = mt_id t"
    and "\<And>t'. same_thread t t' \<Longrightarrow> \<exists>t''. import_event (put_thread (mt_id t) t' (NewMemoryStore r)) e
       = (Inr (), put_thread (mt_id t) t'' (put_thread (mt_id t) t' (NewMemoryStore r))) \<and> same_thread t1 t''"
  shows "replayed r t1"
proof -
  obtain t' where t': "import_events (NewMemoryStore r) (mt_events t)
      = (Inr (), put_thread (mt_id t) t' (NewMemoryStore r))" "same_thread t t'"
    using assms(1) by (auto simp: replayed_def)
  from assms(4) [OF t'(2)] t'(1) show ?thesis
    unfolding replayed_def assms(2,3) by (auto simp: import_events_append)
qed

lemma lookup_put [simp]: "fmlookup (ms_threads (put_thread k t s)) k = Some t"
  by (simp add: put_thread_def)

lemma registry_put [simp]: "ms_registry (put_thread k t s) = ms_registry s" "ms_registry (NewMemoryStore r) = r"
  by (simp_all add: put_thread_def NewMemoryStore_def)

lemma replayed_plain:
  assumes "replayed r t" "thread_inv t" "ev_Kind e \<noteq> []" "ev_Kind e \<noteq> EventThreadCreated"
    "ev_Kind e \<noteq> EventBranchCreated" "fmlookup (mt_branches t) (ev_BranchID (stamp_event g b t e)) \<noteq> None"
    "validateEvent s e = Inr ()" "ms_registry s = r"
  shows "replayed r ((push_event g b t e)\<lparr>mt_archived := (ev_Kind e = EventThreadArchived \<or>
      ev_Kind e \<noteq> EventThreadUnarchived \<and> mt_archived t)\<rparr>)"
proof (rule replayed_push [OF assms(1)])
  fix t' assume "same_thread t t'"
  moreover have "validateEvent (put_thread (mt_id t) t' (NewMemoryStore r)) e = Inr ()"
    using validateEvent_registry [of _ s e] assms(7,8) by simp
  ultimately show "\<exists>t''. import_event (put_thread (mt_id t) t' (NewMemoryStore r)) (stamp_event g b t e)
       = (Inr (), put_thread (mt_id t) t'' (put_thread (mt_id t) t' (NewMemoryStore r))) \<and>
      same_thread ((push_event g b t e)\<lparr>mt_archived := (ev_Kind e = EventThreadArchived \<or>
        ev_Kind e \<noteq> EventThreadUnarchived \<and> mt_archived t)\<rparr>) t''"
    using import_plain [OF assms(2) _ lookup_put assms(3-6)] by blast
qed simp_all

lemma replayed_append:
  assumes "replayed r t" "thread_inv t" "fmlookup (mt_branches t) b \<noteq> None"
    "\<forall>e \<in> set es. plain_event t e \<and> ev_Kind e \<noteq> [] \<and> validateEvent s e = Inr ()" "ms_registry s = r"
  shows "replayed r (appendLocked g b t es)"
proof -
  let ?P = "\<lambda>x. replayed r x \<and> thread_inv x \<and> mt_branches x = mt_branches t"
  have "?P (push_event g b x e)" if e: "e \<in> set es" and x: "?P x" for x e
  proof -
    have k: "ev_Kind e \<noteq> []" "ev_Kind e \<notin> set core_kinds" "validateEvent s e = Inr ()"
      using assms(4) e by (auto simp: plain_event_def)
    have "fmlookup (mt_branches x) (ev_BranchID (stamp_event g b x e)) \<noteq> None"
      using assms(3,4) e x by (auto simp: plain_event_def thread_inv_def)
    with replayed_plain [of r x e g b s] x k assms(5)
    have "replayed r ((push_event g b x e)\<lparr>mt_archived := mt_archived x\<rparr>)" by (simp add: core_kinds_def)
    moreover have "(push_event g b x e)\<lparr>mt_archived := mt_archived x\<rparr> = push_event g b x e"
      by (simp add: push_event_def)
    ultimately show ?thesis using x push_event_inv k(1) by simp
  qed
  then have "?P (appendLocked g b t es)"
    using assms(1,2) by (intro appendLocked_induct [where P = ?P]) auto
  then show ?thesis by simp
qed

section \<open>Calls that speak through the log\<close>

inductive logged_step :: "memory_store \<Rightarrow> memory_store \<Rightarrow> bool" where
  create: "gen_ok g \<Longrightarrow> distinct (map fst (cp_Metadata p)) \<Longrightarrow>
    MemoryStore_Create ctx g p s = (r, s') \<Longrightarrow> logged_step s s'"
| fork: "gen_ok g \<Longrightarrow> MemoryStore_Fork ctx g fp s = (Inr l, s') \<Longrightarrow>
    fmlookup (ms_threads s) (fp_ID fp) = Some t \<Longrightarrow> int64_range (mt_nextSeq t - 1) \<Longrightarrow> logged_step s s'"
| archive: "MemoryStore_Archive ctx g tid s = (Inr (), s') \<Longrightarrow> logged_step s s'"
| unarchive: "MemoryStore_Unarchive ctx g tid s = (Inr (), s') \<Longrightarrow> logged_step s s'"
| append: "memoryLive_Append ctx g l es s = (r', s') \<Longrightarrow>
    fmlookup (ms_threads s) (ml_threadID l) = Some t \<Longrightarrow> fmlookup (mt_branches t) (ml_branchID l) \<noteq> None \<Longrightarrow>
    \<forall>e \<in> set es. plain_event t e \<Longrightarrow> logged_step s s'"
| discard: "memoryLive_Discard l s = (l', s') \<Longrightarrow> logged_step s s'"
| discard_thread: "MemoryStore_DiscardThread ctx tid s = (r', s') \<Longrightarrow> logged_step s s'"

lemma logged_store_step: "logged_step s s' \<Longrightarrow> store_step s s'"
  by (induction rule: logged_step.induct) (auto intro: store_step.intros)

definition replay_inv :: "event_registry option \<Rightarrow> memory_store \<Rightarrow> bool" where
  "replay_inv r s \<longleftrightarrow> store_inv s \<and> ms_registry s = r \<and>
     (\<forall>tid t. fmlookup (ms_threads s) tid = Some t \<longrightarrow> replayed r t)"

lemma replay_inv_put:
  "replay_inv r s \<Longrightarrow> store_inv s' \<Longrightarrow> replayed r t \<Longrightarrow> s' = put_thread k t s \<Longrightarrow> replay_inv r s'"
  by (auto simp: replay_inv_def put_thread_def)

lemma replay_inv_drop: "replay_inv r s \<Longrightarrow> replay_inv r (s\<lparr>ms_threads := fmdrop tid (ms_threads s)\<rparr>)"
  by (auto simp: replay_inv_def store_inv_drop)


lemma Create_success:
  assumes "MemoryStore_Create ctx g p s = (Inr l, s')"
  obtains tid bid now where
    "tid = (if cp_ID p = [] then g_ID g else cp_ID p)"
    "bid = (if cp_BranchID p = [] then MainBranch else cp_BranchID p)"
    "fmlookup (ms_threads s) tid = None" "validateEvent s (created_event g p tid bid now) = Inr ()"
    "s' = put_thread tid ((new_thread p tid bid now)
       \<lparr>mt_events := [created_event g p tid bid now], mt_nextSeq := 2\<rparr>) s"
  using assms unfolding MemoryStore_Create_def
  by (auto simp: Let_def new_thread_def split: option.splits if_splits sum.splits)

lemma logged_create:
  assumes "replay_inv r s" "gen_ok g" "distinct (map fst (cp_Metadata p))"
    "MemoryStore_Create ctx g p s = (res, s')"
  shows "replay_inv r s'"
proof (cases res)
  case (Inl e)
  with assms have "s' = s"
    by (auto simp: MemoryStore_Create_def Let_def split: option.splits if_splits sum.splits)
  with assms(1) show ?thesis by simp
next
  case (Inr l)
  have si: "store_inv s'" using Create_inv [OF _ assms(4)] assms(1,2) by (auto simp: replay_inv_def gen_ok_def)
  from assms(4) Inr have "MemoryStore_Create ctx g p s = (Inr l, s')" by simp
  then show ?thesis
  proof (rule Create_success)
    fix tid bid now
    assume tid: "tid = (if cp_ID p = [] then g_ID g else cp_ID p)"
      and bid: "bid = (if cp_BranchID p = [] then MainBranch else cp_BranchID p)"
      and none: "fmlookup (ms_threads s) tid = None"
      and v: "validateEvent s (created_event g p tid bid now) = Inr ()"
      and s': "s' = put_thread tid ((new_thread p tid bid now)
        \<lparr>mt_events := [created_event g p tid bid now], mt_nextSeq := 2\<rparr>) s"
    let ?e = "created_event g p tid bid now"
    let ?t = "(new_thread p tid bid now)\<lparr>mt_events := [?e], mt_nextSeq := 2\<rparr>"
    have "tid \<noteq> []" "bid \<noteq> []" using tid bid assms(2) by (auto simp: gen_ok_def)
    moreover have "validateEvent (NewMemoryStore r) ?e = Inr ()"
      using v assms(1) validateEvent_registry [of s "NewMemoryStore r"] by (simp add: replay_inv_def)
    moreover have "fmlookup (ms_threads (NewMemoryStore r)) tid = None" by (simp add: NewMemoryStore_def)
    ultimately obtain t'' where "import_event (NewMemoryStore r) ?e = (Inr (), put_thread tid t'' (NewMemoryStore r))"
      "same_thread ?t t''"
      using import_create [OF _ _ assms(3)] by blast
    then have "replayed r ?t" by (auto simp: replayed_def new_thread_def)
    from replay_inv_put [OF assms(1) si this s'] show ?thesis .
  qed
qed

lemma logged_fork:
  assumes "replay_inv r s" "gen_ok g" "MemoryStore_Fork ctx g p s = (Inr l, s')"
    "fmlookup (ms_threads s) (fp_ID p) = Some t" "int64_range (mt_nextSeq t - 1)"
  shows "replay_inv r s'"
  using assms(3)
proof (rule Fork_success)
  fix x "from" to fb
  assume x: "fmlookup (ms_threads s) (fp_ID p) = Some x"
    and b: "fmlookup (mt_branches x) to = None"
    and to: "to = (if fp_ToBranchID p = [] then g_BranchID g else fp_ToBranchID p)"
    and v: "validateEvent s (fork_event p from to (mt_nextSeq x - 1) (g_now g)) = Inr ()"
    and s': "s' = put_thread (fp_ID p) (push_event g to (x\<lparr>mt_branches := fmupd to
      \<lparr>br_ID = to, br_Parent = from, br_ForkSeq = mt_nextSeq x - 1, br_CreatedAt = g_now g\<rparr>
      (mt_branches x)\<rparr>) (fork_event p from to (mt_nextSeq x - 1) (g_now g))) s"
      (is "s' = put_thread _ (push_event g to ?x1 ?f) s")
  have t: "x = t" using x assms(4) by simp
  have to0: "to \<noteq> []" using to assms(2) by (auto simp: gen_ok_def)
  have inv: "store_inv s" "replayed r t" "ms_registry s = r" using assms(1,4) by (auto simp: replay_inv_def)
  have ti: "thread_inv x" using store_invD [OF inv(1) x] by simp
  have si: "store_inv s'" using Fork_inv [OF inv(1) assms(3)] assms(2) by (simp add: gen_ok_def)
  have v': "validateEvent (put_thread (mt_id x) y (NewMemoryStore r)) ?f = Inr ()" for y
    using v inv(3) validateEvent_registry [of s "put_thread (mt_id x) y (NewMemoryStore r)"] by simp
  have range: "int64_range (mt_nextSeq x - 1)" using assms(5) t by simp
  have "replayed r (push_event g to ?x1 ?f)"
  proof (rule replayed_push [of r x _ "stamp_event g to ?x1 ?f"])
    fix y assume "same_thread x y"
    from import_fork [OF ti this lookup_put b to0 range v']
    show "\<exists>t''. import_event (put_thread (mt_id x) y (NewMemoryStore r)) (stamp_event g to ?x1 ?f) =
      (Inr (), put_thread (mt_id x) t'' (put_thread (mt_id x) y (NewMemoryStore r))) \<and>
      same_thread (push_event g to ?x1 ?f) t''" .
  qed (use inv(2) t in simp_all)
  from replay_inv_put [OF assms(1) si this s'] show ?thesis .
qed

lemma logged_archive:
  assumes "replay_inv r s" "setArchived ctx g tid a kind s = (Inr (), s')"
    "kind = (if a then EventThreadArchived else EventThreadUnarchived)"
  shows "replay_inv r s'"
proof -
  let ?e = "no_event\<lparr>ev_Kind := kind\<rparr>"
  obtain t where t: "fmlookup (ms_threads s) tid = Some t" and v: "validateEvent s ?e = Inr ()"
    and s': "s' = put_thread tid (push_event g (mt_branchID t) (t\<lparr>mt_archived := a\<rparr>) ?e) s"
    using assms(2) by (auto simp: setArchived_def Let_def appendLocked_foldl
        simp del: appendLocked.simps split: option.splits sum.splits)
  have inv: "store_inv s" "replayed r t" "ms_registry s = r" using assms(1) t by (auto simp: replay_inv_def)
  have ti: "thread_inv t" using store_invD [OF inv(1) t] by simp
  have br: "fmlookup (mt_branches t) (ev_BranchID (stamp_event g (mt_branchID t) t ?e)) \<noteq> None"
    using ti by (simp add: thread_inv_def no_event_def)
  have k: "kind \<noteq> []" using assms(3) by simp
  have eq: "push_event g (mt_branchID t) (t\<lparr>mt_archived := a\<rparr>) ?e = (push_event g (mt_branchID t) t ?e)\<lparr>mt_archived := a\<rparr>"
    by (simp add: push_event_def stamp_event_def Let_def)
  have "replayed r (push_event g (mt_branchID t) (t\<lparr>mt_archived := a\<rparr>) ?e)"
    using replayed_plain [OF inv(2) ti _ _ _ br v inv(3)] assms(3) unfolding eq by (simp split: if_splits)
  from replay_inv_put [OF assms(1) setArchived_inv [OF inv(1) assms(2) k] this s'] show ?thesis .
qed

lemma logged_append:
  assumes "replay_inv r s" "memoryLive_Append ctx g l es s = (res, s')"
    "fmlookup (ms_threads s) (ml_threadID l) = Some t" "fmlookup (mt_branches t) (ml_branchID l) \<noteq> None"
    "\<forall>e \<in> set es. plain_event t e"
  shows "replay_inv r s'"
proof (cases "isl res \<or> es = []")
  case True
  then have "s' = s" using assms(2)
    by (auto simp: memoryLive_Append_def split: option.splits if_splits sum.splits)
  with assms(1) show ?thesis by simp
next
  case False
  then have a: "memoryLive_Append ctx g l es s = (Inr (), s')" using assms(2) by (cases res) simp_all
  from False have ne: "es \<noteq> []" by simp
  obtain batch where batch: "live_batch s l es = Inr batch"
    and s': "s' = put_thread (ml_threadID l) (appendLocked g (ml_branchID l) t batch) s"
    using Append_success [OF a ne] assms(3) by (metis option.inject)
  have inv: "store_inv s" "replayed r t" "ms_registry s = r" using assms(1,3) by (auto simp: replay_inv_def)
  have ti: "thread_inv t" using store_invD [OF inv(1) assms(3)] by simp
  have "plain_event t (live_event l e) \<and> ev_Kind (live_event l e) \<noteq> [] \<and>
      validateEvent s (live_event l e) = Inr ()" if "e \<in> set es" for e
  proof (intro conjI)
    show "plain_event t (live_event l e)" using that assms(4,5) by (auto simp: plain_event_def)
    show "ev_Kind (live_event l e) \<noteq> []"
      using live_batch_kinds [OF batch] that unfolding live_batch_map [OF batch] by simp
    have "validateEvent s e = Inr ()" using live_batch_valid [OF batch] that by simp
    then show "validateEvent s (live_event l e) = Inr ()" by (subst validateEvent_cong [of _ e]) simp_all
  qed
  then have "replayed r (appendLocked g (ml_branchID l) t batch)"
    using live_batch_map [OF batch] by (intro replayed_append [OF inv(2) ti assms(4) _ inv(3)]) auto
  from replay_inv_put [OF assms(1) Append_inv [OF inv(1) assms(2)] this s'] show ?thesis .
qed

lemma logged_step_replay: "logged_step s s' \<Longrightarrow> replay_inv r s \<Longrightarrow> replay_inv r s'"
proof (induction rule: logged_step.induct)
  case (create g p ctx s res s')
  from logged_create [OF create.prems create.hyps] show ?case .
next
  case (fork g ctx fp s l s' t)
  from logged_fork [OF fork.prems fork.hyps] show ?case .
next
  case (archive ctx g tid s s')
  then show ?case using logged_archive [of r s ctx g tid True] by (simp add: MemoryStore_Archive_def)
next
  case (unarchive ctx g tid s s')
  then show ?case using logged_archive [of r s ctx g tid False] by (simp add: MemoryStore_Unarchive_def)
next
  case (append ctx g l es s r' s' t)
  from logged_append [OF append.prems append.hyps] show ?case .
next
  case discard
  then show ?case using replay_inv_drop by (auto simp: memoryLive_Discard_def)
next
  case discard_thread
  then show ?case using replay_inv_drop
    by (auto simp: MemoryStore_DiscardThread_def split: option.splits)
qed

lemma replay_inv_init: "replay_inv r (NewMemoryStore r)"
  by (simp add: replay_inv_def NewMemoryStore_inv) (simp add: NewMemoryStore_def)



end
