(* ===== verification/Jsonl_Store.thy ===== *)
theory Jsonl_Store
  imports Thread_Replay
begin

text \<open>
  The thread store on disk (\<^verbatim>\<open>src/thread/jsonlstore/store.go\<close>): one file of JSON lines per thread.
  Every operation loads the whole directory into a memory store, runs the memory operation there and
  writes files back; a live handle keeps the memory store it was created with and appends lines.

  The directory is a finite map from file names to lines; a line is what \<^verbatim>\<open>json.Unmarshal\<close> sees of it.
  Operating-system failures (disk full, permissions) are not modelled, nor are thread identifiers
  that contain a path separator.
\<close>

section \<open>Records\<close>

record line_record =
  lr_Version :: int
  lr_ID :: string
  lr_ThreadID :: string
  lr_BranchID :: string
  lr_NodeID :: string
  lr_ParentNodeID :: string
  lr_Seq :: int
  lr_Kind :: string
  lr_SchemaVersion :: int
  lr_Payload :: rawmsg
  lr_At :: time
  lr_Source :: event_source
  lr_CausationID :: string
  lr_CorrelationID :: string

definition no_record :: line_record where
  "no_record = \<lparr>lr_Version = 0, lr_ID = [], lr_ThreadID = [], lr_BranchID = [], lr_NodeID = [],
     lr_ParentNodeID = [], lr_Seq = 0, lr_Kind = [], lr_SchemaVersion = 0, lr_Payload = NoBytes,
     lr_At = zero_time, lr_Source = no_source, lr_CausationID = [], lr_CorrelationID = []\<rparr>"

definition normalizedEventSchemaVersion :: "int \<Rightarrow> int" where
  "normalizedEventSchemaVersion v = (if v \<le> 0 then CurrentEventSchemaVersion else v)"

definition jsonl_encode :: "event \<Rightarrow> line_record" where
  "jsonl_encode e = \<lparr>lr_Version = 1, lr_ID = ev_ID e, lr_ThreadID = ev_ThreadID e,
     lr_BranchID = ev_BranchID e, lr_NodeID = ev_NodeID e, lr_ParentNodeID = ev_ParentNodeID e,
     lr_Seq = ev_Seq e, lr_Kind = ev_Kind e,
     lr_SchemaVersion = normalizedEventSchemaVersion (ev_SchemaVersion e),
     lr_Payload = ev_Payload e, lr_At = ev_At e, lr_Source = ev_Source e,
     lr_CausationID = ev_CausationID e, lr_CorrelationID = ev_CorrelationID e\<rparr>"

definition jsonl_decode :: "line_record \<Rightarrow> event" where
  "jsonl_decode r = \<lparr>ev_ID = lr_ID r, ev_ThreadID = lr_ThreadID r, ev_BranchID = lr_BranchID r,
     ev_NodeID = lr_NodeID r, ev_ParentNodeID = lr_ParentNodeID r,
     ev_SchemaVersion = normalizedEventSchemaVersion (lr_SchemaVersion r), ev_Seq = lr_Seq r,
     ev_Kind = lr_Kind r, ev_Payload = lr_Payload r, ev_At = lr_At r, ev_Source = lr_Source r,
     ev_CausationID = lr_CausationID r, ev_CorrelationID = lr_CorrelationID r\<rparr>"

definition source_handlers :: "event_source handler list" where
  "source_handlers =
     [(''type'', at_field dec_string src_Type (\<lambda>v s. s\<lparr>src_Type := v\<rparr>)),
      (''id'', at_field dec_string src_ID (\<lambda>v s. s\<lparr>src_ID := v\<rparr>)),
      (''session_id'', at_field dec_string src_SessionID (\<lambda>v s. s\<lparr>src_SessionID := v\<rparr>))]"

definition enc_source :: "event_source \<Rightarrow> json" where
  "enc_source s = JObj (omit_str ''type'' (src_Type s) @ omit_str ''id'' (src_ID s) @
     omit_str ''session_id'' (src_SessionID s))"

definition record_handlers :: "line_record handler list" where
  "record_handlers =
     [(''version'', at_field dec_int lr_Version (\<lambda>v s. s\<lparr>lr_Version := v\<rparr>)),
      (''id'', at_field dec_string lr_ID (\<lambda>v s. s\<lparr>lr_ID := v\<rparr>)),
      (''thread_id'', at_field dec_string lr_ThreadID (\<lambda>v s. s\<lparr>lr_ThreadID := v\<rparr>)),
      (''branch_id'', at_field dec_string lr_BranchID (\<lambda>v s. s\<lparr>lr_BranchID := v\<rparr>)),
      (''node_id'', at_field dec_string lr_NodeID (\<lambda>v s. s\<lparr>lr_NodeID := v\<rparr>)),
      (''parent_node_id'', at_field dec_string lr_ParentNodeID (\<lambda>v s. s\<lparr>lr_ParentNodeID := v\<rparr>)),
      (''seq'', at_field dec_int lr_Seq (\<lambda>v s. s\<lparr>lr_Seq := v\<rparr>)),
      (''kind'', at_field dec_string lr_Kind (\<lambda>v s. s\<lparr>lr_Kind := v\<rparr>)),
      (''schema_version'', at_field dec_int lr_SchemaVersion (\<lambda>v s. s\<lparr>lr_SchemaVersion := v\<rparr>)),
      (''payload'', at_field dec_raw lr_Payload (\<lambda>v s. s\<lparr>lr_Payload := v\<rparr>)),
      (''at'', at_field dec_time lr_At (\<lambda>v s. s\<lparr>lr_At := v\<rparr>)),
      (''source'', at_field (dec_struct source_handlers) lr_Source (\<lambda>v s. s\<lparr>lr_Source := v\<rparr>)),
      (''causation_id'', at_field dec_string lr_CausationID (\<lambda>v s. s\<lparr>lr_CausationID := v\<rparr>)),
      (''correlation_id'', at_field dec_string lr_CorrelationID (\<lambda>v s. s\<lparr>lr_CorrelationID := v\<rparr>))]"

definition dec_record :: "line_record decoder" where
  "dec_record = dec_struct record_handlers"

definition enc_record :: "line_record \<Rightarrow> json" where
  "enc_record r = JObj
     (fld ''version'' (JNum (lr_Version r)) @ fld ''id'' (JStr (lr_ID r)) @
      fld ''thread_id'' (JStr (lr_ThreadID r)) @ fld ''branch_id'' (JStr (lr_BranchID r)) @
      omit_str ''node_id'' (lr_NodeID r) @ omit_str ''parent_node_id'' (lr_ParentNodeID r) @
      fld ''seq'' (JNum (lr_Seq r)) @ fld ''kind'' (JStr (lr_Kind r)) @
      omit_int ''schema_version'' (lr_SchemaVersion r) @ omit_raw ''payload'' (lr_Payload r) @
      fld ''at'' (JTime (lr_At r)) @ fld ''source'' (enc_source (lr_Source r)) @
      omit_str ''causation_id'' (lr_CausationID r) @ omit_str ''correlation_id'' (lr_CorrelationID r))"

text \<open>\<^verbatim>\<open>json.Encoder\<close> fails on a payload that is not JSON and on a time it cannot format.\<close>

definition encodable :: "event \<Rightarrow> bool" where
  "encodable e \<longleftrightarrow> (case ev_Payload e of BadBytes _ \<Rightarrow> False | _ \<Rightarrow> True) \<and> time_json_range (ev_At e)"

definition event_line :: "event \<Rightarrow> rawmsg" where
  "event_line e = Doc (enc_record (jsonl_encode e))"

section \<open>Store and operations\<close>

datatype jsonl_error =
    ThreadErr thread_error
  | DirRequired
  | DecodeErr
  | EncodeErr
  | JLiveClosed string

record jsonl_store =
  js_dir :: string
  js_files :: "(string, rawmsg list) fmap"
  js_registry :: "event_registry option"

record live_thread =
  lt_memory :: memory_store
  lt_threadID :: string
  lt_branchID :: string
  lt_source :: event_source
  lt_nextSeq :: int
  lt_closed :: bool

definition jsonl_Open :: "string \<Rightarrow> (string, rawmsg list) fmap \<Rightarrow> event_registry option \<Rightarrow> jsonl_store" where
  "jsonl_Open dir files r = \<lparr>js_dir = dir, js_files = files, js_registry = r\<rparr>"

definition jsonl_ensure :: "jsonl_store \<Rightarrow> (jsonl_error, unit) result" where
  "jsonl_ensure s = (if js_dir s = [] then Inl DirRequired else Inr ())"

definition jsonl_path :: "string \<Rightarrow> string" where
  "jsonl_path tid = tid @ ''.jsonl''"

definition lift_thread :: "(thread_error, 'a) result \<Rightarrow> (jsonl_error, 'a) result" where
  "lift_thread = map_sum ThreadErr id"

definition jsonl_nextSeq :: "event list \<Rightarrow> int" where
  "jsonl_nextSeq es = foldl (\<lambda>m e. if ev_Seq e > m then ev_Seq e else m) 0 es + 1"

fun decode_lines :: "rawmsg list \<Rightarrow> (jsonl_error, event list) result" where
  "decode_lines [] = Inr []"
| "decode_lines (l # ls) =
     (if l = NoBytes then decode_lines ls
      else case Unmarshal dec_record l no_record of
        Inl _ \<Rightarrow> Inl DecodeErr
      | Inr r \<Rightarrow> rbind (decode_lines ls) (\<lambda>es. Inr (jsonl_decode r # es)))"

definition loadThreadFile :: "go_ctx \<Rightarrow> memory_store \<Rightarrow> rawmsg list \<Rightarrow> (jsonl_error, memory_store) result" where
  "loadThreadFile ctx memory ls =
     rbind (decode_lines ls) (\<lambda>es.
       case MemoryStore_Import ctx es memory of (Inl e, _) \<Rightarrow> Inl (ThreadErr e) | (Inr _, m) \<Rightarrow> Inr m)"

definition thread_files :: "(string, rawmsg list) fmap \<Rightarrow> (string \<times> rawmsg list) list" where
  "thread_files fs = filter (\<lambda>f. HasSuffix (fst f) ''.jsonl'') (sorted_list_of_fmap fs)"

definition loadMemory :: "go_ctx \<Rightarrow> jsonl_store \<Rightarrow> (jsonl_error, memory_store) result" where
  "loadMemory ctx s =
     (case ctx of Some e \<Rightarrow> Inl (ThreadErr (CtxErr e)) | None \<Rightarrow>
        rbind (jsonl_ensure s) (\<lambda>_.
          rfold (\<lambda>m f. loadThreadFile ctx m (snd f)) (NewMemoryStore (js_registry s)) (thread_files (js_files s))))"

definition writeThreadFile :: "string \<Rightarrow> event list \<Rightarrow> jsonl_store \<Rightarrow> (jsonl_error, unit) result \<times> jsonl_store" where
  "writeThreadFile path es s =
     (if \<forall>e \<in> set es. encodable e then (Inr (), s\<lparr>js_files := fmupd path (map event_line es) (js_files s)\<rparr>)
      else (Inl EncodeErr, s))"

fun write_threads :: "stored list \<Rightarrow> jsonl_store \<Rightarrow> (jsonl_error, unit) result \<times> jsonl_store" where
  "write_threads [] s = (Inr (), s)"
| "write_threads (t # ts) s =
     (case writeThreadFile (jsonl_path (st_ID t)) (st_Events t) s of
        (Inl e, s') \<Rightarrow> (Inl e, s') | (Inr _, s') \<Rightarrow> write_threads ts s')"

definition jsonl_rewrite ::
  "go_ctx \<Rightarrow> string list \<Rightarrow> memory_store \<Rightarrow> jsonl_store \<Rightarrow> (jsonl_error, unit) result \<times> jsonl_store" where
  "jsonl_rewrite ctx iter memory s =
     (case ctx of Some e \<Rightarrow> (Inl (ThreadErr (CtxErr e)), s) | None \<Rightarrow>
        (case jsonl_ensure s of Inl e \<Rightarrow> (Inl e, s) | Inr _ \<Rightarrow>
           (case MemoryStore_List ctx iter \<lparr>lp_IncludeArchived = True, lp_Limit = 0\<rparr> memory of
              Inl e \<Rightarrow> (Inl (ThreadErr e), s) | Inr threads \<Rightarrow> write_threads threads s)))"

definition open_live :: "memory_store \<Rightarrow> memory_live \<Rightarrow> event_source \<Rightarrow> stored \<Rightarrow> live_thread" where
  "open_live memory live source st =
     \<lparr>lt_memory = memory, lt_threadID = ml_threadID live, lt_branchID = ml_branchID live,
      lt_source = source, lt_nextSeq = jsonl_nextSeq (st_Events st), lt_closed = False\<rparr>"

definition jsonl_Create ::
  "go_ctx \<Rightarrow> gen \<Rightarrow> string list \<Rightarrow> create_params \<Rightarrow> jsonl_store \<Rightarrow> (jsonl_error, live_thread) result \<times> jsonl_store" where
  "jsonl_Create ctx g iter p s =
     (case jsonl_ensure s of Inl e \<Rightarrow> (Inl e, s) | Inr _ \<Rightarrow>
        (case loadMemory ctx s of Inl e \<Rightarrow> (Inl e, s) | Inr m0 \<Rightarrow>
           (case MemoryStore_Create ctx g p m0 of
              (Inl e, _) \<Rightarrow> (Inl (ThreadErr e), s)
            | (Inr live, m1) \<Rightarrow>
                (case MemoryStore_Read ctx (ml_threadID live) m1 of
                   Inl e \<Rightarrow> (Inl (ThreadErr e), s)
                 | Inr st \<Rightarrow>
                     (case jsonl_rewrite ctx iter m1 s of
                        (Inl e, s') \<Rightarrow> (Inl e, s')
                      | (Inr _, s') \<Rightarrow> (Inr (open_live m1 live (cp_Source p) st), s'))))))"

definition jsonl_Resume ::
  "go_ctx \<Rightarrow> resume_params \<Rightarrow> jsonl_store \<Rightarrow> (jsonl_error, live_thread) result" where
  "jsonl_Resume ctx p s =
     rbind (jsonl_ensure s) (\<lambda>_. rbind (loadMemory ctx s) (\<lambda>m.
       rbind (lift_thread (MemoryStore_Resume ctx p m)) (\<lambda>live.
         rbind (lift_thread (MemoryStore_Read ctx (ml_threadID live) m)) (\<lambda>st.
           Inr (open_live m live (rp_Source p) st)))))"

definition jsonl_Fork ::
  "go_ctx \<Rightarrow> gen \<Rightarrow> string list \<Rightarrow> fork_params \<Rightarrow> jsonl_store \<Rightarrow> (jsonl_error, live_thread) result \<times> jsonl_store" where
  "jsonl_Fork ctx g iter p s =
     (case jsonl_ensure s of Inl e \<Rightarrow> (Inl e, s) | Inr _ \<Rightarrow>
        (case loadMemory ctx s of Inl e \<Rightarrow> (Inl e, s) | Inr m0 \<Rightarrow>
           (case MemoryStore_Fork ctx g p m0 of
              (Inl e, _) \<Rightarrow> (Inl (ThreadErr e), s)
            | (Inr live, m1) \<Rightarrow>
                (case jsonl_rewrite ctx iter m1 s of
                   (Inl e, s') \<Rightarrow> (Inl e, s')
                 | (Inr _, s') \<Rightarrow>
                     (case MemoryStore_Read ctx (ml_threadID live) m1 of
                        Inl e \<Rightarrow> (Inl (ThreadErr e), s')
                      | Inr st \<Rightarrow> (Inr (open_live m1 live (fp_Source p) st), s'))))))"

definition jsonl_Read :: "go_ctx \<Rightarrow> string \<Rightarrow> jsonl_store \<Rightarrow> (jsonl_error, stored) result" where
  "jsonl_Read ctx tid s = rbind (loadMemory ctx s) (\<lambda>m. lift_thread (MemoryStore_Read ctx tid m))"

definition jsonl_List ::
  "go_ctx \<Rightarrow> string list \<Rightarrow> list_params \<Rightarrow> jsonl_store \<Rightarrow> (jsonl_error, stored list) result" where
  "jsonl_List ctx iter p s = rbind (loadMemory ctx s) (\<lambda>m. lift_thread (MemoryStore_List ctx iter p m))"

definition jsonl_setArchived ::
  "(memory_store \<Rightarrow> (thread_error, unit) result \<times> memory_store) \<Rightarrow> go_ctx \<Rightarrow> string list \<Rightarrow> jsonl_store \<Rightarrow>
     (jsonl_error, unit) result \<times> jsonl_store" where
  "jsonl_setArchived op ctx iter s =
     (case loadMemory ctx s of Inl e \<Rightarrow> (Inl e, s) | Inr m0 \<Rightarrow>
        (case op m0 of (Inl e, _) \<Rightarrow> (Inl (ThreadErr e), s) | (Inr _, m1) \<Rightarrow> jsonl_rewrite ctx iter m1 s))"

definition jsonl_Archive where
  "jsonl_Archive ctx g iter tid = jsonl_setArchived (MemoryStore_Archive ctx g tid) ctx iter"

definition jsonl_Unarchive where
  "jsonl_Unarchive ctx g iter tid = jsonl_setArchived (MemoryStore_Unarchive ctx g tid) ctx iter"

text \<open>\<^verbatim>\<open>appendThreadFile\<close>: the lines before the first event that does not encode are written.\<close>

definition appendThreadFile :: "string \<Rightarrow> event list \<Rightarrow> jsonl_store \<Rightarrow> (jsonl_error, unit) result \<times> jsonl_store" where
  "appendThreadFile path es s =
     (if es = [] then (Inr (), s)
      else
        let old = (case fmlookup (js_files s) path of None \<Rightarrow> [] | Some ls \<Rightarrow> ls);
            s' = s\<lparr>js_files := fmupd path (old @ map event_line (takeWhile encodable es)) (js_files s)\<rparr>
        in (if \<forall>e \<in> set es. encodable e then Inr () else Inl EncodeErr, s'))"

definition liveThread_Append ::
  "go_ctx \<Rightarrow> gen \<Rightarrow> event list \<Rightarrow> live_thread \<Rightarrow> jsonl_store \<Rightarrow>
     (jsonl_error, unit) result \<times> live_thread \<times> jsonl_store" where
  "liveThread_Append ctx g es l s =
     (if lt_closed l then (Inl (JLiveClosed (lt_threadID l)), l, s)
      else if es = [] then (Inr (), l, s)
      else case MemoryStore_Resume ctx
          \<lparr>rp_ID = lt_threadID l, rp_BranchID = lt_branchID l, rp_Source = lt_source l\<rparr> (lt_memory l) of
        Inl e \<Rightarrow> (Inl (ThreadErr e), l, s)
      | Inr live \<Rightarrow>
          (case memoryLive_Append ctx g live es (lt_memory l) of
             (Inl e, m) \<Rightarrow> (Inl (ThreadErr e), l\<lparr>lt_memory := m\<rparr>, s)
           | (Inr _, m) \<Rightarrow>
               (let l1 = l\<lparr>lt_memory := m\<rparr> in
                case MemoryStore_Read ctx (lt_threadID l) m of
                  Inl e \<Rightarrow> (Inl (ThreadErr e), l1, s)
                | Inr st \<Rightarrow>
                    (let appended = filter (\<lambda>e. ev_Seq e \<ge> lt_nextSeq l) (st_Events st) in
                     if appended = [] then (Inr (), l1, s)
                     else case appendThreadFile (jsonl_path (lt_threadID l)) appended s of
                       (Inl e, s') \<Rightarrow> (Inl e, l1, s')
                     | (Inr _, s') \<Rightarrow> (Inr (), l1\<lparr>lt_nextSeq := jsonl_nextSeq (st_Events st)\<rparr>, s')))))"

definition liveThread_Shutdown :: "live_thread \<Rightarrow> live_thread" where
  "liveThread_Shutdown l = l\<lparr>lt_closed := True\<rparr>"

definition liveThread_Discard ::
  "go_ctx \<Rightarrow> live_thread \<Rightarrow> jsonl_store \<Rightarrow> (jsonl_error, unit) result \<times> live_thread \<times> jsonl_store" where
  "liveThread_Discard ctx l s =
     (let s' = s\<lparr>js_files := fmdrop (jsonl_path (lt_threadID l)) (js_files s)\<rparr> in
      case MemoryStore_DiscardThread ctx (lt_threadID l) (lt_memory l) of
        (r, m) \<Rightarrow> (lift_thread r, l\<lparr>lt_closed := True, lt_memory := m\<rparr>, s'))"


section \<open>Lines\<close>

lemma record_names [simp]:
  "fold_name ''version'' = ''version''" "fold_name ''id'' = ''id''" "fold_name ''thread_id'' = ''thread_id''"
  "fold_name ''branch_id'' = ''branch_id''" "fold_name ''node_id'' = ''node_id''"
  "fold_name ''parent_node_id'' = ''parent_node_id''" "fold_name ''seq'' = ''seq''"
  "fold_name ''kind'' = ''kind''" "fold_name ''schema_version'' = ''schema_version''"
  "fold_name ''payload'' = ''payload''" "fold_name ''at'' = ''at''" "fold_name ''source'' = ''source''"
  "fold_name ''causation_id'' = ''causation_id''" "fold_name ''correlation_id'' = ''correlation_id''"
  "fold_name ''type'' = ''type''" "fold_name ''session_id'' = ''session_id''"
  by code_simp+

lemma dec_enc_source: "dec_struct source_handlers (enc_source x) no_source = Inr x"
  by (simp add: enc_source_def dec_fields_append dec_fields_omit_str source_handlers_def no_source_def)

definition record_ok :: "line_record \<Rightarrow> bool" where
  "record_ok r \<longleftrightarrow> int64_range (lr_Version r) \<and> int64_range (lr_Seq r) \<and> int64_range (lr_SchemaVersion r) \<and>
     (case lr_Payload r of BadBytes _ \<Rightarrow> False | _ \<Rightarrow> True)"

lemma dec_enc_record: "record_ok r \<Longrightarrow> dec_record (enc_record r) no_record = Inr r"
  by (simp add: dec_record_def enc_record_def no_record_def dec_fields_append dec_fields_omit_str
      dec_fields_omit_int dec_fields_omit_raw record_handlers_def at_field_apply dec_enc_source
      record_ok_def split: rawmsg.splits)

interpretation line_codec: codec enc_record dec_record no_record record_ok
  by unfold_locales (rule dec_enc_record)


text \<open>What a line keeps of an event: everything, once the integers fit their Go types.\<close>

definition line_ok :: "event \<Rightarrow> bool" where
  "line_ok e \<longleftrightarrow> encodable e \<and> int64_range (ev_Seq e) \<and> 0 < ev_SchemaVersion e \<and> int64_range (ev_SchemaVersion e)"

lemma line_ok_record: "line_ok e \<Longrightarrow> record_ok (jsonl_encode e)"
  by (auto simp: line_ok_def record_ok_def jsonl_encode_def encodable_def int64_range_def
      normalizedEventSchemaVersion_def CurrentEventSchemaVersion_def split: rawmsg.splits)

lemma jsonl_decode_encode: "0 < ev_SchemaVersion e \<Longrightarrow> jsonl_decode (jsonl_encode e) = e"
  by (cases e) (simp add: jsonl_decode_def jsonl_encode_def normalizedEventSchemaVersion_def)

lemma decode_event_lines: "\<forall>e \<in> set es. line_ok e \<Longrightarrow> decode_lines (map event_line es) = Inr es"
proof (induction es)
  case (Cons e es)
  then have "Unmarshal dec_record (event_line e) no_record = Inr (jsonl_encode e)"
    using line_codec.unmarshal_marshal [OF line_ok_record] by (simp add: event_line_def)
  moreover have "event_line e \<noteq> NoBytes" by (simp add: event_line_def)
  moreover have "jsonl_decode (jsonl_encode e) = e"
    using Cons.prems by (simp add: jsonl_decode_encode line_ok_def)
  ultimately show ?case using Cons by simp
qed simp

section \<open>Importing one thread among others\<close>

lemma import_event_local:
  assumes "ev_ThreadID e = tid" "fmlookup (ms_threads s1) tid = fmlookup (ms_threads s2) tid"
    "ms_registry s1 = ms_registry s2" "import_event s1 e = (Inr (), s1')"
  shows "\<exists>t. s1' = put_thread tid t s1 \<and> import_event s2 e = (Inr (), put_thread tid t s2)"
proof -
  have v: "validateEvent s1 x = validateEvent s2 x" for x by (rule validateEvent_registry [OF assms(3)])
  show ?thesis
    using assms(1,2,4) unfolding import_event_def v
    by (auto simp: Let_def split: if_splits sum.splits)
qed

lemma import_events_local:
  assumes "es \<noteq> []" "\<forall>e \<in> set es. ev_ThreadID e = tid"
    "fmlookup (ms_threads s1) tid = fmlookup (ms_threads s2) tid"
    "ms_registry s1 = ms_registry s2" "import_events s1 es = (Inr (), s1')"
  shows "\<exists>t. s1' = put_thread tid t s1 \<and> import_events s2 es = (Inr (), put_thread tid t s2)"
  using assms
proof (induction es arbitrary: s1 s2)
  case (Cons e es)
  from Cons.prems(5) obtain x where x: "import_event s1 e = (Inr (), x)" "import_events x es = (Inr (), s1')"
    by (auto split: prod.splits sum.splits)
  from import_event_local [OF _ Cons.prems(3,4) x(1)] Cons.prems(2)
  obtain t where t: "x = put_thread tid t s1" "import_event s2 e = (Inr (), put_thread tid t s2)" by auto
  show ?case
  proof (cases "es = []")
    case True
    with t x show ?thesis by auto
  next
    case False
    have "\<exists>u. s1' = put_thread tid u x \<and>
        import_events (put_thread tid t s2) es = (Inr (), put_thread tid u (put_thread tid t s2))"
      by (rule Cons.IH [OF False]) (use Cons.prems x t in simp_all)
    with t show ?thesis by auto
  qed
qed simp

lemma thread_log_nonempty: "thread_inv t \<Longrightarrow> mt_events t \<noteq> []"
  by (auto simp: thread_inv_def log_seqs_def)

lemma load_thread:
  assumes "thread_inv t" "replayed r t" "\<forall>e \<in> set (mt_events t). line_ok e"
    "ms_registry m = r" "fmlookup (ms_threads m) (mt_id t) = None"
  shows "\<exists>t'. loadThreadFile None m (map event_line (mt_events t)) = Inr (put_thread (mt_id t) t' m) \<and>
    same_thread t t'"
proof -
  obtain t' where t': "import_events (NewMemoryStore r) (mt_events t)
      = (Inr (), put_thread (mt_id t) t' (NewMemoryStore r))" "same_thread t t'"
    using assms(2) by (auto simp: replayed_def)
  have tid: "\<forall>e \<in> set (mt_events t). ev_ThreadID e = mt_id t"
    using assms(1) by (simp add: thread_inv_def event_ok_def)
  have "fmlookup (ms_threads (NewMemoryStore r)) (mt_id t) = fmlookup (ms_threads m) (mt_id t)"
    using assms(5) by (simp add: NewMemoryStore_def)
  from import_events_local [OF thread_log_nonempty [OF assms(1)] tid this _ t'(1)] assms(4)
  obtain u where u: "put_thread (mt_id t) t' (NewMemoryStore r) = put_thread (mt_id t) u (NewMemoryStore r)"
    "import_events m (mt_events t) = (Inr (), put_thread (mt_id t) u m)" by auto
  from u(1) have "u = t'" by (metis lookup_put option.inject)
  with u(2) t'(2) decode_event_lines [OF assms(3)] show ?thesis
    by (auto simp: loadThreadFile_def MemoryStore_Import_def)
qed


section \<open>What the directory represents\<close>

definition same_store :: "memory_store \<Rightarrow> memory_store \<Rightarrow> bool" where
  "same_store m m' \<longleftrightarrow> ms_registry m' = ms_registry m \<and>
     (\<forall>tid. rel_option same_thread (fmlookup (ms_threads m) tid) (fmlookup (ms_threads m') tid))"

text \<open>
  The directory represents a memory store: each thread's file holds the lines of its log, and every
  \<^verbatim>\<open>.jsonl\<close> file is a thread's.
\<close>

definition disk_rep :: "jsonl_store \<Rightarrow> memory_store \<Rightarrow> bool" where
  "disk_rep s m \<longleftrightarrow> js_dir s \<noteq> [] \<and> replay_inv (js_registry s) m \<and>
     (\<forall>tid t. fmlookup (ms_threads m) tid = Some t \<longrightarrow>
        fmlookup (js_files s) (jsonl_path tid) = Some (map event_line (mt_events t)) \<and>
        (\<forall>e \<in> set (mt_events t). line_ok e)) \<and>
     (\<forall>name \<in> fset (fmdom (js_files s)). HasSuffix name ''.jsonl'' \<longrightarrow>
        (\<exists>tid. name = jsonl_path tid \<and> fmlookup (ms_threads m) tid \<noteq> None))"

lemma jsonl_path_inject [simp]: "jsonl_path a = jsonl_path b \<longleftrightarrow> a = b"
  by (simp add: jsonl_path_def)

lemma jsonl_path_suffix [simp]: "HasSuffix (jsonl_path tid) ''.jsonl''"
  by (auto simp: jsonl_path_def HasSuffix_iff)

lemma same_thread_inv: "same_thread t t' \<Longrightarrow> thread_inv t \<Longrightarrow> thread_inv t'"
  by (simp add: same_thread_iff thread_inv_def log_seqs_def event_ok_def)

lemma same_thread_replayed: "same_thread t t' \<Longrightarrow> replayed r t \<Longrightarrow> replayed r t'"
  by (auto simp: replayed_def same_thread_iff)

lemma same_storeD:
  assumes "same_store m m'"
  shows "fmlookup (ms_threads m') tid = None \<longleftrightarrow> fmlookup (ms_threads m) tid = None"
    "fmlookup (ms_threads m') tid = Some t' \<Longrightarrow> \<exists>t. fmlookup (ms_threads m) tid = Some t \<and> same_thread t t'"
    "fmlookup (ms_threads m) tid = Some t \<Longrightarrow> \<exists>t'. fmlookup (ms_threads m') tid = Some t' \<and> same_thread t t'"
proof -
  have r: "rel_option same_thread (fmlookup (ms_threads m) tid) (fmlookup (ms_threads m') tid)"
    using assms by (simp add: same_store_def)
  show "fmlookup (ms_threads m') tid = None \<longleftrightarrow> fmlookup (ms_threads m) tid = None"
    using r by (cases "fmlookup (ms_threads m) tid"; cases "fmlookup (ms_threads m') tid") simp_all
  show "fmlookup (ms_threads m') tid = Some t' \<Longrightarrow> \<exists>t. fmlookup (ms_threads m) tid = Some t \<and> same_thread t t'"
    using r by (cases "fmlookup (ms_threads m) tid") simp_all
  show "fmlookup (ms_threads m) tid = Some t \<Longrightarrow> \<exists>t'. fmlookup (ms_threads m') tid = Some t' \<and> same_thread t t'"
    using r by (cases "fmlookup (ms_threads m') tid") simp_all
qed

lemma disk_rep_same:
  assumes "disk_rep s m" "same_store m m'"
  shows "disk_rep s m'"
proof -
  have "replay_inv (js_registry s) m'"
    unfolding replay_inv_def store_inv_def
  proof (intro conjI allI impI)
    show "ms_registry m' = js_registry s" using assms by (simp add: disk_rep_def replay_inv_def same_store_def)
    fix tid t' assume "fmlookup (ms_threads m') tid = Some t'"
    then obtain t where t: "fmlookup (ms_threads m) tid = Some t" "same_thread t t'"
      using same_storeD(2) [OF assms(2)] by blast
    then have "mt_id t = tid" "thread_inv t" "replayed (js_registry s) t"
      using assms(1) by (auto simp: disk_rep_def replay_inv_def store_inv_def)
    with t(2) show "mt_id t' = tid" "thread_inv t'" "replayed (js_registry s) t'"
      using same_thread_inv same_thread_replayed by (auto simp: same_thread_iff)
  qed
  moreover have "fmlookup (js_files s) (jsonl_path tid) = Some (map event_line (mt_events t')) \<and>
      (\<forall>e \<in> set (mt_events t'). line_ok e)" if "fmlookup (ms_threads m') tid = Some t'" for tid t'
    using same_storeD(2) [OF assms(2) that] assms(1) by (auto simp: disk_rep_def same_thread_iff)
  moreover have "\<exists>tid. name = jsonl_path tid \<and> fmlookup (ms_threads m') tid \<noteq> None"
    if "name \<in> fset (fmdom (js_files s))" "HasSuffix name ''.jsonl''" for name
    using assms(1) that same_storeD(1) [OF assms(2)] unfolding disk_rep_def by metis
  moreover have "js_dir s \<noteq> []" using assms(1) by (simp add: disk_rep_def)
  ultimately show ?thesis by (simp add: disk_rep_def)
qed

lemma load_files:
  assumes "distinct (map fst fs)" "ms_registry m0 = r"
    "\<forall>f \<in> set fs. \<exists>t. fst f = jsonl_path (mt_id t) \<and> P (mt_id t) = Some t \<and> snd f = map event_line (mt_events t) \<and>
       thread_inv t \<and> replayed r t \<and> (\<forall>e \<in> set (mt_events t). line_ok e)"
    "\<forall>tid. jsonl_path tid \<in> fst ` set fs \<longrightarrow> fmlookup (ms_threads m0) tid = None"
  shows "\<exists>m1. rfold (\<lambda>m f. loadThreadFile None m (snd f)) m0 fs = Inr m1 \<and> ms_registry m1 = r \<and>
    (\<forall>tid. if jsonl_path tid \<in> fst ` set fs then rel_option same_thread (P tid) (fmlookup (ms_threads m1) tid)
           else fmlookup (ms_threads m1) tid = fmlookup (ms_threads m0) tid)"
  using assms
proof (induction fs arbitrary: m0)
  case (Cons f fs)
  from Cons.prems(3) obtain t where t: "fst f = jsonl_path (mt_id t)" "P (mt_id t) = Some t"
    "snd f = map event_line (mt_events t)" "thread_inv t" "replayed r t" "\<forall>e \<in> set (mt_events t). line_ok e" by auto
  from Cons.prems(4) t(1) have "fmlookup (ms_threads m0) (mt_id t) = None" by auto
  from load_thread [OF t(4-6) Cons.prems(2) this] obtain t' where t':
    "loadThreadFile None m0 (snd f) = Inr (put_thread (mt_id t) t' m0)" "same_thread t t'"
    using t(3) by auto
  let ?m = "put_thread (mt_id t) t' m0"
  have nin: "jsonl_path (mt_id t) \<notin> fst ` set fs" using Cons.prems(1) t(1) by auto
  then have "\<forall>tid. jsonl_path tid \<in> fst ` set fs \<longrightarrow> fmlookup (ms_threads ?m) tid = None"
    using Cons.prems(4) by (auto simp: put_thread_def)
  from Cons.IH [OF _ _ _ this] Cons.prems obtain m1 where
    m1: "rfold (\<lambda>m f. loadThreadFile None m (snd f)) ?m fs = Inr m1" "ms_registry m1 = r"
    "\<And>tid. if jsonl_path tid \<in> fst ` set fs then rel_option same_thread (P tid) (fmlookup (ms_threads m1) tid)
           else fmlookup (ms_threads m1) tid = fmlookup (ms_threads ?m) tid" by auto
  have "fmlookup (ms_threads m1) (mt_id t) = Some t'"
    using m1(3) [of "mt_id t"] nin by simp
  then have "if jsonl_path tid \<in> fst ` set (f # fs) then rel_option same_thread (P tid) (fmlookup (ms_threads m1) tid)
      else fmlookup (ms_threads m1) tid = fmlookup (ms_threads m0) tid" for tid
    using m1(3) [of tid] t(1,2) t'(2) by (cases "tid = mt_id t") (auto simp: put_thread_def)
  then show ?case using m1(1,2) t'(1) by auto
qed simp

lemma thread_files_fst: "fst ` set (thread_files fs) = {n \<in> fset (fmdom fs). HasSuffix n ''.jsonl''}"
  by (auto simp: thread_files_def sorted_list_of_fmap_def image_iff)

lemma thread_files_mem: "f \<in> set (thread_files fs) \<Longrightarrow>
    fmlookup fs (fst f) = Some (snd f) \<and> HasSuffix (fst f) ''.jsonl''"
  by (auto simp: thread_files_def sorted_list_of_fmap_def fmlookup_dom_iff)

lemma thread_files_distinct: "distinct (map fst (thread_files fs))"
proof -
  have "map fst (sorted_list_of_fmap fs) = sorted_list_of_fset (fmdom fs)"
    by (simp add: sorted_list_of_fmap_def comp_def)
  moreover have "distinct (sorted_list_of_fset (fmdom fs))" by (simp add: sorted_list_of_fset.rep_eq)
  ultimately show ?thesis unfolding thread_files_def by (metis distinct_map_filter)
qed

text \<open>Loading a directory gives the store it represents.\<close>

lemma load_disk:
  assumes "disk_rep s m"
  shows "\<exists>m'. loadMemory None s = Inr m' \<and> same_store m m'"
proof -
  let ?fs = "thread_files (js_files s)" and ?r = "js_registry s"
  have inv: "replay_inv ?r m" using assms by (simp add: disk_rep_def)
  have "\<exists>t. fst f = jsonl_path (mt_id t) \<and> fmlookup (ms_threads m) (mt_id t) = Some t \<and>
      snd f = map event_line (mt_events t) \<and> thread_inv t \<and> replayed ?r t \<and> (\<forall>e \<in> set (mt_events t). line_ok e)"
    if f: "f \<in> set ?fs" for f
  proof -
    have lf: "fmlookup (js_files s) (fst f) = Some (snd f)" "HasSuffix (fst f) ''.jsonl''"
      using thread_files_mem [OF f] by auto
    then obtain tid t where t: "fst f = jsonl_path tid" "fmlookup (ms_threads m) tid = Some t"
      using assms by (fastforce simp: disk_rep_def dest: fmdomI)
    then have "mt_id t = tid" "thread_inv t" "replayed ?r t"
      using inv by (auto simp: replay_inv_def store_inv_def)
    moreover have "snd f = map event_line (mt_events t)" "\<forall>e \<in> set (mt_events t). line_ok e"
      using assms t lf(1) by (auto simp: disk_rep_def)
    ultimately show ?thesis using t by blast
  qed
  from load_files [OF thread_files_distinct, of "NewMemoryStore ?r" ?r "js_files s" "fmlookup (ms_threads m)"] this
  obtain m1 where m1: "rfold (\<lambda>m f. loadThreadFile None m (snd f)) (NewMemoryStore ?r) ?fs = Inr m1"
    "ms_registry m1 = ?r"
    "\<And>tid. if jsonl_path tid \<in> fst ` set ?fs then rel_option same_thread (fmlookup (ms_threads m) tid) (fmlookup (ms_threads m1) tid)
       else fmlookup (ms_threads m1) tid = fmlookup (ms_threads (NewMemoryStore ?r)) tid"
    by (auto simp: NewMemoryStore_def)
  have "rel_option same_thread (fmlookup (ms_threads m) tid) (fmlookup (ms_threads m1) tid)" for tid
  proof (cases "jsonl_path tid \<in> fst ` set ?fs")
    case False
    then have "fmlookup (js_files s) (jsonl_path tid) = None"
      by (auto simp: thread_files_fst fmlookup_dom_iff)
    then have "fmlookup (ms_threads m) tid = None"
      using assms unfolding disk_rep_def by (metis option.distinct(1) option.exhaust)
    with False m1(3) [of tid] show ?thesis by (simp add: NewMemoryStore_def)
  qed (use m1(3) [of tid] in simp)
  then have "same_store m m1" using m1(2) inv by (simp add: same_store_def replay_inv_def)
  with m1(1) assms show ?thesis by (auto simp: loadMemory_def jsonl_ensure_def disk_rep_def)
qed


section \<open>Writing back\<close>

text \<open>An order in which Go may range over the threads of a store.\<close>

definition enumerates :: "string list \<Rightarrow> memory_store \<Rightarrow> bool" where
  "enumerates iter m \<longleftrightarrow> distinct iter \<and> set iter = fset (fmdom (ms_threads m))"

lemma write_threads_success:
  assumes "write_threads ts s = (Inr (), s')" "distinct (map st_ID ts)"
  shows "js_dir s' = js_dir s \<and> js_registry s' = js_registry s \<and>
    (\<forall>t \<in> set ts. fmlookup (js_files s') (jsonl_path (st_ID t)) = Some (map event_line (st_Events t)) \<and>
       (\<forall>e \<in> set (st_Events t). encodable e)) \<and>
    (\<forall>n. n \<notin> jsonl_path ` st_ID ` set ts \<longrightarrow> fmlookup (js_files s') n = fmlookup (js_files s) n)"
  using assms
proof (induction ts arbitrary: s)
  case (Cons t ts)
  then have enc: "\<forall>e \<in> set (st_Events t). encodable e"
    by (auto simp: writeThreadFile_def split: if_splits)
  let ?s = "s\<lparr>js_files := fmupd (jsonl_path (st_ID t)) (map event_line (st_Events t)) (js_files s)\<rparr>"
  have w: "write_threads ts ?s = (Inr (), s')" using Cons.prems(1) enc by (simp add: writeThreadFile_def)
  have d: "distinct (map st_ID ts)" "st_ID t \<notin> st_ID ` set ts" using Cons.prems(2) by auto
  note IH = Cons.IH [OF w d(1)]
  have "jsonl_path (st_ID t) \<notin> jsonl_path ` st_ID ` set ts" using d(2) by (auto simp: image_iff)
  then have "fmlookup (js_files s') (jsonl_path (st_ID t)) = Some (map event_line (st_Events t))"
    using IH by simp
  with IH enc show ?case by auto
qed simp

lemma map_filter_all:
  "\<forall>x \<in> set xs. f x \<noteq> None \<Longrightarrow> List.map_filter f xs = map (\<lambda>x. the (f x)) xs"
  by (induction xs) auto

lemma list_all_threads:
  assumes "enumerates iter m" "store_inv m"
  obtains ts where "MemoryStore_List None iter \<lparr>lp_IncludeArchived = True, lp_Limit = 0\<rparr> m = Inr ts"
    "distinct (map st_ID ts)" "set ts = {snapshot t | t tid. fmlookup (ms_threads m) tid = Some t}"
proof -
  let ?kept = "map snapshot (List.map_filter (fmlookup (ms_threads m)) iter)"
  have some: "\<forall>x \<in> set iter. fmlookup (ms_threads m) x \<noteq> None"
    using assms(1) by (auto simp: enumerates_def fmlookup_dom_iff)
  have kept: "?kept = map (\<lambda>x. snapshot (the (fmlookup (ms_threads m) x))) iter"
    by (simp add: map_filter_all [OF some])
  have "map st_ID ?kept = iter"
    unfolding kept using assms(2) some by (auto simp: store_inv_def intro!: map_idI)
  then have "distinct (map st_ID ?kept)" using assms(1) by (simp add: enumerates_def)
  moreover have "set ?kept = {snapshot t | t tid. fmlookup (ms_threads m) tid = Some t}"
    unfolding kept using assms(1) by (force simp: enumerates_def fmlookup_dom_iff)
  moreover have "MemoryStore_List None iter \<lparr>lp_IncludeArchived = True, lp_Limit = 0\<rparr> m
      = Inr (sort_key (\<lambda>x. - st_UpdatedAt x) ?kept)"
    by (simp add: MemoryStore_List_def)
  moreover have "distinct (map st_ID (sort_key (\<lambda>x. - st_UpdatedAt x) ?kept)) = distinct (map st_ID ?kept)"
    by (rule mset_eq_imp_distinct_iff) (simp only: mset_map mset_sort)
  ultimately show ?thesis using that by simp
qed

text \<open>The integers of a store's log fit the Go types that hold them.\<close>

definition ints_ok :: "memory_store \<Rightarrow> bool" where
  "ints_ok m \<longleftrightarrow> (\<forall>tid t. fmlookup (ms_threads m) tid = Some t \<longrightarrow> (\<forall>e \<in> set (mt_events t).
     int64_range (ev_Seq e) \<and> 0 < ev_SchemaVersion e \<and> int64_range (ev_SchemaVersion e)))"

lemma rewrite_rep:
  assumes "jsonl_rewrite None iter m1 s = (Inr (), s')" "enumerates iter m1" "replay_inv (js_registry s) m1"
    "ints_ok m1" "disk_rep s m0" "\<And>tid. fmlookup (ms_threads m0) tid \<noteq> None \<Longrightarrow> fmlookup (ms_threads m1) tid \<noteq> None"
  shows "disk_rep s' m1"
proof -
  have si: "store_inv m1" using assms(3) by (simp add: replay_inv_def)
  obtain ts where ts: "MemoryStore_List None iter \<lparr>lp_IncludeArchived = True, lp_Limit = 0\<rparr> m1 = Inr ts"
    "distinct (map st_ID ts)" "set ts = {snapshot t | t tid. fmlookup (ms_threads m1) tid = Some t}"
    using list_all_threads [OF assms(2) si] .
  have dir: "js_dir s \<noteq> []" using assms(5) by (simp add: disk_rep_def)
  then have "write_threads ts s = (Inr (), s')"
    using assms(1) ts(1) by (simp add: jsonl_rewrite_def jsonl_ensure_def)
  note w = write_threads_success [OF this ts(2)]
  have lines: "fmlookup (js_files s') (jsonl_path tid) = Some (map event_line (mt_events t)) \<and>
      (\<forall>e \<in> set (mt_events t). line_ok e)" if t: "fmlookup (ms_threads m1) tid = Some t" for tid t
  proof -
    have "snapshot t \<in> set ts" using t ts(3) by auto
    moreover have "mt_id t = tid" using si t by (simp add: store_inv_def)
    ultimately show ?thesis using w assms(4) t by (fastforce simp: line_ok_def ints_ok_def)
  qed
  have "\<exists>tid. n = jsonl_path tid \<and> fmlookup (ms_threads m1) tid \<noteq> None"
    if n: "n \<in> fset (fmdom (js_files s'))" "HasSuffix n ''.jsonl''" for n
  proof (cases "n \<in> jsonl_path ` st_ID ` set ts")
    case True
    then obtain t tid where "fmlookup (ms_threads m1) tid = Some t" "n = jsonl_path (mt_id t)"
      unfolding ts(3) by auto
    then show ?thesis using si by (auto simp: store_inv_def)
  next
    case False
    then have "n \<in> fset (fmdom (js_files s))" using n(1) w by (simp add: fmlookup_dom_iff)
    then obtain tid where "n = jsonl_path tid" "fmlookup (ms_threads m0) tid \<noteq> None"
      using n(2) assms(5) unfolding disk_rep_def by blast
    then show ?thesis using assms(6) by blast
  qed
  with lines dir w assms(3) show ?thesis by (simp add: disk_rep_def)
qed


section \<open>Simulation by the memory store\<close>

text \<open>
  The writing calls of the store, each a load, a memory operation and a rewrite. The last argument
  is the memory store the call computed.
\<close>

inductive jsonl_step :: "jsonl_store \<Rightarrow> jsonl_store \<Rightarrow> memory_store \<Rightarrow> bool" where
  create: "gen_ok g \<Longrightarrow> distinct (map fst (cp_Metadata p)) \<Longrightarrow>
    jsonl_Create ctx g iter p s = (Inr l, s') \<Longrightarrow> enumerates iter (lt_memory l) \<Longrightarrow> ints_ok (lt_memory l) \<Longrightarrow>
    jsonl_step s s' (lt_memory l)"
| fork: "gen_ok g \<Longrightarrow> jsonl_Fork ctx g iter fp s = (Inr l, s') \<Longrightarrow>
    enumerates iter (lt_memory l) \<Longrightarrow> ints_ok (lt_memory l) \<Longrightarrow> jsonl_step s s' (lt_memory l)"
| archive: "jsonl_Archive ctx g iter tid s = (Inr (), s') \<Longrightarrow> loadMemory ctx s = Inr m0 \<Longrightarrow>
    MemoryStore_Archive ctx g tid m0 = (Inr (), m1) \<Longrightarrow> enumerates iter m1 \<Longrightarrow> ints_ok m1 \<Longrightarrow> jsonl_step s s' m1"
| unarchive: "jsonl_Unarchive ctx g iter tid s = (Inr (), s') \<Longrightarrow> loadMemory ctx s = Inr m0 \<Longrightarrow>
    MemoryStore_Unarchive ctx g tid m0 = (Inr (), m1) \<Longrightarrow> enumerates iter m1 \<Longrightarrow> ints_ok m1 \<Longrightarrow> jsonl_step s s' m1"

lemma Create_success_live: "MemoryStore_Create ctx g p s = (Inr l, s') \<Longrightarrow> ctx = None"
  by (auto simp: MemoryStore_Create_def split: option.splits)

lemma setArchived_success: "setArchived ctx g tid a k s = (Inr (), s') \<Longrightarrow> ctx = None"
  by (auto simp: setArchived_def split: option.splits)

lemma fork_seq_logged:
  assumes "MemoryStore_Fork ctx g p m0 = (Inr live, m1)" "ints_ok m1" "store_inv m0"
  obtains t where "fmlookup (ms_threads m0) (fp_ID p) = Some t" "int64_range (mt_nextSeq t - 1)"
  using assms(1)
proof (rule Fork_success)
  fix t "from" to fb
  assume t: "fmlookup (ms_threads m0) (fp_ID p) = Some t"
    and m1: "m1 = put_thread (fp_ID p) (push_event g to (t\<lparr>mt_branches := fmupd to
      \<lparr>br_ID = to, br_Parent = from, br_ForkSeq = mt_nextSeq t - 1, br_CreatedAt = g_now g\<rparr>
      (mt_branches t)\<rparr>) (fork_event p from to (mt_nextSeq t - 1) (g_now g))) m0"
  have "thread_inv t" using store_invD [OF assms(3) t] by simp
  then have "2 \<le> mt_nextSeq t" by (simp add: thread_inv_def log_seqs_def)
  moreover have "fmlookup (ms_threads m1) (fp_ID p) = Some (push_event g to (t\<lparr>mt_branches := fmupd to
      \<lparr>br_ID = to, br_Parent = from, br_ForkSeq = mt_nextSeq t - 1, br_CreatedAt = g_now g\<rparr>
      (mt_branches t)\<rparr>) (fork_event p from to (mt_nextSeq t - 1) (g_now g)))"
    by (simp add: m1)
  then have "int64_range (mt_nextSeq t)" using assms(2) unfolding ints_ok_def by fastforce
  ultimately have "int64_range (mt_nextSeq t - 1)" by (simp add: int64_range_def)
  with t that show thesis by blast
qed

lemma jsonl_step_memory:
  assumes "jsonl_step s s' m1" "disk_rep s m"
  shows "\<exists>m0 iter. loadMemory None s = Inr m0 \<and> logged_step m0 m1 \<and> jsonl_rewrite None iter m1 s = (Inr (), s') \<and>
    enumerates iter m1 \<and> ints_ok m1 \<and>
    (\<forall>tid. fmlookup (ms_threads m0) tid \<noteq> None \<longrightarrow> fmlookup (ms_threads m1) tid \<noteq> None)"
  using assms
proof (induction rule: jsonl_step.induct)
  case (create g p ctx iter s l s')
  then obtain m0 live where m: "loadMemory ctx s = Inr m0" "MemoryStore_Create ctx g p m0 = (Inr live, lt_memory l)"
    "jsonl_rewrite ctx iter (lt_memory l) s = (Inr (), s')"
    by (auto simp: jsonl_Create_def open_live_def split: sum.splits prod.splits)
  have "fmlookup (ms_threads (lt_memory l)) tid \<noteq> None" if "fmlookup (ms_threads m0) tid \<noteq> None" for tid
    by (rule Create_success [OF m(2)]) (use that in \<open>simp add: put_thread_def\<close>)
  then show ?case
    using m create Create_success_live [OF m(2)] logged_step.create by blast
next
  case (fork g ctx iter fp s l s')
  then obtain m0 live where m: "loadMemory ctx s = Inr m0" "MemoryStore_Fork ctx g fp m0 = (Inr live, lt_memory l)"
    "jsonl_rewrite ctx iter (lt_memory l) s = (Inr (), s')"
    by (auto simp: jsonl_Fork_def open_live_def split: sum.splits prod.splits)
  have ctx: "ctx = None" by (rule Fork_success [OF m(2)])
  have "fmlookup (ms_threads (lt_memory l)) tid \<noteq> None" if "fmlookup (ms_threads m0) tid \<noteq> None" for tid
    by (rule Fork_success [OF m(2)]) (use that in \<open>simp add: put_thread_def\<close>)
  moreover have "store_inv m0"
    using load_disk [OF fork.prems] disk_rep_same [OF fork.prems] m(1) ctx
    by (auto simp: disk_rep_def replay_inv_def)
  then obtain t where "fmlookup (ms_threads m0) (fp_ID fp) = Some t" "int64_range (mt_nextSeq t - 1)"
    using fork_seq_logged [OF m(2) fork.hyps(4)] by blast
  then have "logged_step m0 (lt_memory l)" using logged_step.fork [OF fork.hyps(1) m(2)] by blast
  ultimately show ?case using m fork.hyps ctx by blast
next
  case (archive ctx g iter tid s s' m0 m1)
  have ctx: "ctx = None" using archive.hyps(3) setArchived_success by (simp add: MemoryStore_Archive_def)
  have "fmlookup (ms_threads m1) k \<noteq> None" if "fmlookup (ms_threads m0) k \<noteq> None" for k
    using archive.hyps(3) that ctx
    by (auto simp: MemoryStore_Archive_def setArchived_def put_thread_def Let_def split: option.splits sum.splits if_splits)
  moreover have "jsonl_rewrite ctx iter m1 s = (Inr (), s')"
    using archive.hyps(1-3) by (simp add: jsonl_Archive_def jsonl_setArchived_def)
  ultimately show ?case using archive.hyps ctx logged_step.archive by blast
next
  case (unarchive ctx g iter tid s s' m0 m1)
  have ctx: "ctx = None" using unarchive.hyps(3) setArchived_success by (simp add: MemoryStore_Unarchive_def)
  have "fmlookup (ms_threads m1) k \<noteq> None" if "fmlookup (ms_threads m0) k \<noteq> None" for k
    using unarchive.hyps(3) that ctx
    by (auto simp: MemoryStore_Unarchive_def setArchived_def put_thread_def Let_def split: option.splits sum.splits if_splits)
  moreover have "jsonl_rewrite ctx iter m1 s = (Inr (), s')"
    using unarchive.hyps(1-3) by (simp add: jsonl_Unarchive_def jsonl_setArchived_def)
  ultimately show ?case using unarchive.hyps ctx logged_step.unarchive by blast
qed



definition demo_disk :: jsonl_store where
  "demo_disk = jsonl_Open ''d'' fmempty None"

lemma demo_disk_rep: "disk_rep demo_disk (NewMemoryStore None)"
  using replay_inv_init [of None]
  by (simp add: disk_rep_def demo_disk_def jsonl_Open_def) (simp add: NewMemoryStore_def)

lemma demo_disk_load: "loadMemory None demo_disk = Inr (NewMemoryStore None)"
  by (simp add: loadMemory_def demo_disk_def jsonl_Open_def jsonl_ensure_def thread_files_def
      sorted_list_of_fmap_def sorted_list_of_fset.rep_eq)

lemma demo_create_mem: "\<exists>live. MemoryStore_Create None demo_gen demo_create (NewMemoryStore None) = (Inr live, demo_store) \<and>
    ml_threadID live = ''t1'' \<and> ml_branchID live = ''main''"
  by (simp add: demo_store_def MemoryStore_Create_def NewMemoryStore_def Let_def demo_gen_def demo_create_def
      MainBranch_def validateEvent_def)

lemma demo_events: "mt_events demo_thread = [created_event demo_gen demo_create ''t1'' ''main'' 5]"
  by (simp add: demo_thread_def)

lemma demo_encodable: "\<forall>e \<in> set (mt_events demo_thread). encodable e"
  by (simp add: demo_events encodable_def created_event_def no_event_def time_json_range_def)

lemma demo_disk_step: "\<exists>s' l. jsonl_Create None demo_gen [''t1''] demo_create demo_disk = (Inr l, s') \<and>
    lt_memory l = demo_store"
proof -
  obtain live where live: "MemoryStore_Create None demo_gen demo_create (NewMemoryStore None) = (Inr live, demo_store)"
    "ml_threadID live = ''t1''" using demo_create_mem by blast
  have r: "MemoryStore_Read None ''t1'' demo_store = Inr (snapshot demo_thread)"
    by (simp add: MemoryStore_Read_def demo_lookup)
  have "MemoryStore_List None [''t1''] \<lparr>lp_IncludeArchived = True, lp_Limit = 0\<rparr> demo_store = Inr [snapshot demo_thread]"
    by (simp add: MemoryStore_List_def demo_lookup List.map_filter_simps)
  then have "\<exists>s'. jsonl_rewrite None [''t1''] demo_store demo_disk = (Inr (), s')"
    using demo_encodable
    by (simp add: jsonl_rewrite_def jsonl_ensure_def demo_disk_def jsonl_Open_def writeThreadFile_def)
  then show ?thesis using live r demo_disk_load
    by (auto simp: jsonl_Create_def jsonl_ensure_def demo_disk_def jsonl_Open_def open_live_def)
qed

lemma demo_ints: "ints_ok demo_store" "enumerates [''t1''] demo_store"
  by (auto simp: ints_ok_def demo_store_eq put_thread_def NewMemoryStore_def demo_events created_event_def
      CurrentEventSchemaVersion_def int64_range_def enumerates_def split: if_splits)


section \<open>Live handles\<close>

lemma jsonl_nextSeq_upto: "0 \<le> n \<Longrightarrow> map ev_Seq es = [1 .. n] \<Longrightarrow> jsonl_nextSeq es = n + 1"
proof -
  assume n: "0 \<le> n" and es: "map ev_Seq es = [1 .. n]"
  have "foldl (\<lambda>m x. if x > m then x else m) 0 [1 .. int k] = int k" for k
    by (induction k) (simp_all add: upto_rec2)
  from this [of "nat n"] n have "foldl (\<lambda>m x. if x > m then x else m) 0 (map ev_Seq es) = n" by (simp add: es)
  moreover have "foldl (\<lambda>m x. if x > m then x else m) 0 (map ev_Seq es) =
      foldl (\<lambda>m e. if ev_Seq e > m then ev_Seq e else m) 0 es"
    by (simp add: foldl_map)
  ultimately show ?thesis by (simp add: jsonl_nextSeq_def)
qed

text \<open>A handle whose view of its thread is the log it last wrote.\<close>

definition handle_ok :: "live_thread \<Rightarrow> memory_thread \<Rightarrow> bool" where
  "handle_ok l t \<longleftrightarrow> store_inv (lt_memory l) \<and> fmlookup (ms_threads (lt_memory l)) (lt_threadID l) = Some t \<and>
     lt_nextSeq l = mt_nextSeq t \<and> lt_branchID l \<noteq> []"

lemma live_append_success:
  assumes "handle_ok l t" "liveThread_Append ctx g es l s = (Inr (), l', s')" "es \<noteq> []"
  shows "\<exists>live t' new. ctx = None \<and> fmlookup (mt_branches t) (lt_branchID l) \<noteq> None \<and>
    live = \<lparr>ml_threadID = lt_threadID l, ml_branchID = lt_branchID l, ml_source = lt_source l, ml_closed = False\<rparr> \<and>
    memoryLive_Append None g live es (lt_memory l) = (Inr (), lt_memory l') \<and>
    t' = appendLocked g (lt_branchID l) t (map (live_event live) es) \<and>
    lt_memory l' = put_thread (lt_threadID l) t' (lt_memory l) \<and>
    mt_events t' = mt_events t @ new \<and> map ev_Seq new = [mt_nextSeq t .. mt_nextSeq t + int (length es) - 1] \<and>
    (\<forall>e \<in> set new. encodable e) \<and>
    s' = s\<lparr>js_files := fmupd (jsonl_path (lt_threadID l))
      ((case fmlookup (js_files s) (jsonl_path (lt_threadID l)) of None \<Rightarrow> [] | Some ls \<Rightarrow> ls) @ map event_line new)
      (js_files s)\<rparr> \<and>
    l' = l\<lparr>lt_memory := lt_memory l', lt_nextSeq := jsonl_nextSeq (mt_events t')\<rparr>"
proof -
  have t: "fmlookup (ms_threads (lt_memory l)) (lt_threadID l) = Some t" "mt_id t = lt_threadID l" "thread_inv t"
    and n: "lt_nextSeq l = mt_nextSeq t" "lt_branchID l \<noteq> []"
    using assms(1) store_invD by (auto simp: handle_ok_def)
  let ?live = "\<lparr>ml_threadID = lt_threadID l, ml_branchID = lt_branchID l, ml_source = lt_source l, ml_closed = False\<rparr>"
  have res: "ctx = None" "fmlookup (mt_branches t) (lt_branchID l) \<noteq> None" and
    app: "\<exists>m. memoryLive_Append None g ?live es (lt_memory l) = (Inr (), m)"
    using assms(2,3) t(1,2) n(2) unfolding liveThread_Append_def MemoryStore_Resume_def
    by (auto simp: Let_def split: if_splits option.splits sum.splits prod.splits)
  then obtain m where m: "memoryLive_Append None g ?live es (lt_memory l) = (Inr (), m)" by blast
  obtain batch where batch: "live_batch (lt_memory l) ?live es = Inr batch"
    "m = put_thread (lt_threadID l) (appendLocked g (lt_branchID l) t batch) (lt_memory l)"
    using Append_success [OF m assms(3)] t(1) by auto
  let ?t' = "appendLocked g (lt_branchID l) t batch"
  obtain new where new: "mt_events ?t' = mt_events t @ new"
    "map ev_Seq new = [mt_nextSeq t .. mt_nextSeq t + int (length batch) - 1]"
    using appendLocked_events [of g "lt_branchID l" t batch] by blast
  have b: "batch = map (live_event ?live) es" by (rule live_batch_map [OF batch(1)])
  have "ev_Seq e \<in> set [mt_nextSeq t .. mt_nextSeq t + int (length batch) - 1]" if "e \<in> set new" for e
    using that by (simp only: new(2) [symmetric] set_map imageI)
  then have "filter (\<lambda>e. ev_Seq e \<ge> lt_nextSeq l) (mt_events ?t') = new"
    using thread_inv_seq_less [OF t(3)] by (force simp: new(1) n(1) filter_empty_conv filter_id_conv)
  moreover have "new \<noteq> []" using new(2) assms(3) b by auto
  ultimately show ?thesis
    using assms(2,3) t(1,2) n(2) res m batch(2) b new
    by (auto simp: liveThread_Append_def MemoryStore_Resume_def MemoryStore_Read_def appendThreadFile_def Let_def
        takeWhile_eq_all_conv [THEN iffD2] split: if_splits)
qed


lemma thread_inv_nextSeq: "thread_inv t \<Longrightarrow> jsonl_nextSeq (mt_events t) = mt_nextSeq t"
  using jsonl_nextSeq_upto [of "mt_nextSeq t - 1" "mt_events t"] by (auto simp: thread_inv_def log_seqs_def)

text \<open>A handle in step with the directory: it is the only writer of its thread so far.\<close>

definition synced :: "jsonl_store \<Rightarrow> memory_store \<Rightarrow> live_thread \<Rightarrow> bool" where
  "synced s m l \<longleftrightarrow> disk_rep s m \<and> replay_inv (js_registry s) (lt_memory l) \<and>
     (\<exists>t tm. handle_ok l t \<and> fmlookup (ms_threads m) (lt_threadID l) = Some tm \<and> same_thread tm t)"

lemma lift_thread_Inr [simp]: "lift_thread r = Inr x \<longleftrightarrow> r = Inr x"
  by (cases r) (simp_all add: lift_thread_def)

lemma resume_synced:
  assumes "disk_rep s m" "jsonl_Resume ctx p s = Inr l"
  shows "synced s (lt_memory l) l"
proof -
  from assms(2) obtain m0 live st where r: "loadMemory ctx s = Inr m0" "MemoryStore_Resume ctx p m0 = Inr live"
    "MemoryStore_Read ctx (ml_threadID live) m0 = Inr st" "l = open_live m0 live (rp_Source p) st"
    by (auto simp: jsonl_Resume_def rbind_Inr_iff)
  have ctx: "ctx = None" using r(2) by (auto simp: MemoryStore_Resume_def split: option.splits)
  have rep: "disk_rep s m0" using load_disk [OF assms(1)] disk_rep_same [OF assms(1)] r(1) ctx by auto
  then have inv: "replay_inv (js_registry s) m0" "store_inv m0" by (auto simp: disk_rep_def replay_inv_def)
  obtain t where t: "fmlookup (ms_threads m0) (rp_ID p) = Some t" "ml_threadID live = mt_id t"
    "ml_branchID live = (if rp_BranchID p = [] then mt_branchID t else rp_BranchID p)"
    using r(2) by (auto simp: MemoryStore_Resume_def Let_def split: option.splits if_splits)
  have ti: "mt_id t = rp_ID p" "thread_inv t" using store_invD [OF inv(2) t(1)] by auto
  have "st = snapshot t" using r(3) t ti by (auto simp: MemoryStore_Read_def split: option.splits)
  then have "handle_ok l t"
    using r(4) t ti inv(2) thread_inv_branchID [OF ti(2)] thread_inv_nextSeq [OF ti(2)]
    by (simp add: handle_ok_def open_live_def)
  then show ?thesis using rep inv t ti r(4) by (auto simp: synced_def open_live_def same_thread_iff)
qed

lemma put_rep:
  assumes "disk_rep s m" "replay_inv (js_registry s) (put_thread tid t m)"
    "s' = s\<lparr>js_files := fmupd (jsonl_path tid) (map event_line (mt_events t)) (js_files s)\<rparr>"
    "\<forall>e \<in> set (mt_events t). line_ok e"
  shows "disk_rep s' (put_thread tid t m)"
proof -
  have "\<exists>k. n = jsonl_path k \<and> fmlookup (ms_threads (put_thread tid t m)) k \<noteq> None"
    if n: "n \<in> fset (fmdom (js_files s'))" "HasSuffix n ''.jsonl''" for n
  proof (cases "n = jsonl_path tid")
    case True
    then show ?thesis by (auto simp: put_thread_def)
  next
    case False
    then have "n \<in> fset (fmdom (js_files s))" using n(1) assms(3) by simp
    then obtain k where "n = jsonl_path k" "fmlookup (ms_threads m) k \<noteq> None"
      using n(2) assms(1) unfolding disk_rep_def by blast
    then show ?thesis by (auto simp: put_thread_def)
  qed
  moreover have "fmlookup (js_files s') (jsonl_path k) = Some (map event_line (mt_events u)) \<and>
      (\<forall>e \<in> set (mt_events u). line_ok e)" if "fmlookup (ms_threads (put_thread tid t m)) k = Some u" for k u
    using that assms unfolding disk_rep_def by (cases "k = tid") (auto simp: put_thread_def)
  moreover have "js_dir s' \<noteq> []" "js_registry s' = js_registry s"
    using assms(1,3) by (simp_all add: disk_rep_def)
  ultimately show ?thesis using assms(2) unfolding disk_rep_def by simp
qed

lemma live_append_on_disk:
  assumes "synced s m l" "liveThread_Append ctx g es l s = (Inr (), l', s')" "es \<noteq> []"
    "ints_ok (lt_memory l')" "fmlookup (ms_threads (lt_memory l)) (lt_threadID l) = Some t"
    "\<forall>e \<in> set es. plain_event t e"
  shows "\<exists>m2 new t' tm. loadMemory None s' = Inr m2 \<and> length new = length es \<and>
    fmlookup (ms_threads (lt_memory l')) (lt_threadID l) = Some t' \<and> mt_events t' = mt_events t @ new \<and>
    fmlookup (ms_threads m2) (lt_threadID l) = Some tm \<and> same_thread t' tm \<and>
    (\<forall>k. k \<noteq> lt_threadID l \<longrightarrow> rel_option same_thread (fmlookup (ms_threads m) k) (fmlookup (ms_threads m2) k)) \<and>
    synced s' m2 l'"
proof -
  obtain tm where h: "handle_ok l t" "fmlookup (ms_threads m) (lt_threadID l) = Some tm" "same_thread tm t"
    and rep: "disk_rep s m" and rl: "replay_inv (js_registry s) (lt_memory l)"
    using assms(1,5) by (auto simp: synced_def handle_ok_def)
  obtain live t' new where a: "ctx = None" "fmlookup (mt_branches t) (lt_branchID l) \<noteq> None"
    "live = \<lparr>ml_threadID = lt_threadID l, ml_branchID = lt_branchID l, ml_source = lt_source l, ml_closed = False\<rparr>"
    "memoryLive_Append None g live es (lt_memory l) = (Inr (), lt_memory l')"
    "lt_memory l' = put_thread (lt_threadID l) t' (lt_memory l)"
    "mt_events t' = mt_events t @ new" "map ev_Seq new = [mt_nextSeq t .. mt_nextSeq t + int (length es) - 1]"
    "\<forall>e \<in> set new. encodable e"
    "s' = s\<lparr>js_files := fmupd (jsonl_path (lt_threadID l))
      ((case fmlookup (js_files s) (jsonl_path (lt_threadID l)) of None \<Rightarrow> [] | Some ls \<Rightarrow> ls) @ map event_line new)
      (js_files s)\<rparr>" "l' = l\<lparr>lt_memory := lt_memory l', lt_nextSeq := jsonl_nextSeq (mt_events t')\<rparr>"
    using live_append_success [OF h(1) assms(2,3)] by blast
  have rl': "replay_inv (js_registry s) (lt_memory l')"
    by (rule logged_append [OF rl a(4)]) (use a(2,3) assms(5,6) in auto)
  moreover have lk: "fmlookup (ms_threads (lt_memory l')) (lt_threadID l) = Some t'" using a(5) by simp
  ultimately have t': "thread_inv t'" "replayed (js_registry s) t'" "mt_id t' = lt_threadID l"
    by (simp_all add: replay_inv_def store_inv_def)
  have "fmlookup (js_files s) (jsonl_path (lt_threadID l)) = Some (map event_line (mt_events t))"
    and old: "\<forall>e \<in> set (mt_events t). line_ok e"
    using rep h(2,3) by (auto simp: disk_rep_def same_thread_iff)
  then have s': "s' = s\<lparr>js_files := fmupd (jsonl_path (lt_threadID l)) (map event_line (mt_events t')) (js_files s)\<rparr>"
    using a(6,9) by simp
  from lk have ok: "\<forall>e \<in> set (mt_events t'). line_ok e"
    using assms(4) old a(6,8) by (auto simp: ints_ok_def line_ok_def)
  have "replay_inv (js_registry s) (put_thread (lt_threadID l) t' m)"
    using rep t' store_inv_put [of m t'] by (auto simp: disk_rep_def replay_inv_def put_thread_def)
  from put_rep [OF rep this s' ok] have rep': "disk_rep s' (put_thread (lt_threadID l) t' m)" .
  then obtain m2 where m2: "loadMemory None s' = Inr m2" "same_store (put_thread (lt_threadID l) t' m) m2"
    using load_disk by blast
  then obtain tm' where tm': "fmlookup (ms_threads m2) (lt_threadID l) = Some tm'" "same_thread t' tm'"
    using same_storeD(3) [OF m2(2)] by (metis lookup_put)
  have others: "rel_option same_thread (fmlookup (ms_threads m) k) (fmlookup (ms_threads m2) k)"
    if "k \<noteq> lt_threadID l" for k
    using m2(2) that by (auto simp: same_store_def put_thread_def split: if_splits)
  have l': "lt_threadID l' = lt_threadID l" "lt_branchID l' = lt_branchID l" "lt_nextSeq l' = jsonl_nextSeq (mt_events t')"
    by (subst a(10), simp)+
  have "handle_ok l' t'"
    using rl' a(5) h(1) thread_inv_nextSeq [OF t'(1)] l' by (simp add: handle_ok_def replay_inv_def)
  then have "synced s' m2 l'"
    using disk_rep_same [OF rep' m2(2)] rl' tm' l' s' by (auto simp: synced_def same_thread_iff)
  moreover have "length new = length es" using arg_cong [OF a(7), of length] by simp
  ultimately show ?thesis using m2(1) a(5,6) tm' others by auto
qed


definition demo_handle :: live_thread where
  "demo_handle = \<lparr>lt_memory = demo_store, lt_threadID = ''t1'', lt_branchID = ''main'', lt_source = no_source,
     lt_nextSeq = 2, lt_closed = False\<rparr>"

definition demo_disk1 :: jsonl_store where
  "demo_disk1 = demo_disk\<lparr>js_files := fmupd (jsonl_path ''t1'') (map event_line (mt_events demo_thread)) (js_files demo_disk)\<rparr>"

lemma demo_replay: "replay_inv None demo_store"
proof -
  have "logged_step (NewMemoryStore None) demo_store" unfolding demo_store_def
    by (rule logged_step.create [OF demo_gen_ok, where p = demo_create]) (simp add: demo_create_def, rule surjective_pairing)
  then show ?thesis using logged_step_replay replay_inv_init by blast
qed

lemma demo_handle_ok: "handle_ok demo_handle demo_thread"
  by (simp add: handle_ok_def demo_handle_def demo_store_inv demo_lookup demo_thread_def)

lemma demo_synced: "synced demo_disk1 demo_store demo_handle"
proof -
  have "js_registry demo_disk = None" by (simp add: demo_disk_def jsonl_Open_def)
  moreover have "\<forall>e \<in> set (mt_events demo_thread). line_ok e"
    using demo_ints(1) demo_encodable demo_lookup by (auto simp: line_ok_def ints_ok_def)
  ultimately have "disk_rep demo_disk1 demo_store"
    using put_rep [OF demo_disk_rep, of "''t1''" demo_thread demo_disk1] demo_replay
    by (simp add: demo_store_eq demo_disk1_def)
  then show ?thesis
    using demo_replay demo_handle_ok demo_lookup
    by (auto simp: synced_def demo_handle_def demo_disk1_def demo_disk_def jsonl_Open_def same_thread_iff)
qed

definition demo_appended :: memory_thread where
  "demo_appended = appendLocked demo_gen ''main'' demo_thread [live_event demo_live demo_event]"

lemma demo_append: "\<exists>l' s'. liveThread_Append None demo_gen [demo_event] demo_handle s = (Inr (), l', s') \<and>
    lt_memory l' = put_thread ''t1'' demo_appended demo_store"
proof -
  have e: "\<exists>e. mt_events demo_appended = mt_events demo_thread @ [e] \<and> ev_Seq e = 2 \<and> encodable e"
    by (simp add: demo_appended_def Let_def demo_thread_def encodable_def time_json_range_def
        demo_defs no_event_def live_event_def)
  have "mt_id demo_thread = ''t1''" by (simp add: demo_thread_def new_thread_def)
  moreover have "live_batch demo_store demo_live [demo_event] = Inr [live_event demo_live demo_event]"
    by (simp add: demo_event_def demo_store_eq put_thread_def NewMemoryStore_def validateEvent_def)
  moreover have "ev_Seq (created_event demo_gen demo_create ''t1'' ''main'' 5) = 1" by (simp add: created_event_def)
  ultimately show ?thesis
    using e demo_lookup demo_main demo_events
    by (auto simp: liveThread_Append_def demo_handle_def MemoryStore_Resume_def memoryLive_Append_def
        demo_live_def demo_appended_def MemoryStore_Read_def appendThreadFile_def Let_def simp del: appendLocked.simps)
qed

lemma demo_appended_ints: "ints_ok (put_thread ''t1'' demo_appended demo_store)"
  by (auto simp: ints_ok_def put_thread_def demo_store_eq NewMemoryStore_def demo_appended_def Let_def demo_thread_def
      int64_range_def CurrentEventSchemaVersion_def demo_defs no_event_def created_event_def live_event_def split: if_splits)





end
