(* ===== verification/Conversation_Tree.thy ===== *)
theory Conversation_Tree
  imports Go_Json "HOL-Library.Finite_Map"
begin

text \<open>
  The conversation tree (\<^verbatim>\<open>src/conversation/tree.go\<close>, \<^verbatim>\<open>event.go\<close>): nodes linked to their parents,
  named branches that point at a head node, and per-branch compaction floors at which a path stops.
  The message types come from the package \<^verbatim>\<open>unified\<close> of another module; the model has the fields the
  sources read and write; what they only carry along (cache control, usage, the other fields of a blob
  source) is an opaque string. A \<^verbatim>\<open>map[string]any\<close> is an association list. An interface value that may hold a struct or a pointer to it has a
  constructor for each, a nil pointer being \<^term>\<open>None\<close>.

  Random node identifiers and clock readings are arguments. \<^verbatim>\<open>Path\<close> walks parent links, so it is a
  partial function; on a tree built by the operations it always returns.
\<close>

section \<open>Messages and payloads\<close>

datatype role = RoleUser | RoleAssistant | RoleTool | RoleOther string

record reasoning_part =
  rs_Text :: string
  rs_Signature :: string

record blob_source =
  bs_URL :: string
  bs_Base64 :: string
  bs_Rest :: string

record text_part =
  tp_Text :: string
  tp_CacheControl :: "string option"

record image_part =
  im_Source :: blob_source
  im_Alt :: string

record file_part =
  fl_Source :: blob_source
  fl_Filename :: string
  fl_MIMEType :: string

datatype content_part =
    TextPart text_part
  | PtrTextPart "text_part option"
  | ReasoningPart reasoning_part
  | PtrReasoningPart "reasoning_part option"
  | RefusalPart string
  | ImagePart image_part
  | PtrImagePart "image_part option"
  | FilePart file_part
  | PtrFilePart "file_part option"
  | AudioPart blob_source
  | VideoPart blob_source

abbreviation plain_text :: "string \<Rightarrow> content_part" where
  "plain_text t \<equiv> TextPart \<lparr>tp_Text = t, tp_CacheControl = None\<rparr>"

record tool_call =
  call_ID :: string
  call_Name :: string
  call_Arguments :: string

record tool_result =
  res_ToolCallID :: string
  res_Name :: string
  res_Content :: "content_part list"
  res_IsError :: bool

datatype meta_value = MetaText string | MetaNodes "string list" | MetaAny json

record message =
  msg_Role :: role
  msg_ID :: string
  msg_Name :: string
  msg_Phase :: string
  msg_Content :: "content_part list"
  msg_ToolCalls :: "tool_call list"
  msg_ToolResults :: "tool_result list"
  msg_Meta :: "(string \<times> meta_value) list"

text \<open>The zero \<^verbatim>\<open>unified.Message\<close>: its role is the empty string.\<close>

definition no_message :: message where
  "no_message = \<lparr>msg_Role = RoleOther [], msg_ID = [], msg_Name = [], msg_Phase = [], msg_Content = [],
     msg_ToolCalls = [], msg_ToolResults = [], msg_Meta = []\<rparr>"

record provider_identity =
  pid_ProviderName :: string
  pid_APIKind :: string
  pid_APIFamily :: string
  pid_NativeModel :: string

record provider_continuation =
  pc_ProviderName :: string
  pc_APIKind :: string
  pc_APIFamily :: string
  pc_NativeModel :: string
  pc_ResponseID :: string
  pc_ConsumerContinuation :: string
  pc_InternalContinuation :: string
  pc_Transport :: string
  pc_Extensions :: "(string, string) fmap"

record assistant_turn =
  at_Message :: message
  at_FinishReason :: string
  at_Usage :: string
  at_Continuations :: "provider_continuation list"

record annotation =
  an_Text :: string
  an_Meta :: "(string \<times> meta_value) list"

record compaction =
  cmp_Summary :: string
  cmp_Replaces :: "string list"

datatype payload =
    MessageEvent message
  | PtrMessageEvent "message option"
  | AssistantTurnEvent assistant_turn
  | PtrAssistantTurnEvent "assistant_turn option"
  | CompactionEvent compaction
  | PtrCompactionEvent "compaction option"
  | AnnotationEvent annotation
  | PtrAnnotationEvent "annotation option"

section \<open>State and operations\<close>

record node =
  nd_ID :: string
  nd_Parent :: string
  nd_Payload :: "payload option"
  nd_CreatedAt :: time

record tree =
  tr_nodes :: "(string, node) fmap"
  tr_branches :: "(string, string) fmap"
  tr_floors :: "(string, string) fmap"

datatype conv_error =
    NoPayloads
  | ConvPayloadRequired
  | ConvBranchNotFound string
  | ConvBranchExists string
  | ConvNodeIDRequired
  | ConvNodeExists string
  | ConvParentNotFound string
  | ConvNodeNotFound string
  | ConvTreeNil
  | NilDereference

definition ConvMainBranch :: string where
  "ConvMainBranch = ''main''"

definition or_main :: "string \<Rightarrow> string" where
  "or_main b = (if b = [] then ConvMainBranch else b)"

definition NewTree :: tree where
  "NewTree = \<lparr>tr_nodes = fmempty, tr_branches = fmupd ConvMainBranch [] fmempty, tr_floors = fmempty\<rparr>"

text \<open>The loop of \<^verbatim>\<open>AppendMany\<close>; \<^term>\<open>ids\<close> are the identifiers it draws, one per payload.\<close>

fun append_nodes ::
  "time \<Rightarrow> string \<Rightarrow> (string \<times> payload option) list \<Rightarrow> (string, node) fmap \<Rightarrow> (string, node) fmap \<times> string" where
  "append_nodes now parent [] ns = (ns, parent)"
| "append_nodes now parent ((i, p) # ips) ns =
     append_nodes now i ips (fmupd i \<lparr>nd_ID = i, nd_Parent = parent, nd_Payload = p, nd_CreatedAt = now\<rparr> ns)"

definition Tree_AppendMany ::
  "string list \<Rightarrow> time \<Rightarrow> string \<Rightarrow> payload option list \<Rightarrow> tree \<Rightarrow> (conv_error, string list) result \<times> tree" where
  "Tree_AppendMany ids now branch ps t =
     (if ps = [] then (Inl NoPayloads, t)
      else if None \<in> set ps then (Inl ConvPayloadRequired, t)
      else
        let b = or_main branch in
        case fmlookup (tr_branches t) b of
          None \<Rightarrow> (Inl (ConvBranchNotFound b), t)
        | Some parent \<Rightarrow>
            (case append_nodes now parent (zip ids ps) (tr_nodes t) of
               (ns, h) \<Rightarrow>
                 (Inr (map fst (zip ids ps)), t\<lparr>tr_nodes := ns, tr_branches := fmupd b h (tr_branches t)\<rparr>)))"

definition Tree_Append ::
  "string \<Rightarrow> time \<Rightarrow> string \<Rightarrow> payload option \<Rightarrow> tree \<Rightarrow> (conv_error, string) result \<times> tree" where
  "Tree_Append i now branch p t =
     (case Tree_AppendMany [i] now branch [p] t of
        (Inl e, t') \<Rightarrow> (Inl e, t') | (Inr ids, t') \<Rightarrow> (Inr (hd ids), t'))"

definition Tree_InsertNode :: "time \<Rightarrow> string \<Rightarrow> node \<Rightarrow> tree \<Rightarrow> (conv_error, unit) result \<times> tree" where
  "Tree_InsertNode now branch n t =
     (let b = or_main branch in
      if nd_ID n = [] then (Inl ConvNodeIDRequired, t)
      else if nd_Payload n = None then (Inl ConvPayloadRequired, t)
      else if fmlookup (tr_nodes t) (nd_ID n) \<noteq> None then (Inl (ConvNodeExists (nd_ID n)), t)
      else if nd_Parent n \<noteq> [] \<and> fmlookup (tr_nodes t) (nd_Parent n) = None
      then (Inl (ConvParentNotFound (nd_Parent n)), t)
      else
        let n' = (if nd_CreatedAt n = zero_time then n\<lparr>nd_CreatedAt := now\<rparr> else n)
        in (Inr (), t\<lparr>tr_nodes := fmupd (nd_ID n) n' (tr_nodes t),
                      tr_branches := fmupd b (nd_ID n) (tr_branches t)\<rparr>))"

definition Tree_Fork :: "string \<Rightarrow> string \<Rightarrow> string \<Rightarrow> tree \<Rightarrow> (conv_error, unit) result \<times> tree" where
  "Tree_Fork newBranchID from to t =
     (let f = or_main from; b = (if to = [] then newBranchID else to) in
      case fmlookup (tr_branches t) f of
        None \<Rightarrow> (Inl (ConvBranchNotFound f), t)
      | Some head \<Rightarrow>
          if fmlookup (tr_branches t) b \<noteq> None then (Inl (ConvBranchExists b), t)
          else (Inr (), t\<lparr>tr_branches := fmupd b head (tr_branches t)\<rparr>))"

definition Tree_MoveHead :: "string \<Rightarrow> string \<Rightarrow> tree \<Rightarrow> (conv_error, unit) result \<times> tree" where
  "Tree_MoveHead branch n t =
     (let b = or_main branch in
      if fmlookup (tr_branches t) b = None then (Inl (ConvBranchNotFound b), t)
      else if n \<noteq> [] \<and> fmlookup (tr_nodes t) n = None then (Inl (ConvNodeNotFound n), t)
      else (Inr (), t\<lparr>tr_branches := fmupd b n (tr_branches t)\<rparr>))"

definition Tree_Head :: "string \<Rightarrow> tree \<Rightarrow> string option" where
  "Tree_Head branch t = fmlookup (tr_branches t) (or_main branch)"

definition Tree_Node :: "string \<Rightarrow> tree \<Rightarrow> node option" where
  "Tree_Node i t = fmlookup (tr_nodes t) i"

definition Tree_SetFloor :: "string \<Rightarrow> string \<Rightarrow> tree \<Rightarrow> tree" where
  "Tree_SetFloor branch i t =
     (let b = or_main branch in
      if i = [] then t\<lparr>tr_floors := fmdrop b (tr_floors t)\<rparr>
      else t\<lparr>tr_floors := fmupd b i (tr_floors t)\<rparr>)"

definition Tree_Floor :: "string \<Rightarrow> tree \<Rightarrow> string option" where
  "Tree_Floor branch t =
     (case fmlookup (tr_floors t) (or_main branch) of
        None \<Rightarrow> None | Some i \<Rightarrow> if i = [] then None else Some i)"

text \<open>The loop of \<^verbatim>\<open>Path\<close>, head first (the Go variable \<^verbatim>\<open>reversed\<close>).\<close>

partial_function (option) path_rev ::
  "(string, node) fmap \<Rightarrow> string \<Rightarrow> string \<Rightarrow> (conv_error, node list) result option" where
  "path_rev ns flr i =
     (if i = [] then Some (Inr [])
      else case fmlookup ns i of
        None \<Rightarrow> Some (Inl (ConvNodeNotFound i))
      | Some n \<Rightarrow>
          if i = flr then Some (Inr [n])
          else Option.bind (path_rev ns flr (nd_Parent n))
            (\<lambda>r. Some (rbind r (\<lambda>ns'. Inr (n # ns')))))"

definition floor_of :: "tree \<Rightarrow> string \<Rightarrow> string" where
  "floor_of t b = (case fmlookup (tr_floors t) b of None \<Rightarrow> [] | Some i \<Rightarrow> i)"

definition Tree_Path :: "string \<Rightarrow> tree \<Rightarrow> (conv_error, node list) result option" where
  "Tree_Path branch t =
     (let b = or_main branch in
      case fmlookup (tr_branches t) b of
        None \<Rightarrow> Some (Inl (ConvBranchNotFound b))
      | Some head \<Rightarrow> map_option (\<lambda>r. rbind r (\<lambda>ns. Inr (rev ns))) (path_rev (tr_nodes t) (floor_of t b) head))"

section \<open>Well-formed trees\<close>

text \<open>Parents exist and links descend in some ranking of the nodes; heads are nodes.\<close>

definition ranked :: "(string \<Rightarrow> nat) \<Rightarrow> (string, node) fmap \<Rightarrow> bool" where
  "ranked rank ns \<longleftrightarrow> (\<forall>i n. fmlookup ns i = Some n \<longrightarrow> i \<noteq> [] \<and> nd_ID n = i \<and> nd_Payload n \<noteq> None \<and>
     (nd_Parent n \<noteq> [] \<longrightarrow> fmlookup ns (nd_Parent n) \<noteq> None \<and> rank (nd_Parent n) < rank i))"

definition node_or_root :: "(string, node) fmap \<Rightarrow> string \<Rightarrow> bool" where
  "node_or_root ns h \<longleftrightarrow> h = [] \<or> fmlookup ns h \<noteq> None"

definition heads_ok :: "(string, node) fmap \<Rightarrow> (string, string) fmap \<Rightarrow> bool" where
  "heads_ok ns bs \<longleftrightarrow> (\<forall>b h. fmlookup bs b = Some h \<longrightarrow> node_or_root ns h)"

definition tree_wf :: "tree \<Rightarrow> bool" where
  "tree_wf t \<longleftrightarrow> (\<exists>rank. ranked rank (tr_nodes t)) \<and> heads_ok (tr_nodes t) (tr_branches t)"

lemma NewTree_wf: "tree_wf NewTree"
  by (simp add: tree_wf_def NewTree_def ranked_def heads_ok_def node_or_root_def)

lemma heads_ok_upd: "heads_ok ns bs \<Longrightarrow> node_or_root ns h \<Longrightarrow> heads_ok ns (fmupd b h bs)"
  by (simp add: heads_ok_def)

lemma heads_okD: "heads_ok ns bs \<Longrightarrow> fmlookup bs b = Some h \<Longrightarrow> node_or_root ns h"
  by (simp add: heads_ok_def)

lemma heads_ok_mono:
  "heads_ok ns bs \<Longrightarrow> (\<And>k n. fmlookup ns k = Some n \<Longrightarrow> fmlookup ns' k = Some n) \<Longrightarrow> heads_ok ns' bs"
  unfolding heads_ok_def node_or_root_def by (metis option.exhaust option.distinct(1))

lemma ranked_insert:
  assumes "ranked rank ns" "i \<noteq> []" "fmlookup ns i = None" "nd_ID n = i" "nd_Payload n \<noteq> None"
    "nd_Parent n = [] \<or> fmlookup ns (nd_Parent n) \<noteq> None"
  shows "\<exists>rank'. ranked rank' (fmupd i n ns)"
proof -
  let ?r = "rank(i := Suc (rank (nd_Parent n)))"
  have "x \<noteq> []" "nd_ID m = x" "nd_Payload m \<noteq> None"
    "nd_Parent m \<noteq> [] \<longrightarrow> fmlookup (fmupd i n ns) (nd_Parent m) \<noteq> None \<and> ?r (nd_Parent m) < ?r x"
    if m: "fmlookup (fmupd i n ns) x = Some m" for x m
  proof -
    have "x \<noteq> [] \<and> nd_ID m = x \<and> nd_Payload m \<noteq> None \<and>
      (nd_Parent m \<noteq> [] \<longrightarrow> fmlookup (fmupd i n ns) (nd_Parent m) \<noteq> None \<and> ?r (nd_Parent m) < ?r x)"
    proof (cases "x = i")
      case True
      then have "m = n" using m by simp
      moreover have "nd_Parent n \<noteq> [] \<Longrightarrow> nd_Parent n \<noteq> i" using assms(3,6) by auto
      ultimately show ?thesis using True assms by auto
    next
      case False
      then have "fmlookup ns x = Some m" using m by simp
      with assms(1,3) False show ?thesis unfolding ranked_def by (metis fmupd_lookup fun_upd_other)
    qed
    then show "x \<noteq> []" "nd_ID m = x" "nd_Payload m \<noteq> None"
      "nd_Parent m \<noteq> [] \<longrightarrow> fmlookup (fmupd i n ns) (nd_Parent m) \<noteq> None \<and> ?r (nd_Parent m) < ?r x" by blast+
  qed
  then have "ranked ?r (fmupd i n ns)" unfolding ranked_def by blast
  then show ?thesis by blast
qed


lemma append_nodes_wf:
  assumes "ranked rank ns" "node_or_root ns parent" "distinct (map fst ips)"
    "\<forall>x \<in> set ips. fst x \<noteq> [] \<and> snd x \<noteq> None \<and> fmlookup ns (fst x) = None" "append_nodes now parent ips ns = (ns', h)"
  shows "(\<exists>rank'. ranked rank' ns') \<and> node_or_root ns' h \<and>
    (\<forall>k n. fmlookup ns k = Some n \<longrightarrow> fmlookup ns' k = Some n)"
  using assms
proof (induction ips arbitrary: rank ns parent)
  case (Cons ip ips)
  obtain i p where ip: "ip = (i, p)" by (cases ip)
  let ?ns = "fmupd i \<lparr>nd_ID = i, nd_Parent = parent, nd_Payload = p, nd_CreatedAt = now\<rparr> ns"
  have i: "i \<noteq> []" "p \<noteq> None" "fmlookup ns i = None" using Cons.prems(4) ip by auto
  have "\<exists>rank'. ranked rank' ?ns"
    by (rule ranked_insert [OF Cons.prems(1) i(1,3)]) (use Cons.prems(2) i(2) in \<open>simp_all add: node_or_root_def\<close>)
  then obtain rank' where "ranked rank' ?ns" by blast
  moreover have "i \<notin> fst ` set ips" using Cons.prems(3) ip by simp
  then have "\<forall>x \<in> set ips. fst x \<noteq> [] \<and> snd x \<noteq> None \<and> fmlookup ?ns (fst x) = None"
    using Cons.prems(4) by (metis fmupd_lookup imageI list.set_intros(2))
  ultimately have IH: "(\<exists>rank'. ranked rank' ns') \<and> node_or_root ns' h"
      "\<And>k n. fmlookup ?ns k = Some n \<Longrightarrow> fmlookup ns' k = Some n"
    using Cons.IH [of rank' ?ns i] Cons.prems(3,5) ip by (simp_all add: node_or_root_def)
  have "fmlookup ?ns k = Some n" if "fmlookup ns k = Some n" for k n using that i(3) by auto
  then show ?case using IH by blast
qed auto

text \<open>The identifiers an append draws: new, distinct and one per payload.\<close>

definition fresh_ids :: "string list \<Rightarrow> payload option list \<Rightarrow> tree \<Rightarrow> bool" where
  "fresh_ids ids ps t \<longleftrightarrow> length ids = length ps \<and> distinct ids \<and> [] \<notin> set ids \<and>
     (\<forall>i \<in> set ids. fmlookup (tr_nodes t) i = None)"

lemma AppendMany_success:
  assumes "Tree_AppendMany ids now branch ps t = (Inr out, t')" "fresh_ids ids ps t"
  obtains parent h ns where "fmlookup (tr_branches t) (or_main branch) = Some parent" "ps \<noteq> []" "None \<notin> set ps"
    "append_nodes now parent (zip ids ps) (tr_nodes t) = (ns, h)" "out = ids"
    "t' = t\<lparr>tr_nodes := ns, tr_branches := fmupd (or_main branch) h (tr_branches t)\<rparr>"
proof -
  have ps: "ps \<noteq> []" "None \<notin> set ps"
    using assms(1) unfolding Tree_AppendMany_def by (auto split: if_splits)
  obtain parent where parent: "fmlookup (tr_branches t) (or_main branch) = Some parent"
    using assms(1) ps by (cases "fmlookup (tr_branches t) (or_main branch)") (auto simp: Tree_AppendMany_def Let_def)
  obtain ns h where ns: "append_nodes now parent (zip ids ps) (tr_nodes t) = (ns, h)" by (rule prod.exhaust)
  have "out = ids" "t' = t\<lparr>tr_nodes := ns, tr_branches := fmupd (or_main branch) h (tr_branches t)\<rparr>"
    using assms ps parent ns by (simp_all add: Tree_AppendMany_def fresh_ids_def)
  with parent ps ns that show ?thesis by blast
qed

lemma fresh_zip:
  assumes "fresh_ids ids ps t" "None \<notin> set ps"
  shows "\<forall>x \<in> set (zip ids ps). fst x \<noteq> [] \<and> snd x \<noteq> None \<and> fmlookup (tr_nodes t) (fst x) = None"
    "distinct (map fst (zip ids ps))"
proof -
  have "fst x \<in> set ids \<and> snd x \<in> set ps" if "x \<in> set (zip ids ps)" for x
    using that by (auto simp: set_zip)
  then show "\<forall>x \<in> set (zip ids ps). fst x \<noteq> [] \<and> snd x \<noteq> None \<and> fmlookup (tr_nodes t) (fst x) = None"
    using assms unfolding fresh_ids_def by metis
  show "distinct (map fst (zip ids ps))" using assms(1) by (simp add: fresh_ids_def)
qed

lemma AppendMany_wf:
  assumes "tree_wf t" "Tree_AppendMany ids now branch ps t = (Inr out, t')" "fresh_ids ids ps t"
  shows "tree_wf t'"
  using assms(2,3)
proof (rule AppendMany_success)
  fix parent h ns
  assume a: "fmlookup (tr_branches t) (or_main branch) = Some parent" "None \<notin> set ps"
    "append_nodes now parent (zip ids ps) (tr_nodes t) = (ns, h)"
    "t' = t\<lparr>tr_nodes := ns, tr_branches := fmupd (or_main branch) h (tr_branches t)\<rparr>"
  obtain rank where "ranked rank (tr_nodes t)" and heads: "heads_ok (tr_nodes t) (tr_branches t)"
    using assms(1) by (auto simp: tree_wf_def)
  from append_nodes_wf [OF this(1) heads_okD [OF heads a(1)] _ _ a(3)] fresh_zip [OF assms(3) a(2)]
  have "\<exists>rank'. ranked rank' ns" "node_or_root ns h" "\<And>k n. fmlookup (tr_nodes t) k = Some n \<Longrightarrow> fmlookup ns k = Some n"
    by auto
  then show ?thesis using heads_ok_upd heads_ok_mono [OF heads, of ns] a(4) by (simp add: tree_wf_def)
qed

lemma InsertNode_wf:
  assumes "tree_wf t" "Tree_InsertNode now branch n t = (r, t')"
  shows "tree_wf t'"
proof (cases r)
  case (Inl e)
  with assms show ?thesis by (auto simp: Tree_InsertNode_def Let_def split: if_splits)
next
  case (Inr u)
  let ?n = "if nd_CreatedAt n = zero_time then n\<lparr>nd_CreatedAt := now\<rparr> else n"
  have n: "nd_ID n \<noteq> []" "nd_Payload n \<noteq> None" "fmlookup (tr_nodes t) (nd_ID n) = None"
    "nd_Parent n = [] \<or> fmlookup (tr_nodes t) (nd_Parent n) \<noteq> None"
    and t': "t' = t\<lparr>tr_nodes := fmupd (nd_ID n) ?n (tr_nodes t),
      tr_branches := fmupd (or_main branch) (nd_ID n) (tr_branches t)\<rparr>"
    using assms(2) Inr by (auto simp: Tree_InsertNode_def Let_def split: if_splits)
  obtain rank where "ranked rank (tr_nodes t)" using assms(1) by (auto simp: tree_wf_def)
  from ranked_insert [OF this n(1,3), of ?n] n(2,4)
  have "\<exists>rank'. ranked rank' (fmupd (nd_ID n) ?n (tr_nodes t))" by simp
  moreover have "heads_ok (fmupd (nd_ID n) ?n (tr_nodes t)) (tr_branches t)"
    using assms(1) heads_ok_mono n(3) unfolding tree_wf_def by (metis fmupd_lookup option.distinct(1))
  ultimately show ?thesis using heads_ok_upd by (simp add: tree_wf_def t' node_or_root_def)
qed

lemma Fork_wf: "tree_wf t \<Longrightarrow> Tree_Fork nb f to t = (r, t') \<Longrightarrow> tree_wf t'"
  by (auto simp: Tree_Fork_def tree_wf_def Let_def intro!: heads_ok_upd dest: heads_okD split: option.splits if_splits)

lemma MoveHead_wf: "tree_wf t \<Longrightarrow> Tree_MoveHead branch n t = (r, t') \<Longrightarrow> tree_wf t'"
  by (auto simp: Tree_MoveHead_def tree_wf_def Let_def node_or_root_def intro!: heads_ok_upd split: if_splits)

lemma SetFloor_wf: "tree_wf t \<Longrightarrow> tree_wf (Tree_SetFloor branch i t)"
  by (simp add: Tree_SetFloor_def tree_wf_def Let_def)

lemma AppendMany_error: "Tree_AppendMany ids now branch ps t = (Inl e, t') \<Longrightarrow> t' = t"
  by (auto simp: Tree_AppendMany_def Let_def split: if_splits option.splits prod.splits)

inductive tree_step :: "tree \<Rightarrow> tree \<Rightarrow> bool" where
  append: "fresh_ids ids ps t \<Longrightarrow> Tree_AppendMany ids now branch ps t = (r, t') \<Longrightarrow> tree_step t t'"
| insert: "Tree_InsertNode now branch n t = (r', t') \<Longrightarrow> tree_step t t'"
| fork: "Tree_Fork nb f to t = (r', t') \<Longrightarrow> tree_step t t'"
| move: "Tree_MoveHead branch i t = (r', t') \<Longrightarrow> tree_step t t'"
| floor: "t' = Tree_SetFloor branch i t \<Longrightarrow> tree_step t t'"

lemma tree_step_wf: "tree_step t t' \<Longrightarrow> tree_wf t \<Longrightarrow> tree_wf t'"
proof (induction rule: tree_step.induct)
  case (append ids ps t now branch r t')
  then show ?case using AppendMany_wf AppendMany_error by (cases r) blast+
qed (auto intro: InsertNode_wf Fork_wf MoveHead_wf SetFloor_wf)

section \<open>Paths\<close>

fun path_ok :: "(string, node) fmap \<Rightarrow> string \<Rightarrow> string \<Rightarrow> node list \<Rightarrow> bool" where
  "path_ok ns flr i [] = (i = [])"
| "path_ok ns flr i (n # ps) = (i \<noteq> [] \<and> fmlookup ns i = Some n \<and>
     (if i = flr then ps = [] else path_ok ns flr (nd_Parent n) ps))"

lemma path_rev_Nil [simp]: "path_rev ns flr [] = Some (Inr [])"
  by (simp add: path_rev.simps)

lemma path_ok_rev: "path_ok ns flr i ps \<Longrightarrow> path_rev ns flr i = Some (Inr ps)"
proof (induction ps arbitrary: i)
  case (Cons n ps)
  then show ?case by (subst path_rev.simps) (auto split: if_splits)
qed simp

lemma path_exists:
  assumes "ranked rank ns" "i = [] \<or> fmlookup ns i \<noteq> None"
  shows "\<exists>ps. path_ok ns flr i ps"
  using assms(2)
proof (induction "rank i" arbitrary: i rule: less_induct)
  case less
  show ?case
  proof (cases "i = []")
    case False
    then obtain n where n: "fmlookup ns i = Some n" using less.prems by auto
    show ?thesis
    proof (cases "i = flr")
      case True
      then have "path_ok ns flr i [n]" using n False by simp
      then show ?thesis by blast
    next
      case False': False
      have "nd_Parent n = [] \<or> (fmlookup ns (nd_Parent n) \<noteq> None \<and> rank (nd_Parent n) < rank i)"
        using assms(1) n by (auto simp: ranked_def)
      then obtain ps where "path_ok ns flr (nd_Parent n) ps"
        using less.hyps [of "nd_Parent n"] path_ok.simps(1) by blast
      then have "path_ok ns flr i (n # ps)" using n False False' by simp
      then show ?thesis by blast
    qed
  qed (metis path_ok.simps(1))
qed

lemma path_ok_mono:
  "path_ok ns flr i ps \<Longrightarrow> (\<And>k n. fmlookup ns k = Some n \<Longrightarrow> fmlookup ns' k = Some n) \<Longrightarrow> path_ok ns' flr i ps"
  by (induction ps arbitrary: i) (auto split: if_splits)

lemma Tree_Path_ok:
  "fmlookup (tr_branches t) (or_main b) = Some h \<Longrightarrow> path_ok (tr_nodes t) (floor_of t (or_main b)) h ps \<Longrightarrow>
     Tree_Path b t = Some (Inr (rev ps))"
  by (simp add: Tree_Path_def Let_def path_ok_rev)

lemma Tree_Path_exists:
  assumes "tree_wf t" "fmlookup (tr_branches t) (or_main b) = Some h"
  obtains ps where "path_ok (tr_nodes t) (floor_of t (or_main b)) h ps" "Tree_Path b t = Some (Inr (rev ps))"
proof -
  obtain rank where "ranked rank (tr_nodes t)" "h = [] \<or> fmlookup (tr_nodes t) h \<noteq> None"
    using assms heads_okD unfolding tree_wf_def node_or_root_def by blast
  with path_exists Tree_Path_ok [OF assms(2)] that show ?thesis by blast
qed


lemma path_ok_linked:
  assumes "ranked rank ns" "path_ok ns flr i ps"
  shows "successively (\<lambda>b a. nd_Parent b = nd_ID a) ps \<and> distinct (map nd_ID ps) \<and>
    (\<forall>n \<in> set ps. rank (nd_ID n) \<le> rank i) \<and>
    (ps \<noteq> [] \<longrightarrow> nd_ID (hd ps) = i \<and> (nd_Parent (last ps) = [] \<or> nd_ID (last ps) = flr))"
  using assms(2)
proof (induction ps arbitrary: i)
  case (Cons n ps)
  have n: "fmlookup ns i = Some n" "nd_ID n = i" using assms(1) Cons.prems by (auto simp: ranked_def)
  show ?case
  proof (cases "i = flr \<or> nd_Parent n = []")
    case True
    then have "ps = []" using Cons.prems by (cases ps) (auto split: if_splits)
    then show ?thesis using n True by auto
  next
    case False
    then have rest: "path_ok ns flr (nd_Parent n) ps" using Cons.prems by simp
    have less: "rank (nd_Parent n) < rank i" using assms(1) n False by (auto simp: ranked_def)
    from Cons.IH [OF rest] less have "\<forall>m \<in> set ps. rank (nd_ID m) < rank i" by fastforce
    then have "i \<notin> nd_ID ` set ps" "\<forall>m \<in> set ps. rank (nd_ID m) \<le> rank i" by fastforce+
    moreover have "ps \<noteq> []" using rest False by auto
    ultimately show ?thesis using Cons.IH [OF rest] n by (auto simp: successively_Cons)
  qed
qed simp

fun new_nodes :: "time \<Rightarrow> string \<Rightarrow> (string \<times> payload option) list \<Rightarrow> node list" where
  "new_nodes now parent [] = []"
| "new_nodes now parent ((i, p) # ips) =
     \<lparr>nd_ID = i, nd_Parent = parent, nd_Payload = p, nd_CreatedAt = now\<rparr> # new_nodes now i ips"

lemma new_nodes_map: "map nd_ID (new_nodes now parent ips) = map fst ips"
    "map nd_Payload (new_nodes now parent ips) = map snd ips"
  by (induction now parent ips rule: new_nodes.induct) auto

lemma append_nodes_path:
  assumes "append_nodes now parent ips ns = (ns', h)" "distinct (map fst ips)"
    "\<forall>x \<in> set ips. fst x \<noteq> [] \<and> snd x \<noteq> None \<and> fmlookup ns (fst x) = None \<and> fst x \<noteq> flr"
    "path_ok ns flr parent ps"
  shows "path_ok ns' flr h (rev (new_nodes now parent ips) @ ps)"
  using assms
proof (induction now parent ips arbitrary: ns ps rule: new_nodes.induct)
  case (2 now parent i p ips)
  let ?n = "\<lparr>nd_ID = i, nd_Parent = parent, nd_Payload = p, nd_CreatedAt = now\<rparr>"
  have i: "i \<noteq> []" "fmlookup ns i = None" "i \<noteq> flr" "i \<notin> fst ` set ips" using 2(3,4) by auto
  have "path_ok (fmupd i ?n ns) flr parent ps"
    by (rule path_ok_mono [OF 2(5)]) (use i(2) in auto)
  then have p: "path_ok (fmupd i ?n ns) flr i (?n # ps)" using i by simp
  have f: "\<forall>x \<in> set ips. fst x \<noteq> [] \<and> snd x \<noteq> None \<and> fmlookup (fmupd i ?n ns) (fst x) = None \<and> fst x \<noteq> flr"
    using 2(4) i(4) by (metis fmupd_lookup imageI list.set_intros(2))
  have "path_ok ns' flr h (rev (new_nodes now i ips) @ ?n # ps)"
    by (rule 2(1) [OF _ _ f p]) (use 2(2,3) in simp_all)
  then show ?case by simp
qed simp

lemma append_nodes_mono:
  "append_nodes now parent ips ns = (ns', h) \<Longrightarrow> \<forall>x \<in> set ips. fmlookup ns (fst x) = None \<Longrightarrow>
     distinct (map fst ips) \<Longrightarrow> fmlookup ns k = Some n \<Longrightarrow> fmlookup ns' k = Some n"
proof (induction now parent ips ns rule: append_nodes.induct)
  case (2 now parent i p ips ns)
  have "k \<noteq> i" using 2(3,5) by auto
  moreover have "\<forall>x \<in> set ips. fmlookup (fmupd i \<lparr>nd_ID = i, nd_Parent = parent, nd_Payload = p, nd_CreatedAt = now\<rparr> ns) (fst x) = None"
    using 2(3,4) by (metis distinct.simps(2) fmupd_lookup fst_conv imageI list.set_intros(2) list.simps(9) set_map)
  ultimately show ?case using 2 by simp
qed simp

section \<open>Properties of trees\<close>

lemma reachable_tree_wf: "tree_step\<^sup>*\<^sup>* NewTree t \<Longrightarrow> tree_wf t"
  by (induction rule: rtranclp_induct) (auto intro: NewTree_wf tree_step_wf)

text \<open>
  C11: on every tree the operations can build, \<^verbatim>\<open>Path\<close> returns. For an existing branch it is the
  chain of nodes, without repetition, from a root or the branch's floor down to the head; for an
  unknown branch it is the not-found error.
\<close>

theorem Tree_Path_returns:
  assumes "tree_step\<^sup>*\<^sup>* NewTree t"
  shows "case Tree_Head b t of
      None \<Rightarrow> Tree_Path b t = Some (Inl (ConvBranchNotFound (or_main b)))
    | Some h \<Rightarrow> \<exists>ns. Tree_Path b t = Some (Inr ns) \<and> successively (\<lambda>a b. nd_Parent b = nd_ID a) ns \<and>
        distinct (map nd_ID ns) \<and> (ns = [] \<longleftrightarrow> h = []) \<and>
        (ns \<noteq> [] \<longrightarrow> nd_ID (last ns) = h \<and>
           (nd_Parent (hd ns) = [] \<or> Tree_Floor b t = Some (nd_ID (hd ns))))"
proof (cases "Tree_Head b t")
  case None
  then show ?thesis by (simp add: Tree_Head_def Tree_Path_def Let_def)
next
  case (Some h)
  have wf: "tree_wf t" by (rule reachable_tree_wf [OF assms])
  then obtain rank where rank: "ranked rank (tr_nodes t)" by (auto simp: tree_wf_def)
  obtain ps where ps: "path_ok (tr_nodes t) (floor_of t (or_main b)) h ps" "Tree_Path b t = Some (Inr (rev ps))"
    using Tree_Path_exists [OF wf] Some by (auto simp: Tree_Head_def)
  note l = path_ok_linked [OF rank ps(1)]
  have "ps = [] \<longleftrightarrow> h = []" using ps(1) by (cases ps) auto
  moreover have "nd_ID (last ps) = floor_of t (or_main b) \<Longrightarrow> ps \<noteq> [] \<Longrightarrow> Tree_Floor b t = Some (nd_ID (last ps))"
  proof -
    assume a: "nd_ID (last ps) = floor_of t (or_main b)" "ps \<noteq> []"
    have "last ps \<in> set ps" using a(2) by simp
    moreover have "nd_ID n \<noteq> []" if "n \<in> set ps" for n
      using ps(1) that rank
    proof (induction ps arbitrary: h)
      case (Cons m ps)
      then show ?case by (auto simp: ranked_def split: if_splits)
    qed simp
    ultimately show "Tree_Floor b t = Some (nd_ID (last ps))"
      using a(1) by (auto simp: Tree_Floor_def floor_of_def split: option.splits)
  qed
  ultimately show ?thesis using l ps(2) Some by (auto simp: last_rev hd_rev rev_map [symmetric])
qed


lemma or_main_idem [simp]: "or_main (or_main b) = or_main b"
  by (simp add: or_main_def ConvMainBranch_def)

text \<open>Two trees that agree on what a branch reads give it the same path.\<close>

lemma Tree_Path_cong:
  assumes "tree_wf t" "fmlookup (tr_branches t') (or_main b) = fmlookup (tr_branches t) (or_main b)"
    "floor_of t' (or_main b) = floor_of t (or_main b)"
    "\<And>k n. fmlookup (tr_nodes t) k = Some n \<Longrightarrow> fmlookup (tr_nodes t') k = Some n"
  shows "Tree_Path b t' = Tree_Path b t"
proof (cases "fmlookup (tr_branches t) (or_main b)")
  case None
  then show ?thesis using assms(2) by (simp add: Tree_Path_def Let_def)
next
  case (Some h)
  then obtain ps where ps: "path_ok (tr_nodes t) (floor_of t (or_main b)) h ps" "Tree_Path b t = Some (Inr (rev ps))"
    using Tree_Path_exists [OF assms(1)] by blast
  have "path_ok (tr_nodes t') (floor_of t' (or_main b)) h ps"
    using path_ok_mono [OF ps(1) assms(4)] assms(3) by simp
  then show ?thesis using Tree_Path_ok [of t' b h ps] assms(2) Some ps(2) by simp
qed

text \<open>
  appending extends the path of its branch by one node per payload, in order, and leaves the
  path of every other branch alone.
\<close>

lemma AppendMany_extends_path:
  assumes "tree_wf t" "fresh_ids ids ps t" "Tree_AppendMany ids now branch ps t = (Inr out, t')"
    "floor_of t (or_main branch) \<notin> set ids"
  shows "out = ids \<and> (\<exists>old new. Tree_Path branch t = Some (Inr old) \<and> Tree_Path branch t' = Some (Inr (old @ new)) \<and>
      map nd_ID new = ids \<and> map nd_Payload new = ps) \<and>
    (\<forall>b. or_main b \<noteq> or_main branch \<longrightarrow> Tree_Path b t' = Tree_Path b t)"
  using assms(3,2)
proof (rule AppendMany_success)
  fix parent h ns
  assume a: "fmlookup (tr_branches t) (or_main branch) = Some parent" "None \<notin> set ps"
    "append_nodes now parent (zip ids ps) (tr_nodes t) = (ns, h)" "out = ids"
    "t' = t\<lparr>tr_nodes := ns, tr_branches := fmupd (or_main branch) h (tr_branches t)\<rparr>"
  note z = fresh_zip [OF assms(2) a(2)]
  obtain old where old: "path_ok (tr_nodes t) (floor_of t (or_main branch)) parent old"
    "Tree_Path branch t = Some (Inr (rev old))" using Tree_Path_exists [OF assms(1) a(1)] .
  have "\<forall>x \<in> set (zip ids ps). fst x \<noteq> [] \<and> snd x \<noteq> None \<and> fmlookup (tr_nodes t) (fst x) = None \<and>
      fst x \<noteq> floor_of t (or_main branch)"
    using z(1) assms(4) by (metis in_set_zip nth_mem fst_conv prod.collapse)
  from append_nodes_path [OF a(3) z(2) this old(1)]
  have "Tree_Path branch t' = Some (Inr (rev old @ new_nodes now parent (zip ids ps)))"
    using Tree_Path_ok [of t' branch h] a(5) by (simp add: floor_of_def)
  moreover have "map nd_ID (new_nodes now parent (zip ids ps)) = ids" "map nd_Payload (new_nodes now parent (zip ids ps)) = ps"
    using assms(2) by (simp_all add: new_nodes_map fresh_ids_def)
  moreover have "Tree_Path b t' = Tree_Path b t" if b: "or_main b \<noteq> or_main branch" for b
  proof (rule Tree_Path_cong [OF assms(1)])
    show "fmlookup (tr_branches t') (or_main b) = fmlookup (tr_branches t) (or_main b)" using a(5) b by simp
    show "floor_of t' (or_main b) = floor_of t (or_main b)" using a(5) by (simp add: floor_of_def)
    fix k n assume "fmlookup (tr_nodes t) k = Some n"
    then show "fmlookup (tr_nodes t') k = Some n"
      using append_nodes_mono [OF a(3) _ z(2)] z(1) a(5) by simp
  qed
  ultimately show ?thesis using old(2) a(4) by blast
qed

text \<open>
  a fork starts with the whole history of its source branch. If the source has no floor the
  paths are equal; every other branch keeps its path.
\<close>

lemma Tree_Fork_path:
  assumes "tree_wf t" "Tree_Fork nb from to t = (Inr (), t')" "to \<noteq> []"
    "Tree_Floor from t = None" "Tree_Floor to t = None"
  shows "Tree_Path to t' = Tree_Path from t \<and> (\<forall>b. or_main b \<noteq> to \<longrightarrow> Tree_Path b t' = Tree_Path b t)"
proof -
  obtain h where h: "fmlookup (tr_branches t) (or_main from) = Some h"
    "t' = t\<lparr>tr_branches := fmupd to h (tr_branches t)\<rparr>"
    using assms(2,3) by (auto simp: Tree_Fork_def Let_def split: option.splits if_splits)
  have to: "or_main to = to" using assms(3) by (simp add: or_main_def)
  have fl: "floor_of t (or_main from) = []" "floor_of t to = []"
    using assms(4,5) to by (auto simp: Tree_Floor_def floor_of_def split: option.splits if_splits)
  obtain ps where ps: "path_ok (tr_nodes t) [] h ps" "Tree_Path from t = Some (Inr (rev ps))"
    using Tree_Path_exists [OF assms(1) h(1)] fl(1) by auto
  have "Tree_Path to t' = Some (Inr (rev ps))"
    using Tree_Path_ok [of t' to h ps] ps(1) h(2) to fl(2) by (simp add: floor_of_def)
  moreover have "Tree_Path b t' = Tree_Path b t" if "or_main b \<noteq> to" for b
    by (rule Tree_Path_cong [OF assms(1)]) (use h(2) that in \<open>auto simp: floor_of_def\<close>)
  ultimately show ?thesis using ps(2) by simp
qed

definition demo_payload :: payload where
  "demo_payload = MessageEvent no_message"

definition demo_tree :: tree where
  "demo_tree = snd (Tree_AppendMany [''n1'', ''n2''] 7 [] [Some demo_payload, Some demo_payload] NewTree)"

lemma demo_fresh: "fresh_ids [''n1'', ''n2''] [Some demo_payload, Some demo_payload] NewTree"
  by (simp add: fresh_ids_def NewTree_def)

lemma demo_tree_step: "tree_step NewTree demo_tree"
  unfolding demo_tree_def by (rule tree_step.append [OF demo_fresh]) (rule surjective_pairing)

lemma demo_tree_wf: "tree_wf demo_tree"
  by (rule tree_step_wf [OF demo_tree_step NewTree_wf])

theorem Tree_Path_returns_witness:
  "tree_step\<^sup>*\<^sup>* NewTree demo_tree \<and> (\<exists>ns. Tree_Path [] demo_tree = Some (Inr ns) \<and> nd_ID (last ns) = ''n2'') \<and>
   Tree_Path ''x'' demo_tree = Some (Inl (ConvBranchNotFound ''x''))"
proof -
  have r: "tree_step\<^sup>*\<^sup>* NewTree demo_tree" using demo_tree_step by blast
  have h: "Tree_Head [] demo_tree = Some ''n2''" "Tree_Head ''x'' demo_tree = None"
    by (simp_all add: demo_tree_def Tree_AppendMany_def NewTree_def Tree_Head_def or_main_def ConvMainBranch_def Let_def)
  from Tree_Path_returns [OF r, of "[]"] Tree_Path_returns [OF r, of "''x''"] r h show ?thesis
    by (auto simp: or_main_def)
qed

lemma AppendMany_extends_path_example:
  "\<exists>old new t'. Tree_AppendMany [''n3''] 8 ''main'' [Some demo_payload] demo_tree = (Inr [''n3''], t') \<and>
    Tree_Path ''main'' demo_tree = Some (Inr old) \<and> Tree_Path ''main'' t' = Some (Inr (old @ new)) \<and>
    map nd_ID new = [''n3'']"
proof -
  have f: "fresh_ids [''n3''] [Some demo_payload] demo_tree"
    by (simp add: fresh_ids_def demo_tree_def Tree_AppendMany_def NewTree_def or_main_def Let_def)
  have "\<exists>out t'. Tree_AppendMany [''n3''] 8 ''main'' [Some demo_payload] demo_tree = (Inr out, t')"
    by (simp add: demo_tree_def Tree_AppendMany_def NewTree_def or_main_def ConvMainBranch_def Let_def)
  then obtain out t' where a: "Tree_AppendMany [''n3''] 8 ''main'' [Some demo_payload] demo_tree = (Inr out, t')" by blast
  have "floor_of demo_tree (or_main ''main'') = []"
    by (simp add: demo_tree_def Tree_AppendMany_def NewTree_def floor_of_def or_main_def ConvMainBranch_def Let_def)
  with AppendMany_extends_path [OF demo_tree_wf f a] a show ?thesis by auto
qed

lemma Tree_Fork_path_example:
  "\<exists>t'. Tree_Fork ''b'' [] ''alt'' demo_tree = (Inr (), t') \<and> Tree_Path ''alt'' t' = Tree_Path [] demo_tree"
proof -
  have "\<exists>t'. Tree_Fork ''b'' [] ''alt'' demo_tree = (Inr (), t')"
    by (simp add: demo_tree_def Tree_AppendMany_def NewTree_def Tree_Fork_def or_main_def ConvMainBranch_def Let_def)
  then obtain t' where f: "Tree_Fork ''b'' [] ''alt'' demo_tree = (Inr (), t')" by blast
  have "Tree_Floor [] demo_tree = None" "Tree_Floor ''alt'' demo_tree = None"
    by (simp_all add: demo_tree_def Tree_AppendMany_def NewTree_def Tree_Floor_def or_main_def ConvMainBranch_def Let_def)
  with Tree_Fork_path [OF demo_tree_wf f] f show ?thesis by auto
qed

end
