(* ===== verification/Conversation_Items.thy ===== *)
theory Conversation_Items
  imports Conversation_Tree Go_Json
begin

text \<open>
  Items of a conversation branch and the messages a request is built from
  (\<^verbatim>\<open>src/conversation/item.go\<close>, \<^verbatim>\<open>projection.go\<close>, \<^verbatim>\<open>projection_policy.go\<close>, \<^verbatim>\<open>continuation.go\<close>). The main result is about \<^verbatim>\<open>NormalizeItems\<close>: whatever the history, in the
  message list sent to a provider every tool call is answered exactly once and after it was made.

  The constants of the package \<^verbatim>\<open>unified\<close> that the projection policy compares with are arguments
  (record \<^verbatim>\<open>unified_consts\<close>); \<^verbatim>\<open>unified.Extensions\<close> is used through its map interface only and is a map.
\<close>

section \<open>Items\<close>

datatype item_kind =
    ItemMessage
  | ItemAssistantTurn
  | ItemToolCall
  | ItemToolResult
  | ItemReasoning
  | ItemContinuation
  | ItemContextFragment
  | ItemCompaction
  | ItemAnnotation

record item =
  it_Kind :: item_kind
  it_NodeID :: string
  it_ParentNodeID :: string
  it_BranchID :: string
  it_Message :: message
  it_ToolCall :: tool_call
  it_ToolResult :: tool_result
  it_Reasoning :: reasoning_part
  it_Continuation :: provider_continuation
  it_Assistant :: "assistant_turn option"
  it_Compaction :: "compaction option"
  it_Payload :: "payload option"

definition no_call :: tool_call where
  "no_call = \<lparr>call_ID = [], call_Name = [], call_Arguments = []\<rparr>"

definition no_result :: tool_result where
  "no_result = \<lparr>res_ToolCallID = [], res_Name = [], res_Content = [], res_IsError = False\<rparr>"

definition no_reasoning :: reasoning_part where
  "no_reasoning = \<lparr>rs_Text = [], rs_Signature = []\<rparr>"

definition no_continuation :: provider_continuation where
  "no_continuation = \<lparr>pc_ProviderName = [], pc_APIKind = [], pc_APIFamily = [], pc_NativeModel = [],
     pc_ResponseID = [], pc_ConsumerContinuation = [], pc_InternalContinuation = [], pc_Transport = [],
     pc_Extensions = fmempty\<rparr>"

text \<open>An item with every field but its kind and message zero.\<close>

definition plain_item :: "item_kind \<Rightarrow> message \<Rightarrow> item" where
  "plain_item k m = \<lparr>it_Kind = k, it_NodeID = [], it_ParentNodeID = [], it_BranchID = [], it_Message = m,
     it_ToolCall = no_call, it_ToolResult = no_result, it_Reasoning = no_reasoning,
     it_Continuation = no_continuation, it_Assistant = None, it_Compaction = None, it_Payload = None\<rparr>"

definition compactionMessage :: "compaction \<Rightarrow> message" where
  "compactionMessage c = \<lparr>msg_Role = RoleUser, msg_ID = [], msg_Name = ''conversation_summary'', msg_Phase = [],
     msg_Content = [plain_text (cmp_Summary c)], msg_ToolCalls = [], msg_ToolResults = [],
     msg_Meta = [(''agentsdk.kind'', MetaText ''conversation.compaction''), (''replaces'', MetaNodes (cmp_Replaces c))]\<rparr>"

text \<open>
  The item of one node of a path: \<^term>\<open>None\<close> where the loop of \<^verbatim>\<open>ProjectItems\<close> continues without an
  item. The second component is the compaction to place, if the node is one.
\<close>

definition message_item :: "item \<Rightarrow> message \<Rightarrow> item" where
  "message_item i m = i\<lparr>it_Kind := ItemMessage, it_Message := m\<rparr>"

definition assistant_item :: "item \<Rightarrow> assistant_turn \<Rightarrow> item" where
  "assistant_item i a = i\<lparr>it_Kind := ItemAssistantTurn, it_Assistant := Some a, it_Message := at_Message a\<rparr>"

definition compaction_item :: "item \<Rightarrow> compaction \<Rightarrow> item" where
  "compaction_item i c = i\<lparr>it_Kind := ItemCompaction, it_Compaction := Some c, it_Message := compactionMessage c\<rparr>"

fun node_item :: "item \<Rightarrow> payload option \<Rightarrow> (item \<times> compaction option) option" where
  "node_item i (Some (MessageEvent m)) = Some (message_item i m, None)"
| "node_item i (Some (PtrMessageEvent (Some m))) = Some (message_item i m, None)"
| "node_item i (Some (AssistantTurnEvent a)) = Some (assistant_item i a, None)"
| "node_item i (Some (PtrAssistantTurnEvent (Some a))) = Some (assistant_item i a, None)"
| "node_item i (Some (CompactionEvent c)) = Some (compaction_item i c, Some c)"
| "node_item i (Some (PtrCompactionEvent (Some c))) = Some (compaction_item i c, Some c)"
| "node_item i (Some (AnnotationEvent t)) = Some (i\<lparr>it_Kind := ItemAnnotation\<rparr>, None)"
| "node_item i (Some (PtrAnnotationEvent t)) = Some (i\<lparr>it_Kind := ItemAnnotation\<rparr>, None)"
| "node_item i _ = None"

record projection =
  pj_items :: "item list"
  pj_indexByNode :: "string \<rightharpoonup> nat"
  pj_replaced :: "string list"
  pj_compactions :: "(nat \<times> item) list"

text \<open>\<^verbatim>\<open>placeCompaction\<close>: where a summary goes, and which nodes it replaces.\<close>

fun place_index :: "(string \<rightharpoonup> nat) \<Rightarrow> string list \<Rightarrow> nat \<times> bool \<Rightarrow> nat \<times> bool" where
  "place_index idx [] st = st"
| "place_index idx (i # is) (index, found) =
     (case idx i of
        None \<Rightarrow> place_index idx is (index, found)
      | Some n \<Rightarrow> if \<not> found \<or> n < index then place_index idx is (n, True) else place_index idx is (index, found))"

definition placeCompaction :: "(string \<rightharpoonup> nat) \<Rightarrow> item \<Rightarrow> string list \<Rightarrow> nat \<Rightarrow> nat \<times> item" where
  "placeCompaction idx it replaces fallback =
     (case place_index idx replaces (fallback, False) of
        (index, found) \<Rightarrow> (if \<not> found \<and> replaces \<noteq> [] then 0 else index, it))"

definition node_base :: "string \<Rightarrow> node \<Rightarrow> item" where
  "node_base branch n = (plain_item ItemMessage no_message)\<lparr>it_NodeID := nd_ID n, it_ParentNodeID := nd_Parent n,
     it_BranchID := branch, it_Payload := nd_Payload n\<rparr>"

fun project_nodes :: "string \<Rightarrow> nat \<Rightarrow> node list \<Rightarrow> projection \<Rightarrow> projection" where
  "project_nodes branch index [] st = st"
| "project_nodes branch index (n # ns) st =
     (let idx = (pj_indexByNode st)(nd_ID n \<mapsto> index);
          st1 = st\<lparr>pj_indexByNode := idx\<rparr>
      in case node_item (node_base branch n) (nd_Payload n) of
           None \<Rightarrow> project_nodes branch (Suc index) ns st1
         | Some (it, None) \<Rightarrow> project_nodes branch (Suc index) ns (st1\<lparr>pj_items := pj_items st1 @ [it]\<rparr>)
         | Some (it, Some c) \<Rightarrow>
             project_nodes branch (Suc index) ns
               (st1\<lparr>pj_items := pj_items st1 @ [it],
                    pj_replaced := pj_replaced st1 @ cmp_Replaces c,
                    pj_compactions := pj_compactions st1 @ [placeCompaction idx it (cmp_Replaces c) index]\<rparr>))"

text \<open>The second loop of \<^verbatim>\<open>ProjectItems\<close>: summaries at their index, replaced items dropped.\<close>

fun place_items :: "string list \<Rightarrow> nat \<Rightarrow> (nat \<times> item) list \<Rightarrow> item list \<Rightarrow> item list" where
  "place_items replaced index cs [] = map snd cs"
| "place_items replaced index cs (it # its) =
     (let here = takeWhile (\<lambda>c. fst c = index) cs; rest = dropWhile (\<lambda>c. fst c = index) cs
      in map snd here @
         (if it_Kind it = ItemCompaction \<or> it_NodeID it \<in> set replaced then [] else [it]) @
         place_items replaced (Suc index) rest its)"

definition ProjectItems :: "tree option \<Rightarrow> string \<Rightarrow> (conv_error, item list) result option" where
  "ProjectItems tree branch =
     (case tree of None \<Rightarrow> Some (Inl ConvTreeNil) | Some t \<Rightarrow>
        map_option (\<lambda>r. rbind r (\<lambda>path.
          let p = project_nodes branch 0 path
                \<lparr>pj_items = [], pj_indexByNode = Map.empty, pj_replaced = [], pj_compactions = []\<rparr>
          in Inr (if pj_replaced p \<noteq> [] then place_items (pj_replaced p) 0 (sort_key fst (pj_compactions p)) (pj_items p)
                  else pj_items p))) (Tree_Path branch t))"

section \<open>Sanitizing\<close>

fun keep_reasoning :: "content_part \<Rightarrow> bool" where
  "keep_reasoning (ReasoningPart r) = (rs_Signature r \<noteq> [])"
| "keep_reasoning (PtrReasoningPart None) = False"
| "keep_reasoning (PtrReasoningPart (Some r)) = (rs_Signature r \<noteq> [])"
| "keep_reasoning _ = True"

definition sanitizeAssistantContentForRequest :: "content_part list \<Rightarrow> content_part list" where
  "sanitizeAssistantContentForRequest ps = filter keep_reasoning ps"

definition sanitizeMessageForRequest :: "message \<Rightarrow> message" where
  "sanitizeMessageForRequest m =
     (let m1 = (if msg_Role m = RoleAssistant \<and> HasPrefix (msg_ID m) ''resp_'' then m\<lparr>msg_ID := []\<rparr> else m)
      in if msg_Role m1 = RoleAssistant
         then m1\<lparr>msg_Content := sanitizeAssistantContentForRequest (msg_Content m1)\<rparr> else m1)"

definition has_source :: "blob_source \<Rightarrow> bool" where
  "has_source m \<longleftrightarrow> \<not> (bs_URL m = [] \<and> bs_Base64 m = [])"

fun keep_part :: "content_part \<Rightarrow> bool" where
  "keep_part (ImagePart m) = has_source (im_Source m)"
| "keep_part (PtrImagePart None) = False"
| "keep_part (PtrImagePart (Some m)) = has_source (im_Source m)"
| "keep_part (FilePart m) = has_source (fl_Source m)"
| "keep_part (PtrFilePart None) = False"
| "keep_part (PtrFilePart (Some m)) = has_source (fl_Source m)"
| "keep_part _ = True"

definition sanitizeContentParts :: "content_part list \<Rightarrow> content_part list" where
  "sanitizeContentParts ps = filter keep_part ps"

definition sanitizeToolCalls :: "tool_call list \<Rightarrow> tool_call list" where
  "sanitizeToolCalls cs = filter (\<lambda>c. \<not> (call_ID c = [] \<or> call_Name c = [])) cs"

text \<open>The result list and the set of completed calls, which the loop extends as it goes.\<close>

fun sanitizeToolResults ::
  "tool_result list \<Rightarrow> (string, tool_call) fmap \<Rightarrow> string list \<Rightarrow> tool_result list \<times> string list" where
  "sanitizeToolResults [] pending completed = ([], completed)"
| "sanitizeToolResults (r # rs) pending completed =
     (if res_ToolCallID r = [] then sanitizeToolResults rs pending completed
      else if res_ToolCallID r \<in> set completed then sanitizeToolResults rs pending completed
      else if fmlookup pending (res_ToolCallID r) = None then sanitizeToolResults rs pending completed
      else case sanitizeToolResults rs pending (res_ToolCallID r # completed) of
        (out, done) \<Rightarrow> (r\<lparr>res_Content := sanitizeContentParts (res_Content r)\<rparr> # out, done))"

fun reasoning_of :: "content_part \<Rightarrow> reasoning_part list" where
  "reasoning_of (ReasoningPart r) = [r]"
| "reasoning_of (PtrReasoningPart (Some r)) = [r]"
| "reasoning_of _ = []"

definition reasoningParts :: "content_part list \<Rightarrow> reasoning_part list" where
  "reasoningParts ps = concat (map reasoning_of ps)"

section \<open>Expanding and normalizing\<close>

definition is_message_kind :: "item_kind \<Rightarrow> bool" where
  "is_message_kind k \<longleftrightarrow> k \<in> {ItemMessage, ItemAssistantTurn, ItemContextFragment, ItemCompaction}"

text \<open>A derived item: the source item with one aspect in place of its message.\<close>

definition derived_item ::
  "item \<Rightarrow> item_kind \<Rightarrow> reasoning_part \<Rightarrow> tool_call \<Rightarrow> tool_result \<Rightarrow> provider_continuation \<Rightarrow> item" where
  "derived_item it k r c s p = it\<lparr>it_Kind := k, it_Message := no_message, it_Reasoning := r,
     it_ToolCall := c, it_ToolResult := s, it_Continuation := p\<rparr>"

definition expand_item :: "item \<Rightarrow> item list" where
  "expand_item it =
     (if is_message_kind (it_Kind it) then
        it # map (\<lambda>r. derived_item it ItemReasoning r no_call no_result no_continuation)
               (reasoningParts (msg_Content (it_Message it)))
           @ map (\<lambda>c. derived_item it ItemToolCall no_reasoning c no_result no_continuation)
               (msg_ToolCalls (it_Message it))
           @ map (\<lambda>s. derived_item it ItemToolResult no_reasoning no_call s no_continuation)
               (msg_ToolResults (it_Message it))
           @ (case it_Assistant it of None \<Rightarrow> [] | Some a \<Rightarrow>
                map (\<lambda>p. derived_item it ItemContinuation no_reasoning no_call no_result p) (at_Continuations a))
      else [it])"

definition ExpandItems :: "item list \<Rightarrow> item list" where
  "ExpandItems its = concat (map expand_item its)"

text \<open>The inner loop over an assistant message's calls.\<close>

fun filter_calls ::
  "string list \<Rightarrow> tool_call list \<Rightarrow> (string, tool_call) fmap \<Rightarrow> tool_call list \<times> (string, tool_call) fmap" where
  "filter_calls completed [] pending = ([], pending)"
| "filter_calls completed (c # cs) pending =
     (if call_ID c \<in> set completed then filter_calls completed cs pending
      else if fmlookup pending (call_ID c) \<noteq> None then filter_calls completed cs pending
      else case filter_calls completed cs (fmupd (call_ID c) c pending) of (out, p) \<Rightarrow> (c # out, p))"

text \<open>One iteration of the first loop: the pending calls, the completed calls and the kept item.\<close>

definition normalize_step ::
  "item \<Rightarrow> (string, tool_call) fmap \<Rightarrow> string list \<Rightarrow> (string, tool_call) fmap \<times> string list \<times> item option" where
  "normalize_step it pending completed =
     (if \<not> is_message_kind (it_Kind it) then (pending, completed, None)
      else
        let m0 = sanitizeMessageForRequest (it_Message it);
            m1 = m0\<lparr>msg_Content := sanitizeContentParts (msg_Content m0)\<rparr>;
            (m2, pending1) = (if msg_Role m1 = RoleAssistant
               then (case filter_calls completed (sanitizeToolCalls (msg_ToolCalls m1)) pending of
                       (cs, p) \<Rightarrow> (m1\<lparr>msg_ToolCalls := cs\<rparr>, p))
               else (m1, pending));
            (m3, completed1, pending2) = (if msg_Role m2 = RoleTool
               then (case sanitizeToolResults (msg_ToolResults m2) pending1 completed of
                       (rs, done) \<Rightarrow> (m2\<lparr>msg_ToolResults := rs\<rparr>, done,
                                      fold fmdrop (map res_ToolCallID rs) pending1))
               else (m2, completed, pending1))
        in if msg_Role m3 = RoleTool \<and> msg_ToolResults m3 = [] \<and> msg_Content m3 = []
           then (pending2, completed1, None)
           else if msg_Content m3 = [] \<and> msg_ToolCalls m3 = [] \<and> msg_ToolResults m3 = []
           then (pending2, completed1, None)
           else (pending2, completed1, Some (it\<lparr>it_Message := m3\<rparr>)))"

fun normalize_loop ::
  "item list \<Rightarrow> (string, tool_call) fmap \<Rightarrow> string list \<Rightarrow> item list \<times> (string, tool_call) fmap" where
  "normalize_loop [] pending completed = ([], pending)"
| "normalize_loop (it # its) pending completed =
     (case normalize_step it pending completed of
        (p, c, None) \<Rightarrow> normalize_loop its p c
      | (p, c, Some it') \<Rightarrow> (case normalize_loop its p c of (out, p') \<Rightarrow> (it' # out, p')))"

definition missing_result :: "tool_call \<Rightarrow> tool_result" where
  "missing_result c = \<lparr>res_ToolCallID = call_ID c, res_Name = call_Name c,
     res_Content = [plain_text ''[Tool result missing]''], res_IsError = True\<rparr>"

fun missing_results :: "tool_call list \<Rightarrow> (string, tool_call) fmap \<Rightarrow> tool_result list \<times> (string, tool_call) fmap" where
  "missing_results [] pending = ([], pending)"
| "missing_results (c # cs) pending =
     (if call_ID c = [] then missing_results cs pending
      else if fmlookup pending (call_ID c) = None then missing_results cs pending
      else case missing_results cs (fmdrop (call_ID c) pending) of (rs, p) \<Rightarrow> (missing_result c # rs, p))"

fun insert_missing :: "item list \<Rightarrow> (string, tool_call) fmap \<Rightarrow> item list" where
  "insert_missing [] pending = []"
| "insert_missing (it # its) pending =
     (if it_Kind it \<noteq> ItemAssistantTurn \<and> it_Kind it \<noteq> ItemMessage then it # insert_missing its pending
      else if msg_Role (it_Message it) \<noteq> RoleAssistant then it # insert_missing its pending
      else case missing_results (msg_ToolCalls (it_Message it)) pending of
        (rs, p) \<Rightarrow> it # (if rs = [] then []
           else [plain_item ItemMessage (no_message\<lparr>msg_Role := RoleTool, msg_ToolResults := rs\<rparr>)]) @ insert_missing its p)"

definition NormalizeItems :: "item list \<Rightarrow> item list" where
  "NormalizeItems its =
     (case normalize_loop (ExpandItems its) fmempty [] of
        (messages, pending) \<Rightarrow> if pending = fmempty then messages else insert_missing messages pending)"

definition MessagesFromItems :: "item list \<Rightarrow> message list" where
  "MessagesFromItems its =
     map (\<lambda>it. sanitizeMessageForRequest (it_Message it)) (filter (\<lambda>it. is_message_kind (it_Kind it)) (NormalizeItems its))"

definition ProjectMessages :: "tree option \<Rightarrow> string \<Rightarrow> (conv_error, message list) result option" where
  "ProjectMessages tree branch = map_option (\<lambda>r. rbind r (\<lambda>its. Inr (MessagesFromItems its))) (ProjectItems tree branch)"

definition ItemsFromMessages :: "message list \<Rightarrow> item list" where
  "ItemsFromMessages ms = map (plain_item ItemMessage) ms"


section \<open>Provider continuations and the default projection\<close>

definition ToLower :: "string \<Rightarrow> string" where
  "ToLower s = map ascii_lower s"

definition NewProviderContinuation ::
  "provider_identity \<Rightarrow> string \<Rightarrow> (string, string) fmap \<Rightarrow> provider_continuation" where
  "NewProviderContinuation i responseID ext =
     no_continuation\<lparr>pc_ProviderName := pid_ProviderName i, pc_APIKind := pid_APIKind i,
       pc_APIFamily := pid_APIFamily i, pc_NativeModel := pid_NativeModel i,
       pc_ResponseID := responseID, pc_Extensions := ext\<rparr>"

definition isResponsesKind :: "string \<Rightarrow> bool" where
  "isResponsesKind k0 = (let k = ToLower (TrimSpace k0) in
     k = ''responses'' \<or> HasSuffix k ''.responses'' \<or> Contains k ''responses'')"

definition apiKindMatches :: "string \<Rightarrow> string \<Rightarrow> bool" where
  "apiKindMatches a0 b0 = (let a = ToLower (TrimSpace a0); b = ToLower (TrimSpace b0) in
     a = b \<or> (isResponsesKind a \<and> isResponsesKind b))"

definition Continuation_Matches :: "provider_continuation \<Rightarrow> provider_identity \<Rightarrow> bool" where
  "Continuation_Matches c i =
     (if pid_ProviderName i \<noteq> [] \<and> pc_ProviderName c \<noteq> [] \<and> pid_ProviderName i \<noteq> pc_ProviderName c then False
      else if pid_APIKind i \<noteq> [] \<and> pc_APIKind c \<noteq> [] \<and> \<not> apiKindMatches (pid_APIKind i) (pc_APIKind c) then False
      else if pid_APIFamily i \<noteq> [] \<and> pc_APIFamily c \<noteq> [] \<and> \<not> apiKindMatches (pid_APIFamily i) (pc_APIFamily c) then False
      else if pid_NativeModel i \<noteq> [] \<and> pc_NativeModel c \<noteq> [] \<and> pid_NativeModel i \<noteq> pc_NativeModel c then False
      else True)"

record unified_consts =
  uc_ExtPreviousResponseID :: string
  uc_ContinuationPreviousResponseID :: string

definition SupportsPublicPreviousResponseID :: "unified_consts \<Rightarrow> provider_continuation \<Rightarrow> bool" where
  "SupportsPublicPreviousResponseID u c \<longleftrightarrow> pc_ConsumerContinuation c = uc_ContinuationPreviousResponseID u"

definition usable_continuation ::
  "provider_identity \<Rightarrow> provider_continuation list \<Rightarrow> provider_continuation option" where
  "usable_continuation i cs = find (\<lambda>c. pc_ResponseID c \<noteq> [] \<and> Continuation_Matches c i) cs"

text \<open>Reading the continuations of a nil \<^verbatim>\<open>*AssistantTurnEvent\<close> panics.\<close>

fun payload_continuations :: "payload option \<Rightarrow> (conv_error, provider_continuation list) result" where
  "payload_continuations (Some (AssistantTurnEvent a)) = Inr (at_Continuations a)"
| "payload_continuations (Some (PtrAssistantTurnEvent (Some a))) = Inr (at_Continuations a)"
| "payload_continuations (Some (PtrAssistantTurnEvent None)) = Inl NilDereference"
| "payload_continuations _ = Inr []"

fun continuation_back ::
  "provider_identity \<Rightarrow> node list \<Rightarrow> (conv_error, provider_continuation option) result" where
  "continuation_back i [] = Inr None"
| "continuation_back i (n # ns) =
     rbind (payload_continuations (nd_Payload n)) (\<lambda>cs.
       case usable_continuation i cs of Some c \<Rightarrow> Inr (Some c) | None \<Rightarrow> continuation_back i ns)"

definition ContinuationAtHead ::
  "tree \<Rightarrow> string \<Rightarrow> provider_identity \<Rightarrow> (conv_error, provider_continuation option) result option" where
  "ContinuationAtHead t branch i =
     map_option (\<lambda>r. rbind r (\<lambda>path. continuation_back i (rev path))) (Tree_Path branch t)"

definition ContinuationAtBranchHead ::
  "tree option \<Rightarrow> string \<Rightarrow> provider_identity \<Rightarrow> (conv_error, provider_continuation option) result" where
  "ContinuationAtBranchHead tree branch i =
     (case tree of None \<Rightarrow> Inl ConvTreeNil | Some t \<Rightarrow>
        (case Tree_Head branch t of
           None \<Rightarrow> Inl (ConvBranchNotFound branch)
         | Some head \<Rightarrow>
             if head = [] then Inr None
             else case Tree_Node head t of
               None \<Rightarrow> Inl (ConvNodeNotFound head)
             | Some n \<Rightarrow> rbind (payload_continuations (nd_Payload n)) (\<lambda>cs. Inr (usable_continuation i cs))))"

record projection_input =
  pi_Tree :: "tree option"
  pi_Branch :: string
  pi_ProviderIdentity :: provider_identity
  pi_Items :: "item list"
  pi_PendingItems :: "item list"
  pi_Extensions :: "(string, string) fmap"
  pi_AllowNativeContinuation :: bool

record projection_result =
  pr_Messages :: "message list"
  pr_Extensions :: "(string, string) fmap"

definition mergeExtensions :: "(string, string) fmap \<Rightarrow> (string, string) fmap \<Rightarrow> (string, string) fmap" where
  "mergeExtensions base overlay = base ++\<^sub>f overlay"

definition full_projection :: "projection_input \<Rightarrow> projection_result" where
  "full_projection inp = \<lparr>pr_Messages = MessagesFromItems (pi_Items inp) @ MessagesFromItems (pi_PendingItems inp),
     pr_Extensions = pi_Extensions inp\<rparr>"

definition defaultProject :: "unified_consts \<Rightarrow> projection_input \<Rightarrow> (conv_error, projection_result) result" where
  "defaultProject u inp =
     (if pi_AllowNativeContinuation inp \<and> fmlookup (pi_Extensions inp) (uc_ExtPreviousResponseID u) = None then
        rbind (ContinuationAtBranchHead (pi_Tree inp) (pi_Branch inp) (pi_ProviderIdentity inp)) (\<lambda>r.
          case r of
            None \<Rightarrow> Inr (full_projection inp)
          | Some c \<Rightarrow>
              if SupportsPublicPreviousResponseID u c then
                let ext = mergeExtensions (pc_Extensions c) (pi_Extensions inp);
                    ext' = (if fmlookup ext (uc_ExtPreviousResponseID u) = None
                            then fmupd (uc_ExtPreviousResponseID u) (pc_ResponseID c) ext else ext)
                in Inr \<lparr>pr_Messages = MessagesFromItems (pi_PendingItems inp), pr_Extensions = ext'\<rparr>
              else Inr (full_projection inp))
      else Inr (full_projection inp))"

section \<open>Tool calls and their results\<close>

abbreviation keys :: "('k, 'v) fmap \<Rightarrow> 'k set" where
  "keys m \<equiv> fmdom' m"

definition assistant_calls :: "item \<Rightarrow> string list" where
  "assistant_calls it = (if msg_Role (it_Message it) = RoleAssistant then map call_ID (msg_ToolCalls (it_Message it)) else [])"

definition tool_answers :: "item \<Rightarrow> string list" where
  "tool_answers it = (if msg_Role (it_Message it) = RoleTool then map res_ToolCallID (msg_ToolResults (it_Message it)) else [])"

definition call_ids :: "item list \<Rightarrow> string list" where
  "call_ids its = concat (map assistant_calls its)"

definition result_ids :: "item list \<Rightarrow> string list" where
  "result_ids its = concat (map tool_answers its)"

lemma ids_simps [simp]:
  "call_ids [] = []" "call_ids (it # its) = assistant_calls it @ call_ids its"
  "call_ids (xs @ ys) = call_ids xs @ call_ids ys"
  "result_ids [] = []" "result_ids (it # its) = tool_answers it @ result_ids its"
  "result_ids (xs @ ys) = result_ids xs @ result_ids ys"
  by (simp_all add: call_ids_def result_ids_def)

text \<open>Every result answers a call in \<^term>\<open>S\<close> or an earlier one of the list.\<close>

fun answers_after :: "string set \<Rightarrow> item list \<Rightarrow> bool" where
  "answers_after S [] = True"
| "answers_after S (it # its) = (set (tool_answers it) \<subseteq> S \<and> answers_after (S \<union> set (assistant_calls it)) its)"

lemma keys_iff: "k \<in> keys m \<longleftrightarrow> fmlookup m k \<noteq> None"
  by (auto simp: fmlookup_dom'_iff)

lemma keys_fold_fmdrop: "keys (fold fmdrop ks m) = keys m - set ks"
proof (induction ks arbitrary: m)
  case (Cons k ks)
  then show ?case by auto
qed simp

lemma filter_calls_props:
  assumes "filter_calls completed cs p = (out, p')"
  shows "distinct (map call_ID out) \<and> call_ID ` set out \<inter> (set completed \<union> keys p) = {} \<and>
    keys p' = keys p \<union> call_ID ` set out \<and> set out \<subseteq> set cs"
  using assms
proof (induction completed cs p arbitrary: out p' rule: filter_calls.induct)
  case (2 completed c cs p)
  show ?case
  proof (cases "call_ID c \<in> set completed \<or> fmlookup p (call_ID c) \<noteq> None")
    case True
    then have "filter_calls completed cs p = (out, p')" using 2(4) by (auto split: if_splits)
    then have "distinct (map call_ID out) \<and> call_ID ` set out \<inter> (set completed \<union> keys p) = {} \<and>
      keys p' = keys p \<union> call_ID ` set out \<and> set out \<subseteq> set cs"
      using True 2(1,2) by (cases "call_ID c \<in> set completed") simp_all
    then show ?thesis by auto
  next
    case False
    then obtain out1 where out1: "filter_calls completed cs (fmupd (call_ID c) c p) = (out1, p')" "out = c # out1"
      using 2(4) by (auto split: if_splits prod.splits)
    have IH: "distinct (map call_ID out1)" "call_ID ` set out1 \<inter> (set completed \<union> keys (fmupd (call_ID c) c p)) = {}"
      "keys p' = keys (fmupd (call_ID c) c p) \<union> call_ID ` set out1" "set out1 \<subseteq> set cs"
      using 2(3) [OF _ _ out1(1)] False by auto
    have "call_ID c \<notin> keys p" using False by (simp add: keys_iff)
    then show ?thesis using IH False out1(2) by auto
  qed
qed simp

lemma sanitizeToolResults_props:
  assumes "sanitizeToolResults rs p completed = (out, done)"
  shows "distinct (map res_ToolCallID out) \<and> res_ToolCallID ` set out \<subseteq> keys p - set completed \<and>
    set done = set completed \<union> res_ToolCallID ` set out"
  using assms
proof (induction rs p completed arbitrary: out "done" rule: sanitizeToolResults.induct)
  case (2 r rs p completed)
  show ?case
  proof (cases "res_ToolCallID r = [] \<or> res_ToolCallID r \<in> set completed \<or> fmlookup p (res_ToolCallID r) = None")
    case True
    then have eq: "sanitizeToolResults rs p completed = (out, done)" using 2(5) by (auto split: if_splits)
    consider "res_ToolCallID r = []" | "res_ToolCallID r \<noteq> []" "res_ToolCallID r \<in> set completed"
      | "res_ToolCallID r \<noteq> []" "res_ToolCallID r \<notin> set completed" "fmlookup p (res_ToolCallID r) = None"
      using True by metis
    then show ?thesis by cases (rule 2(1) [OF _ eq] 2(2) [OF _ _ eq] 2(3) [OF _ _ _ eq]; assumption)+
  next
    case False
    then obtain out1 where out1: "sanitizeToolResults rs p (res_ToolCallID r # completed) = (out1, done)"
      "out = r\<lparr>res_Content := sanitizeContentParts (res_Content r)\<rparr> # out1"
      using 2(5) by (auto split: if_splits prod.splits)
    have IH: "distinct (map res_ToolCallID out1)" "res_ToolCallID ` set out1 \<subseteq> keys p - set (res_ToolCallID r # completed)"
      "set done = set (res_ToolCallID r # completed) \<union> res_ToolCallID ` set out1"
      using 2(4) [OF _ _ _ out1(1)] False by blast+
    have "res_ToolCallID r \<in> keys p" using False by (simp add: keys_iff)
    moreover have "res_ToolCallID r \<notin> res_ToolCallID ` set out1" using IH(2) by auto
    ultimately show ?thesis using IH False unfolding out1(2) by auto
  qed
qed simp

lemma sanitizeMessage_sel [simp]:
  "msg_Role (sanitizeMessageForRequest m) = msg_Role m"
  "msg_ToolCalls (sanitizeMessageForRequest m) = msg_ToolCalls m"
  "msg_ToolResults (sanitizeMessageForRequest m) = msg_ToolResults m"
  by (simp_all add: sanitizeMessageForRequest_def Let_def)

text \<open>One iteration, by role: what it adds and how the books move.\<close>

lemma normalize_step_props:
  assumes "normalize_step it p c = (p', c', r)" "keys p \<inter> set c = {}"
  shows "\<exists>calls results. keys p' = keys p \<union> set calls - set results \<and> set c' = set c \<union> set results \<and>
    distinct calls \<and> set calls \<inter> (keys p \<union> set c) = {} \<and> [] \<notin> set calls \<and>
    distinct results \<and> set results \<subseteq> keys p \<and> (calls = [] \<or> results = []) \<and>
    (case r of None \<Rightarrow> calls = [] \<and> results = []
     | Some it' \<Rightarrow> assistant_calls it' = calls \<and> tool_answers it' = results \<and> it_Kind it' = it_Kind it \<and>
         is_message_kind (it_Kind it) \<and> msg_Role (it_Message it') = msg_Role (it_Message it))"
proof (cases "is_message_kind (it_Kind it)")
  case False
  then show ?thesis using assms(1) by (intro exI [of _ "[]"]) (simp add: normalize_step_def)
next
  case True
  let ?m = "sanitizeMessageForRequest (it_Message it)"
  consider "msg_Role (it_Message it) = RoleAssistant" | "msg_Role (it_Message it) = RoleTool"
    | "msg_Role (it_Message it) \<noteq> RoleAssistant" "msg_Role (it_Message it) \<noteq> RoleTool" by blast
  then show ?thesis
  proof cases
    case 1
    obtain out p1 where f: "filter_calls c (sanitizeToolCalls (msg_ToolCalls (it_Message it))) p = (out, p1)"
      by (rule prod.exhaust)
    note fp = filter_calls_props [OF f]
    have ne: "[] \<notin> call_ID ` set out" using fp by (auto simp: sanitizeToolCalls_def)
    have st: "p' = p1" "c' = c" "r = None \<Longrightarrow> out = []"
      "r \<noteq> None \<Longrightarrow> \<exists>it'. r = Some it' \<and> msg_ToolCalls (it_Message it') = out \<and> it_Kind it' = it_Kind it \<and>
         msg_Role (it_Message it') = RoleAssistant"
      using assms(1) 1 True f by (auto simp: normalize_step_def Let_def split: if_splits)
    show ?thesis
      by (rule exI [of _ "map call_ID out"], rule exI [of _ "[]"])
        (use fp ne st True 1 in \<open>auto simp: assistant_calls_def tool_answers_def split: option.splits\<close>)
  next
    case 2
    obtain rs dn where f: "sanitizeToolResults (msg_ToolResults (it_Message it)) p c = (rs, dn)" by (rule prod.exhaust)
    note fp = sanitizeToolResults_props [OF f]
    have st: "p' = fold fmdrop (map res_ToolCallID rs) p" "c' = dn" "r = None \<Longrightarrow> rs = []"
      "r \<noteq> None \<Longrightarrow> \<exists>it'. r = Some it' \<and> msg_ToolResults (it_Message it') = rs \<and> it_Kind it' = it_Kind it \<and>
         msg_Role (it_Message it') = RoleTool"
      using assms(1) 2 True f by (auto simp: normalize_step_def Let_def split: if_splits)
    show ?thesis
      by (rule exI [of _ "[]"], rule exI [of _ "map res_ToolCallID rs"])
        (use fp st True 2 in \<open>auto simp: assistant_calls_def tool_answers_def keys_fold_fmdrop split: option.splits\<close>)
  next
    case 3
    have st: "p' = p" "c' = c" "r \<noteq> None \<Longrightarrow> \<exists>it'. r = Some it' \<and> it_Kind it' = it_Kind it \<and>
         msg_Role (it_Message it') = msg_Role (it_Message it)"
      using assms(1) 3 True by (auto simp: normalize_step_def Let_def split: if_splits)
    show ?thesis
      by (rule exI [of _ "[]"], rule exI [of _ "[]"])
        (use st True 3 in \<open>auto simp: assistant_calls_def tool_answers_def split: option.splits\<close>)
  qed
qed


definition calls_placed :: "item \<Rightarrow> bool" where
  "calls_placed it \<longleftrightarrow> (msg_Role (it_Message it) = RoleAssistant \<longrightarrow> it_Kind it = ItemMessage \<or> it_Kind it = ItemAssistantTurn)"

lemma answers_mono: "answers_after S its \<Longrightarrow> S \<subseteq> T \<Longrightarrow> answers_after T its"
  by (induction its arbitrary: S T) (auto, blast)

text \<open>The first loop: the books balance and results come after their calls.\<close>

definition loop_post ::
  "(string, tool_call) fmap \<Rightarrow> string list \<Rightarrow> item list \<Rightarrow> (string, tool_call) fmap \<Rightarrow> bool" where
  "loop_post p c out p' \<longleftrightarrow>
     distinct (call_ids out) \<and> set (call_ids out) \<inter> (keys p \<union> set c) = {} \<and> [] \<notin> set (call_ids out) \<and>
     distinct (result_ids out) \<and> set (result_ids out) \<inter> set c = {} \<and>
     keys p' = keys p \<union> set (call_ids out) - set (result_ids out) \<and>
     set (result_ids out) \<subseteq> keys p \<union> set (call_ids out) \<and> answers_after (keys p) out \<and>
     (\<forall>it \<in> set out. calls_placed it)"

lemma normalize_loop_props:
  assumes "normalize_loop its p c = (out, p')" "keys p \<inter> set c = {}"
    "\<forall>it \<in> set its. is_message_kind (it_Kind it) \<longrightarrow> calls_placed it"
  shows "loop_post p c out p'"
  using assms
proof (induction its arbitrary: p c out)
  case Nil
  then show ?case by (simp add: loop_post_def)
next
  case (Cons it its)
  obtain p1 c1 r where st: "normalize_step it p c = (p1, c1, r)" by (rule prod_cases3)
  obtain calls results where cr: "keys p1 = keys p \<union> set calls - set results" "set c1 = set c \<union> set results"
    "distinct calls" "set calls \<inter> (keys p \<union> set c) = {}" "[] \<notin> set calls" "distinct results" "set results \<subseteq> keys p"
    and r: "case r of None \<Rightarrow> calls = [] \<and> results = []
     | Some it' \<Rightarrow> assistant_calls it' = calls \<and> tool_answers it' = results \<and> it_Kind it' = it_Kind it \<and>
         is_message_kind (it_Kind it) \<and> msg_Role (it_Message it') = msg_Role (it_Message it)"
    using normalize_step_props [OF st Cons.prems(2)] by blast
  have inv: "keys p1 \<inter> set c1 = {}" using cr Cons.prems(2) by auto
  obtain out1 where out1: "normalize_loop its p1 c1 = (out1, p')"
    using Cons.prems(1) st by (auto split: option.splits prod.splits)
  have IH: "loop_post p1 c1 out1 p'" using Cons.IH [OF out1 inv] Cons.prems(3) by simp
  show ?case
  proof (cases r)
    case None
    then have "out = out1" "keys p1 = keys p" "set c1 = set c" using Cons.prems(1) st out1 r cr by auto
    then show ?thesis using IH by (simp add: loop_post_def)
  next
    case (Some it')
    then have out: "out = it' # out1" using Cons.prems(1) st out1 by simp
    have it': "assistant_calls it' = calls" "tool_answers it' = results" "calls_placed it'"
      using r Some Cons.prems(3) by (auto simp: calls_placed_def)
    have sub: "keys p1 \<subseteq> keys p \<union> set calls" using cr(1) by blast
    have d: "set calls \<inter> set (call_ids out1) = {}" "set results \<inter> set (result_ids out1) = {}"
      using IH cr Cons.prems(2) unfolding loop_post_def by auto
    have "set (call_ids out1) \<inter> (keys p \<union> set c) = {}" using IH cr unfolding loop_post_def by auto
    moreover have "keys p' = keys p \<union> (set calls \<union> set (call_ids out1)) - (set results \<union> set (result_ids out1))"
      using IH cr unfolding loop_post_def by auto
    moreover have "answers_after (keys p \<union> set calls) out1"
      using answers_mono [OF _ sub] IH unfolding loop_post_def by blast
    moreover have "set (result_ids out1) \<inter> set c = {}" using IH cr unfolding loop_post_def by auto
    moreover have "set results \<inter> set c = {}" using cr(7) Cons.prems(2) by blast
    moreover have "set (result_ids out1) \<subseteq> keys p \<union> (set calls \<union> set (call_ids out1))"
      using IH cr(1) unfolding loop_post_def by auto
    ultimately show ?thesis
      using IH cr(3-7) d it' unfolding out loop_post_def ids_simps answers_after.simps
      by (simp add: Int_Un_distrib2 Un_least le_supI1)
  qed
qed

lemma missing_results_props:
  assumes "missing_results cs p = (rs, p')" "distinct (map call_ID cs)" "[] \<notin> call_ID ` set cs"
  shows "map res_ToolCallID rs = filter (\<lambda>i. i \<in> keys p) (map call_ID cs) \<and> keys p' = keys p - call_ID ` set cs"
  using assms
proof (induction cs p arbitrary: rs p' rule: missing_results.induct)
  case (2 c cs p)
  show ?case
  proof (cases "fmlookup p (call_ID c) = None")
    case True
    then have "call_ID c \<notin> keys p" by (simp add: keys_iff)
    then show ?thesis using 2(2) [of rs p'] 2(4-6) True by auto
  next
    case False
    then have k: "call_ID c \<in> keys p" by (simp add: keys_iff)
    obtain rs1 where rs1: "missing_results cs (fmdrop (call_ID c) p) = (rs1, p')" "rs = missing_result c # rs1"
      using 2(4,6) False by (auto split: prod.splits)
    have IH: "map res_ToolCallID rs1 = filter (\<lambda>i. i \<in> keys (fmdrop (call_ID c) p)) (map call_ID cs)"
      "keys p' = keys (fmdrop (call_ID c) p) - call_ID ` set cs"
      using 2(3) [OF _ False rs1(1)] 2(5,6) by auto
    have "call_ID c \<notin> set (map call_ID cs)" using 2(5) by simp
    then have "filter (\<lambda>i. i \<in> keys (fmdrop (call_ID c) p)) (map call_ID cs) = filter (\<lambda>i. i \<in> keys p) (map call_ID cs)"
      by (intro filter_cong refl) (metis DiffI DiffD1 fmdom'_drop singletonD)
    then show ?thesis using IH k rs1(2) by (auto simp: missing_result_def)
  qed
qed simp

text \<open>The second loop: the calls stay, each open one is answered right after it was made.\<close>

lemma insert_missing_props:
  assumes "distinct (call_ids its)" "[] \<notin> set (call_ids its)" "\<forall>it \<in> set its. calls_placed it"
    "distinct (result_ids its)" "set (result_ids its) \<inter> keys p = {}" "answers_after S its"
  shows "call_ids (insert_missing its p) = call_ids its \<and> distinct (result_ids (insert_missing its p)) \<and>
    set (result_ids (insert_missing its p)) = set (result_ids its) \<union> (keys p \<inter> set (call_ids its)) \<and>
    answers_after S (insert_missing its p)"
  using assms
proof (induction its arbitrary: p S)
  case (Cons it its)
  let ?P = "\<lambda>p S. call_ids (insert_missing its p) = call_ids its \<and> distinct (result_ids (insert_missing its p)) \<and>
    set (result_ids (insert_missing its p)) = set (result_ids its) \<union> (keys p \<inter> set (call_ids its)) \<and>
    answers_after S (insert_missing its p)"
  have IH: "?P q T" if "keys q \<subseteq> keys p" "answers_after T its" for q T
    using Cons.IH [of q T] Cons.prems that by auto
  have rest: "answers_after (S \<union> set (assistant_calls it)) its" using Cons.prems(6) by simp
  show ?case
  proof (cases "msg_Role (it_Message it) = RoleAssistant")
    case False
    then have c: "assistant_calls it = []" by (simp add: assistant_calls_def)
    have "insert_missing (it # its) p = it # insert_missing its p" using False by auto
    moreover have "?P p S" using IH rest c by simp
    moreover have "set (tool_answers it) \<inter> (set (result_ids its) \<union> keys p) = {}" using Cons.prems(4,5) by auto
    ultimately show ?thesis using c Cons.prems(4,6) by auto
  next
    case True
    let ?cs = "msg_ToolCalls (it_Message it)"
    have c: "assistant_calls it = map call_ID ?cs" "tool_answers it = []"
      using True by (simp_all add: assistant_calls_def tool_answers_def)
    obtain rs q where m: "missing_results ?cs p = (rs, q)" by (rule prod.exhaust)
    have "distinct (map call_ID ?cs)" "[] \<notin> call_ID ` set ?cs" using Cons.prems(1,2) c(1) by auto
    note mp = missing_results_props [OF m this]
    define new where "new = (if rs = [] then [] else [plain_item ItemMessage (no_message\<lparr>msg_Role := RoleTool, msg_ToolResults := rs\<rparr>)])"
    have out: "insert_missing (it # its) p = it # new @ insert_missing its q"
      using True Cons.prems(3) m by (auto simp: calls_placed_def new_def)
    have n: "call_ids new = []" "result_ids new = map res_ToolCallID rs"
      by (simp_all add: new_def plain_item_def assistant_calls_def tool_answers_def)
    have na: "answers_after T (new @ xs)" if "set (map res_ToolCallID rs) \<subseteq> T" "answers_after T xs" for T xs
      using that by (simp add: new_def plain_item_def assistant_calls_def tool_answers_def)
    have q: "keys q = keys p - call_ID ` set ?cs" using mp by simp
    have P: "?P q (S \<union> set (assistant_calls it))" using IH rest q by simp
    have rsub: "set (map res_ToolCallID rs) = keys p \<inter> call_ID ` set ?cs" using mp by auto
    have d: "call_ID ` set ?cs \<inter> set (call_ids its) = {}" using Cons.prems(1) c(1) by auto
    have "answers_after (S \<union> set (assistant_calls it)) (new @ insert_missing its q)"
      by (rule na) (use rsub c(1) P in auto)
    moreover have "distinct (map res_ToolCallID rs)" using mp Cons.prems(1) c(1) by simp
    moreover have "set (map res_ToolCallID rs) \<inter> set (result_ids (insert_missing its q)) = {}"
      unfolding rsub using P q d Cons.prems(5) by auto
    moreover have "set (map res_ToolCallID rs) \<union> (keys q \<inter> set (call_ids its)) = keys p \<inter> (call_ID ` set ?cs \<union> set (call_ids its))"
      unfolding rsub q using d by auto
    ultimately show ?thesis using P n c unfolding out by auto
  qed
qed simp

section \<open>Properties of normalization\<close>

lemma expand_message_items: "filter (\<lambda>it. is_message_kind (it_Kind it)) (expand_item it) =
    (if is_message_kind (it_Kind it) then [it] else [])"
  by (auto simp: expand_item_def derived_item_def is_message_kind_def filter_empty_conv split: option.splits)

lemma ExpandItems_placed:
  assumes "\<forall>it \<in> set its. is_message_kind (it_Kind it) \<longrightarrow> calls_placed it" "x \<in> set (ExpandItems its)"
    "is_message_kind (it_Kind x)"
  shows "calls_placed x"
proof -
  obtain it where it: "it \<in> set its" "x \<in> set (expand_item it)" using assms(2) by (auto simp: ExpandItems_def)
  then have "x \<in> set (filter (\<lambda>it. is_message_kind (it_Kind it)) (expand_item it))" using assms(3) by simp
  then have "x = it" unfolding expand_message_items by (auto split: if_splits)
  then show ?thesis using assms(1,3) it(1) by blast
qed

text \<open>
  C12: tool calls and results pair up. In a normalized history no call identifier occurs twice, no
  result twice, the calls and the results carry the same identifiers, and every result comes after
  the call it answers. The history may hold anything, as long as assistant messages come from
  message or assistant-turn items.
\<close>

theorem NormalizeItems_pairs:
  assumes "\<forall>it \<in> set its. is_message_kind (it_Kind it) \<longrightarrow> calls_placed it"
  shows "distinct (call_ids (NormalizeItems its)) \<and> distinct (result_ids (NormalizeItems its)) \<and>
    set (result_ids (NormalizeItems its)) = set (call_ids (NormalizeItems its)) \<and>
    answers_after {} (NormalizeItems its)"
proof -
  obtain ms p where n: "normalize_loop (ExpandItems its) fmempty [] = (ms, p)" by (rule prod.exhaust)
  have post: "loop_post fmempty [] ms p"
    by (rule normalize_loop_props [OF n]) (use ExpandItems_placed [OF assms] in auto)
  show ?thesis
  proof (cases "p = fmempty")
    case True
    then show ?thesis using post n by (auto simp: NormalizeItems_def loop_post_def)
  next
    case False
    have "set (result_ids ms) \<inter> keys p = {}" "keys p \<subseteq> set (call_ids ms)" "set (call_ids ms) = set (result_ids ms) \<union> keys p"
      using post by (auto simp: loop_post_def)
    with insert_missing_props [of ms p "{}"] post show ?thesis
      using n False by (auto simp: NormalizeItems_def loop_post_def)
  qed
qed


lemma keep_filter_idem: "filter keep_reasoning (filter keep_part (filter keep_reasoning ps)) = filter keep_part (filter keep_reasoning ps)"
  by (induction ps) auto

lemma sanitize_fixed:
  assumes "m = (sanitizeMessageForRequest m0)\<lparr>msg_Content := sanitizeContentParts (msg_Content (sanitizeMessageForRequest m0))\<rparr>"
  shows "sanitizeMessageForRequest m = m"
    "sanitizeMessageForRequest (m\<lparr>msg_ToolCalls := cs\<rparr>) = m\<lparr>msg_ToolCalls := cs\<rparr>"
    "sanitizeMessageForRequest (m\<lparr>msg_ToolResults := rs\<rparr>) = m\<lparr>msg_ToolResults := rs\<rparr>"
  using keep_filter_idem unfolding assms
  by (simp_all add: sanitizeMessageForRequest_def sanitizeAssistantContentForRequest_def sanitizeContentParts_def Let_def)

definition ready_item :: "item \<Rightarrow> bool" where
  "ready_item it \<longleftrightarrow> is_message_kind (it_Kind it) \<and> sanitizeMessageForRequest (it_Message it) = it_Message it"

lemma normalize_step_ready:
  assumes "normalize_step it p c = (p', c', Some it')"
  shows "ready_item it'"
proof -
  define m where "m = (sanitizeMessageForRequest (it_Message it))\<lparr>msg_Content :=
    sanitizeContentParts (msg_Content (sanitizeMessageForRequest (it_Message it)))\<rparr>"
  note fixed = sanitize_fixed [OF m_def]
  have k: "is_message_kind (it_Kind it)" using assms by (auto simp: normalize_step_def split: if_splits)
  have "\<exists>m'. it' = it\<lparr>it_Message := m'\<rparr> \<and> (m' = m \<or> (\<exists>cs. m' = m\<lparr>msg_ToolCalls := cs\<rparr>) \<or> (\<exists>rs. m' = m\<lparr>msg_ToolResults := rs\<rparr>))"
  proof -
    obtain cs q where f: "filter_calls c (sanitizeToolCalls (msg_ToolCalls m)) p = (cs, q)" by (rule prod.exhaust)
    obtain rs d where g: "sanitizeToolResults (msg_ToolResults m) p c = (rs, d)" by (rule prod.exhaust)
    have "it' = it\<lparr>it_Message := if msg_Role m = RoleAssistant then m\<lparr>msg_ToolCalls := cs\<rparr>
        else if msg_Role m = RoleTool then m\<lparr>msg_ToolResults := rs\<rparr> else m\<rparr>"
      using assms k f g unfolding normalize_step_def Let_def m_def [symmetric]
      by (cases "msg_Role m = RoleAssistant"; cases "msg_Role m = RoleTool") (simp_all split: if_splits)
    then show ?thesis by metis
  qed
  then show ?thesis using fixed k by (auto simp: ready_item_def)
qed

lemma normalize_loop_ready: "normalize_loop its p c = (out, p') \<Longrightarrow> \<forall>it \<in> set out. ready_item it"
proof (induction its arbitrary: p c out)
  case (Cons it its)
  obtain p1 c1 r where st: "normalize_step it p c = (p1, c1, r)" by (rule prod_cases3)
  obtain out1 p2 where o: "normalize_loop its p1 c1 = (out1, p2)" by (rule prod.exhaust)
  show ?case using Cons.prems Cons.IH [of p1 c1 out1] normalize_step_ready st o by (cases r) auto
qed simp

lemma insert_missing_ready: "\<forall>it \<in> set its. ready_item it \<Longrightarrow> \<forall>it \<in> set (insert_missing its p). ready_item it"
proof (induction its p rule: insert_missing.induct)
  case (2 it its p)
  have "ready_item (plain_item ItemMessage (no_message\<lparr>msg_Role := RoleTool, msg_ToolResults := rs\<rparr>))" for rs
    by (simp add: ready_item_def plain_item_def is_message_kind_def sanitizeMessageForRequest_def Let_def)
  then show ?case using 2 by (auto split: prod.splits)
qed simp

lemma NormalizeItems_ready: "it \<in> set (NormalizeItems its) \<Longrightarrow> ready_item it"
proof -
  assume it: "it \<in> set (NormalizeItems its)"
  obtain ms p where n: "normalize_loop (ExpandItems its) fmempty [] = (ms, p)" by (rule prod.exhaust)
  from it n have "it \<in> set ms \<or> it \<in> set (insert_missing ms p)" by (auto simp: NormalizeItems_def split: if_splits)
  then show ?thesis using normalize_loop_ready [OF n] insert_missing_ready by blast
qed

text \<open>
  the messages of a request are exactly the normalized items' messages, in order; sanitizing
  them once more, as \<^verbatim>\<open>MessagesFromItems\<close> does, changes nothing.
\<close>

lemma MessagesFromItems_normalized: "MessagesFromItems its = map it_Message (NormalizeItems its)"
proof -
  have "filter (\<lambda>it. is_message_kind (it_Kind it)) (NormalizeItems its) = NormalizeItems its"
    using NormalizeItems_ready by (simp add: filter_id_conv ready_item_def)
  then show ?thesis
    using NormalizeItems_ready by (simp add: MessagesFromItems_def ready_item_def)
qed


section \<open>Properties of the projection of a branch\<close>

text \<open>The items of a path before summaries are placed, and the nodes its summaries replace.\<close>

definition branch_items :: "string \<Rightarrow> node list \<Rightarrow> item list" where
  "branch_items branch path = List.map_filter (\<lambda>n. map_option fst (node_item (node_base branch n) (nd_Payload n))) path"

definition is_compaction :: "item \<Rightarrow> bool" where
  "is_compaction it \<longleftrightarrow> it_Kind it = ItemCompaction"

definition replaced_nodes :: "item list \<Rightarrow> string list" where
  "replaced_nodes its = concat (map (\<lambda>it. case it_Compaction it of None \<Rightarrow> [] | Some c \<Rightarrow> cmp_Replaces c) its)"

lemma node_item_shape:
  "node_item (node_base b n) p = Some (it, None) \<Longrightarrow> \<not> is_compaction it \<and> it_Compaction it = None"
  "node_item (node_base b n) p = Some (it, Some c) \<Longrightarrow> is_compaction it \<and> it_Compaction it = Some c"
  by (induction "node_base b n" p rule: node_item.induct)
    (auto simp: is_compaction_def message_item_def assistant_item_def compaction_item_def node_base_def plain_item_def)

lemma project_nodes_props:
  "pj_items (project_nodes b i ns st) = pj_items st @ branch_items b ns \<and>
   pj_replaced (project_nodes b i ns st) = pj_replaced st @ replaced_nodes (branch_items b ns) \<and>
   map snd (pj_compactions (project_nodes b i ns st)) = map snd (pj_compactions st) @ filter is_compaction (branch_items b ns)"
proof (induction ns arbitrary: i st)
  case Nil
  then show ?case by (simp add: branch_items_def replaced_nodes_def List.map_filter_simps)
next
  case (Cons n ns)
  have place: "snd (placeCompaction idx it rs k) = it" for idx it rs k
    by (simp add: placeCompaction_def split: prod.splits)
  show ?case
  proof (cases "node_item (node_base b n) (nd_Payload n)")
    case None
    then show ?thesis using Cons by (simp add: branch_items_def List.map_filter_simps Let_def)
  next
    case (Some r)
    obtain it c where r: "r = (it, c)" by (cases r)
    show ?thesis
      using Cons node_item_shape [of b n "nd_Payload n" it] Some r place
      by (cases c) (simp_all add: branch_items_def replaced_nodes_def List.map_filter_simps Let_def)
  qed
qed

lemma place_items_props:
  assumes "\<forall>c \<in> set cs. is_compaction (snd c)"
  shows "filter (\<lambda>it. \<not> is_compaction it) (place_items rep i cs its) =
      filter (\<lambda>it. \<not> is_compaction it \<and> it_NodeID it \<notin> set rep) its \<and>
    mset (filter is_compaction (place_items rep i cs its)) = mset (map snd cs)"
  using assms
proof (induction its arbitrary: i cs)
  case Nil
  then show ?case by (auto simp: filter_empty_conv filter_id_conv)
next
  case (Cons it its)
  let ?h = "takeWhile (\<lambda>c. fst c = i) cs" and ?r = "dropWhile (\<lambda>c. fst c = i) cs"
  have h: "\<forall>c \<in> set ?h. is_compaction (snd c)" "\<forall>c \<in> set ?r. is_compaction (snd c)"
    using Cons.prems by (auto dest: set_takeWhileD set_dropWhileD)
  have f: "filter (\<lambda>it. \<not> is_compaction it) (map snd ?h) = []" "filter is_compaction (map snd ?h) = map snd ?h"
    using h(1) by (auto simp: filter_empty_conv filter_id_conv)
  have "mset (map snd ?h) + mset (map snd ?r) = mset (map snd cs)"
    by (metis map_append mset_append takeWhile_dropWhile_id)
  then show ?case using Cons.IH [OF h(2), of "Suc i"] f by (auto simp: Let_def is_compaction_def [symmetric])
qed


text \<open>
  the continuation found at the head of a branch is also the one a walk back from the head
  finds first, so both lookups agree whenever the head offers a usable continuation.
\<close>

lemma head_continuation_agrees:
  assumes "tree_wf t" "ContinuationAtBranchHead (Some t) branch i = Inr (Some c)"
  shows "ContinuationAtHead t branch i = Some (Inr (Some c)) \<and> pc_ResponseID c \<noteq> [] \<and> Continuation_Matches c i"
proof -
  obtain h n cs where h: "Tree_Head branch t = Some h" "h \<noteq> []" "fmlookup (tr_nodes t) h = Some n"
    "payload_continuations (nd_Payload n) = Inr cs" "usable_continuation i cs = Some c"
    using assms(2) by (auto simp: ContinuationAtBranchHead_def Tree_Node_def rbind_Inr_iff split: option.splits if_splits)
  obtain ps where ps: "path_ok (tr_nodes t) (floor_of t (or_main branch)) h ps" "Tree_Path branch t = Some (Inr (rev ps))"
    using Tree_Path_exists [OF assms(1)] h(1) unfolding Tree_Head_def by blast
  then obtain ms where "ps = n # ms" using h(2,3) by (cases ps) auto
  then have "ContinuationAtHead t branch i = Some (Inr (Some c))"
    using ps(2) h(4,5) by (simp add: ContinuationAtHead_def)
  moreover have "pc_ResponseID c \<noteq> [] \<and> Continuation_Matches c i"
    using h(5) by (auto simp: usable_continuation_def find_Some_iff)
  ultimately show ?thesis by blast
qed

text \<open>
  the default projection sends the whole history unless it can continue natively. With native
  continuation allowed, no previous response named by the caller and a usable head continuation
  that supports it, only the pending messages are sent and the previous response is named; in every
  other non-error case the history and the pending messages are sent and the caller's extensions
  are kept.
\<close>

lemma defaultProject_cases:
  assumes "defaultProject u inp = Inr r"
  shows "(\<exists>c. pi_AllowNativeContinuation inp \<and> fmlookup (pi_Extensions inp) (uc_ExtPreviousResponseID u) = None \<and>
      ContinuationAtBranchHead (pi_Tree inp) (pi_Branch inp) (pi_ProviderIdentity inp) = Inr (Some c) \<and>
      SupportsPublicPreviousResponseID u c \<and> pr_Messages r = MessagesFromItems (pi_PendingItems inp) \<and>
      fmlookup (pr_Extensions r) (uc_ExtPreviousResponseID u) \<noteq> None \<and>
      (\<forall>k v. fmlookup (pi_Extensions inp) k = Some v \<longrightarrow> fmlookup (pr_Extensions r) k = Some v)) \<or>
    (pr_Messages r = MessagesFromItems (pi_Items inp) @ MessagesFromItems (pi_PendingItems inp) \<and>
      pr_Extensions r = pi_Extensions inp)"
proof (cases "\<exists>c. pi_AllowNativeContinuation inp \<and> fmlookup (pi_Extensions inp) (uc_ExtPreviousResponseID u) = None \<and>
    ContinuationAtBranchHead (pi_Tree inp) (pi_Branch inp) (pi_ProviderIdentity inp) = Inr (Some c) \<and>
    SupportsPublicPreviousResponseID u c")
  case True
  then obtain c where c: "pi_AllowNativeContinuation inp" "fmlookup (pi_Extensions inp) (uc_ExtPreviousResponseID u) = None"
    "ContinuationAtBranchHead (pi_Tree inp) (pi_Branch inp) (pi_ProviderIdentity inp) = Inr (Some c)"
    "SupportsPublicPreviousResponseID u c" by blast
  let ?ext = "pc_Extensions c ++\<^sub>f pi_Extensions inp"
  have r: "r = \<lparr>pr_Messages = MessagesFromItems (pi_PendingItems inp), pr_Extensions =
      (if fmlookup ?ext (uc_ExtPreviousResponseID u) = None then fmupd (uc_ExtPreviousResponseID u) (pc_ResponseID c) ?ext else ?ext)\<rparr>"
    using assms c by (simp add: defaultProject_def mergeExtensions_def Let_def)
  have "fmlookup (pr_Extensions r) (uc_ExtPreviousResponseID u) \<noteq> None"
    unfolding r by (cases "fmlookup ?ext (uc_ExtPreviousResponseID u)") simp_all
  moreover have "fmlookup (pr_Extensions r) k = Some v" if k: "fmlookup (pi_Extensions inp) k = Some v" for k v
  proof -
    have "k \<noteq> uc_ExtPreviousResponseID u" using k c(2) by auto
    moreover have "fmlookup ?ext k = Some v" using k by (auto dest: fmdomI)
    ultimately show ?thesis by (simp add: r)
  qed
  moreover have "pr_Messages r = MessagesFromItems (pi_PendingItems inp)" by (simp add: r)
  ultimately show ?thesis using c by blast
next
  case False
  then have "r = full_projection inp"
    using assms unfolding defaultProject_def
    by (cases "ContinuationAtBranchHead (pi_Tree inp) (pi_Branch inp) (pi_ProviderIdentity inp)")
      (auto split: if_splits option.splits)
  then show ?thesis by (simp add: full_projection_def)
qed

text \<open>Concrete instances.\<close>

definition demo_call_message :: message where
  "demo_call_message = no_message\<lparr>msg_Role := RoleAssistant, msg_ToolCalls := [\<lparr>call_ID = ''c1'', call_Name = ''f'', call_Arguments = []\<rparr>]\<rparr>"

theorem NormalizeItems_pairs_witness:
  "result_ids (NormalizeItems [plain_item ItemMessage demo_call_message]) = [''c1''] \<and>
   distinct (result_ids (NormalizeItems [plain_item ItemMessage demo_call_message])) \<and>
   answers_after {} (NormalizeItems [plain_item ItemMessage demo_call_message])"
proof -
  have "result_ids (NormalizeItems [plain_item ItemMessage demo_call_message]) = [''c1'']"
    by (simp add: NormalizeItems_def ExpandItems_def expand_item_def demo_call_message_def plain_item_def is_message_kind_def
        normalize_step_def Let_def sanitizeMessageForRequest_def sanitizeAssistantContentForRequest_def no_message_def
        sanitizeContentParts_def sanitizeToolCalls_def reasoningParts_def derived_item_def missing_result_def tool_answers_def)
  then show ?thesis
    using NormalizeItems_pairs [of "[plain_item ItemMessage demo_call_message]"]
    by (simp add: calls_placed_def plain_item_def)
qed

lemma demo_tree_path: "\<exists>path. Tree_Path [] demo_tree = Some (Inr path)"
proof -
  have "tree_step\<^sup>*\<^sup>* NewTree demo_tree" using demo_tree_step by blast
  then have "tree_wf demo_tree" by (rule reachable_tree_wf)
  moreover have "fmlookup (tr_branches demo_tree) (or_main []) = Some ''n2''"
    by (simp add: demo_tree_def Tree_AppendMany_def NewTree_def or_main_def ConvMainBranch_def Let_def)
  ultimately show ?thesis using Tree_Path_exists by blast
qed


definition demo_continuation :: provider_continuation where
  "demo_continuation = no_continuation\<lparr>pc_ResponseID := ''r1''\<rparr>"

definition demo_identity :: provider_identity where
  "demo_identity = \<lparr>pid_ProviderName = [], pid_APIKind = [], pid_APIFamily = [], pid_NativeModel = []\<rparr>"

definition demo_turn :: assistant_turn where
  "demo_turn = \<lparr>at_Message = no_message, at_FinishReason = [], at_Usage = [], at_Continuations = [demo_continuation]\<rparr>"

definition demo_turn_tree :: tree where
  "demo_turn_tree = snd (Tree_AppendMany [''n1''] 7 [] [Some (AssistantTurnEvent demo_turn)] NewTree)"

lemma demo_turn_wf: "tree_wf demo_turn_tree"
proof -
  have "fresh_ids [''n1''] [Some (AssistantTurnEvent demo_turn)] NewTree" by (simp add: fresh_ids_def NewTree_def)
  then have "tree_step NewTree demo_turn_tree"
    unfolding demo_turn_tree_def by (rule tree_step.append) (rule surjective_pairing)
  then show ?thesis using tree_step_wf NewTree_wf by blast
qed

lemma demo_turn_head: "ContinuationAtBranchHead (Some demo_turn_tree) [] demo_identity = Inr (Some demo_continuation)"
  by (simp add: ContinuationAtBranchHead_def demo_turn_tree_def Tree_AppendMany_def NewTree_def Tree_Head_def Tree_Node_def
      or_main_def ConvMainBranch_def Let_def demo_turn_def usable_continuation_def demo_continuation_def Continuation_Matches_def
      demo_identity_def)

lemma head_continuation_agrees_example:
  "ContinuationAtHead demo_turn_tree [] demo_identity = Some (Inr (Some demo_continuation))"
  using head_continuation_agrees [OF demo_turn_wf demo_turn_head] by blast

definition demo_input :: projection_input where
  "demo_input = \<lparr>pi_Tree = Some demo_turn_tree, pi_Branch = [], pi_ProviderIdentity = demo_identity, pi_Items = [],
     pi_PendingItems = [], pi_Extensions = fmempty, pi_AllowNativeContinuation = True\<rparr>"

lemma defaultProject_cases_example:
  "\<exists>r. defaultProject \<lparr>uc_ExtPreviousResponseID = ''prev'', uc_ContinuationPreviousResponseID = []\<rparr> demo_input = Inr r \<and>
    fmlookup (pr_Extensions r) ''prev'' \<noteq> None"
proof -
  let ?u = "\<lparr>uc_ExtPreviousResponseID = ''prev'', uc_ContinuationPreviousResponseID = []\<rparr>"
  have "SupportsPublicPreviousResponseID ?u demo_continuation"
    by (simp add: SupportsPublicPreviousResponseID_def demo_continuation_def no_continuation_def)
  then have "\<exists>r. defaultProject ?u demo_input = Inr r \<and> pr_Extensions r \<noteq> fmempty"
    using demo_turn_head by (auto simp: defaultProject_def demo_input_def Let_def mergeExtensions_def)
  then obtain r where r: "defaultProject ?u demo_input = Inr r" "pr_Extensions r \<noteq> fmempty" by blast
  from defaultProject_cases [OF r(1)] r show ?thesis by (auto simp: demo_input_def)
qed

end
