(* ===== verification/Planner_Topo.thy ===== *)
theory Planner_Topo
  imports Prelude
begin

text \<open>
  Plans, their steps and the topological sort the planner keeps them in
  (\<^verbatim>\<open>src/capabilities/planner/planner.go\<close>). \<^verbatim>\<open>topoSortSteps\<close> is Kahn's algorithm with the smallest
  ready identifier first. Its loop runs while identifiers are ready; the model runs it for one
  iteration per step, and the theorems show that this empties the ready list, so the Go loop ends
  there too.
\<close>

section \<open>Plans\<close>

record step =
  step_ID :: string
  step_ParentID :: string
  step_DependsOn :: "string list"
  step_Title :: string
  step_Status :: string

record plan =
  plan_ID :: string
  plan_Title :: string
  plan_CurrentStepID :: string
  plan_Steps :: "step list"

definition StepPending :: string where "StepPending = ''pending''"
definition StepInProgress :: string where "StepInProgress = ''in_progress''"
definition StepCompleted :: string where "StepCompleted = ''completed''"

definition validStatus :: "string \<Rightarrow> bool" where
  "validStatus s \<longleftrightarrow> s = StepPending \<or> s = StepInProgress \<or> s = StepCompleted"

datatype planner_error =
    PlanActionRequired
  | PlanRuntimeRequired
  | PlanNotCreated
  | PlanAlreadyCreated string
  | PlanPatchRequired
  | StepPatchRequired
  | StepTitleRequired
  | InvalidStatus string
  | StepExists string
  | StepNotFound string
  | OwnParent
  | ParentStepNotFound string
  | OwnDependency
  | DependencyStepNotFound string
  | HasSubTasks string
  | UnsupportedAction string
  | UnsupportedEvent string
  | PlanIDMissing
  | StepIDMissing
  | TopoDependencyNotFound string
  | TopoParentNotFound string
  | TopoCycle
  | PlanDecodeErr string
  | PlanCtxErr string
  | TitleRequired
  | IDSourceErr
  | UnsupportedCapability string
  | PlannerInstanceRequired

section \<open>The sort\<close>

definition topo_byID :: "step list \<Rightarrow> (string \<rightharpoonup> step)" where
  "topo_byID ss = map_of (rev (map (\<lambda>s. (step_ID s, s)) ss))"

fun topo_scan_deps ::
  "string list \<Rightarrow> string \<Rightarrow> string list \<Rightarrow> (string \<Rightarrow> string list) \<times> (string \<Rightarrow> int) \<Rightarrow>
     (planner_error, (string \<Rightarrow> string list) \<times> (string \<Rightarrow> int)) result" where
  "topo_scan_deps ids i [] st = Inr st"
| "topo_scan_deps ids i (d # ds) (adj, deg) =
     (if d \<notin> set ids then Inl (TopoDependencyNotFound d)
      else topo_scan_deps ids i ds (adj(d := adj d @ [i]), deg(i := deg i + 1)))"

fun topo_scan ::
  "string list \<Rightarrow> step list \<Rightarrow> (string \<Rightarrow> string list) \<times> (string \<Rightarrow> int) \<Rightarrow>
     (planner_error, (string \<Rightarrow> string list) \<times> (string \<Rightarrow> int)) result" where
  "topo_scan ids [] st = Inr st"
| "topo_scan ids (s # ss) st =
     rbind (topo_scan_deps ids (step_ID s) (step_DependsOn s) st) (\<lambda>st'.
       if step_ParentID s \<noteq> [] \<and> step_ParentID s \<notin> set ids then Inl (TopoParentNotFound (step_ParentID s))
       else topo_scan ids ss st')"

fun topo_release :: "string list \<Rightarrow> (string \<Rightarrow> int) \<Rightarrow> string list \<Rightarrow> (string \<Rightarrow> int) \<times> string list" where
  "topo_release [] deg ready = (deg, ready)"
| "topo_release (n # ns) deg ready =
     (let deg' = deg(n := deg n - 1)
      in topo_release ns deg' (if deg' n = 0 then ready @ [n] else ready))"

text \<open>The loop, at most \<^term>\<open>fuel\<close> times; the last component is what is still ready.\<close>

fun topo_loop ::
  "nat \<Rightarrow> (string \<rightharpoonup> step) \<Rightarrow> (string \<Rightarrow> string list) \<Rightarrow> (string \<Rightarrow> int) \<Rightarrow> string list \<Rightarrow> step list \<Rightarrow>
     step list \<times> string list" where
  "topo_loop 0 byID adj deg ready ordered = (ordered, ready)"
| "topo_loop (Suc fuel) byID adj deg ready ordered =
     (case sort ready of
        [] \<Rightarrow> (ordered, [])
      | i # rest \<Rightarrow>
          (case topo_release (adj i) deg rest of
             (deg', ready') \<Rightarrow> topo_loop fuel byID adj deg' ready' (ordered @ [the (byID i)])))"

definition topo_run :: "step list \<Rightarrow> (planner_error, step list \<times> string list) result" where
  "topo_run ss =
     (let ids = map step_ID ss in
      rbind (topo_scan ids ss (\<lambda>_. [], \<lambda>_. 0)) (\<lambda>(adj, deg).
        Inr (topo_loop (length ss) (topo_byID ss) adj deg (sort (filter (\<lambda>i. deg i = 0) (remdups ids))) [])))"

definition topoSortSteps :: "step list \<Rightarrow> (planner_error, step list) result" where
  "topoSortSteps ss =
     (if ss = [] then Inr []
      else rbind (topo_run ss) (\<lambda>(ordered, _).
        if length ordered \<noteq> length ss then Inl TopoCycle else Inr ordered))"

section \<open>Scanning\<close>

definition edges :: "step list \<Rightarrow> string \<Rightarrow> string list" where
  "edges ss d = concat (map (\<lambda>s. replicate (count_list (step_DependsOn s) d) (step_ID s)) ss)"

definition degree :: "step list \<Rightarrow> string \<Rightarrow> int" where
  "degree ss i = (\<Sum>s\<leftarrow>ss. if step_ID s = i then int (length (step_DependsOn s)) else 0)"

lemma topo_scan_deps_Inr:
  "topo_scan_deps ids i ds (adj, deg) = Inr st \<longleftrightarrow> set ds \<subseteq> set ids \<and>
     st = (\<lambda>d. adj d @ replicate (count_list ds d) i, \<lambda>k. deg k + (if k = i then int (length ds) else 0))"
proof (induction ids i ds "(adj, deg)" arbitrary: adj deg rule: topo_scan_deps.induct)
  case (2 ids i d ds adj deg)
  show ?case
  proof (cases "d \<in> set ids")
    case True
    have "(\<lambda>x. (adj(d := adj d @ [i])) x @ replicate (count_list ds x) i) =
        (\<lambda>x. adj x @ replicate (count_list (d # ds) x) i)"
      by (auto simp: fun_eq_iff replicate_app_Cons_same)
    moreover have "(\<lambda>k. (deg(i := deg i + 1)) k + (if k = i then int (length ds) else 0)) =
        (\<lambda>k. deg k + (if k = i then int (length (d # ds)) else 0))"
      by (auto simp: fun_eq_iff)
    ultimately show ?thesis using 2 True by simp
  qed simp
qed auto

text \<open>A scan succeeds when every dependency and parent is a step.\<close>

definition refs_ok :: "string list \<Rightarrow> step list \<Rightarrow> bool" where
  "refs_ok ids ss \<longleftrightarrow> (\<forall>s \<in> set ss. set (step_DependsOn s) \<subseteq> set ids \<and>
     (step_ParentID s \<noteq> [] \<longrightarrow> step_ParentID s \<in> set ids))"

lemma topo_scan_Inr:
  "topo_scan ids ss (adj, deg) = Inr st \<longleftrightarrow> refs_ok ids ss \<and>
     st = (\<lambda>d. adj d @ edges ss d, \<lambda>k. deg k + degree ss k)"
proof (induction ss arbitrary: adj deg)
  case Nil
  then show ?case by (auto simp: refs_ok_def edges_def degree_def)
next
  case (Cons s ss)
  let ?adj = "\<lambda>d. adj d @ replicate (count_list (step_DependsOn s) d) (step_ID s)"
  let ?deg = "\<lambda>k. deg k + (if k = step_ID s then int (length (step_DependsOn s)) else 0)"
  have 1: "(\<lambda>d. ?adj d @ edges ss d) = (\<lambda>d. adj d @ edges (s # ss) d)" by (simp add: edges_def)
  have 2: "(\<lambda>k. ?deg k + degree ss k) = (\<lambda>k. deg k + degree (s # ss) k)"
    by (auto simp: fun_eq_iff degree_def)
  show ?case
  proof (cases "set (step_DependsOn s) \<subseteq> set ids")
    case True
    then have "topo_scan_deps ids (step_ID s) (step_DependsOn s) (adj, deg) = Inr (?adj, ?deg)"
      by (simp add: topo_scan_deps_Inr)
    then show ?thesis using Cons [of ?adj ?deg] True unfolding 1 2
      by (auto simp: refs_ok_def simp del: fun_upd_apply)
  next
    case False
    then have "\<not> (\<exists>x. topo_scan_deps ids (step_ID s) (step_DependsOn s) (adj, deg) = Inr x)"
      by (simp add: topo_scan_deps_Inr)
    then show ?thesis using False by (auto simp: refs_ok_def rbind_Inr_iff)
  qed
qed


section \<open>Releasing\<close>

lemma topo_release_props:
  assumes "topo_release ns deg ready = (deg', ready')" "\<forall>i \<in> set ns. int (count_list ns i) \<le> deg i"
  shows "(\<forall>i. deg' i = deg i - int (count_list ns i)) \<and>
    (\<exists>new. ready' = ready @ new \<and> distinct new \<and> set new = {i \<in> set ns. deg i = int (count_list ns i)})"
  using assms
proof (induction ns arbitrary: deg ready)
  case (Cons n ns)
  let ?deg = "deg(n := deg n - 1)"
  let ?ready = "if deg n - 1 = 0 then ready @ [n] else ready"
  have rel: "topo_release ns ?deg ?ready = (deg', ready')" using Cons.prems(1) by (simp add: Let_def)
  have pre: "\<forall>i \<in> set ns. int (count_list ns i) \<le> ?deg i"
  proof
    fix i assume i: "i \<in> set ns"
    then have "int (count_list (n # ns) i) \<le> deg i" using Cons.prems(2) by simp
    then show "int (count_list ns i) \<le> ?deg i" by (cases "i = n") auto
  qed
  from Cons.IH [OF rel pre] obtain new where new: "\<And>i. deg' i = ?deg i - int (count_list ns i)"
    "ready' = ?ready @ new" "distinct new" "set new = {i \<in> set ns. ?deg i = int (count_list ns i)}" by blast
  have "deg' i = deg i - int (count_list (n # ns) i)" for i using new(1) [of i] by auto
  moreover have "\<exists>new'. ready' = ready @ new' \<and> distinct new' \<and>
      set new' = {i \<in> set (n # ns). deg i = int (count_list (n # ns) i)}"
  proof (cases "deg n = 1")
    case True
    have nin: "n \<notin> set ns"
    proof
      assume n: "n \<in> set ns"
      then have "count_list ns n \<noteq> 0" by (simp add: count_list_0_iff)
      moreover have "int (count_list ns n) \<le> ?deg n" using pre n by blast
      ultimately show False using True by simp
    qed
    have "i \<in> set (n # new) \<longleftrightarrow> i \<in> set (n # ns) \<and> deg i = int (count_list (n # ns) i)" for i
      unfolding list.set new(4) using nin True by (cases "i = n") simp_all
    then have "set (n # new) = {i \<in> set (n # ns). deg i = int (count_list (n # ns) i)}" by blast
    moreover have "distinct (n # new)" using new(3) nin unfolding list.set distinct.simps new(4) by simp
    ultimately show ?thesis using new(2) True by (intro exI [of _ "n # new"]) simp
  next
    case False
    have "i \<in> set new \<longleftrightarrow> i \<in> set (n # ns) \<and> deg i = int (count_list (n # ns) i)" for i
    proof (cases "i = n")
      case True
      have "n \<in> set ns" if "deg n = int (count_list ns n) + 1"
        using that False by (metis add_0 count_list_0_iff of_nat_0)
      then show ?thesis unfolding new(4) using True by auto
    qed (simp add: new(4))
    then have "set new = {i \<in> set (n # ns). deg i = int (count_list (n # ns) i)}" by blast
    then show ?thesis using new(2,3) False by (intro exI [of _ new]) simp
  qed
  ultimately show ?case by blast
qed simp

section \<open>The loop invariant\<close>

text \<open>The dependencies of a step by identifier.\<close>

definition deps_of :: "step list \<Rightarrow> string \<Rightarrow> string list" where
  "deps_of ss i = (case topo_byID ss i of None \<Rightarrow> [] | Some s \<Rightarrow> step_DependsOn s)"

lemma topo_byID_distinct:
  assumes "distinct (map step_ID ss)"
  shows "topo_byID ss i = Some s \<longleftrightarrow> s \<in> set ss \<and> step_ID s = i"
proof -
  have "map_of (map (\<lambda>s. (step_ID s, s)) ss) = topo_byID ss"
    unfolding topo_byID_def using assms by (intro map_of_perm) (simp_all add: comp_def)
  moreover have "distinct (map fst (map (\<lambda>s. (step_ID s, s)) ss))" using assms by (simp add: comp_def)
  then have "map_of (map (\<lambda>s. (step_ID s, s)) ss) i = Some s \<longleftrightarrow> (i, s) \<in> set (map (\<lambda>s. (step_ID s, s)) ss)"
    by (rule map_of_eq_Some_iff)
  ultimately show ?thesis by auto
qed

lemma deps_of_member: "distinct (map step_ID ss) \<Longrightarrow> s \<in> set ss \<Longrightarrow> deps_of ss (step_ID s) = step_DependsOn s"
  using topo_byID_distinct [of ss "step_ID s" s] by (simp add: deps_of_def)

lemma degree_deps: "distinct (map step_ID ss) \<Longrightarrow> i \<in> step_ID ` set ss \<Longrightarrow> degree ss i = int (length (deps_of ss i))"
proof -
  assume d: "distinct (map step_ID ss)" and i: "i \<in> step_ID ` set ss"
  then obtain s where s: "s \<in> set ss" "step_ID s = i" by blast
  have "degree ss i = int (length (step_DependsOn s))"
    using d s
  proof (induction ss)
    case (Cons x xs)
    have "degree xs i = 0" if "i \<notin> step_ID ` set xs"
      using that by (induction xs) (auto simp: degree_def)
    then show ?case using Cons by (auto simp: degree_def)
  qed simp
  then show ?thesis using deps_of_member [OF d s(1)] s(2) by simp
qed

lemma count_list_repl: "count_list (replicate n x) i = (if x = i then n else 0)"
  by (induction n) auto

lemma count_edges:
  assumes "distinct (map step_ID ss)"
  shows "count_list (edges ss d) i = count_list (deps_of ss i) d"
proof -
  have e: "count_list (edges ss d) i = (\<Sum>s\<leftarrow>ss. if step_ID s = i then count_list (step_DependsOn s) d else 0)"
    by (induction ss) (simp_all add: edges_def count_list_repl)
  show ?thesis
  proof (cases "i \<in> step_ID ` set ss")
    case False
    then have "topo_byID ss i = None"
      using topo_byID_distinct [OF assms, of i] by (metis image_eqI option.exhaust)
    moreover have "(\<Sum>s\<leftarrow>ss. if step_ID s = i then count_list (step_DependsOn s) d else 0) = 0"
      using False by (induction ss) auto
    ultimately show ?thesis by (simp add: e deps_of_def)
  next
    case True
    then obtain s where s: "s \<in> set ss" "step_ID s = i" by blast
    have "(\<Sum>s\<leftarrow>ss. if step_ID s = i then count_list (step_DependsOn s) d else 0) = count_list (step_DependsOn s) d"
      using assms s
    proof (induction ss)
      case (Cons x xs)
      have "(\<Sum>s\<leftarrow>xs. if step_ID s = i then count_list (step_DependsOn s) d else 0) = 0" if "i \<notin> step_ID ` set xs"
        using that by (induction xs) auto
      then show ?case using Cons by auto
    qed simp
    then show ?thesis using deps_of_member [OF assms s(1)] s(2) by (simp add: e)
  qed
qed

text \<open>The number of open dependencies of a step, given the finished ones.\<close>

definition open_deps :: "step list \<Rightarrow> string list \<Rightarrow> string \<Rightarrow> int" where
  "open_deps ss finished i = int (length (filter (\<lambda>d. d \<notin> set finished) (deps_of ss i)))"

lemma open_deps_snoc:
  "x \<notin> set finished \<Longrightarrow> open_deps ss (finished @ [x]) i = open_deps ss finished i - int (count_list (deps_of ss i) x)"
proof -
  assume x: "x \<notin> set finished"
  have "int (length (filter (\<lambda>d. d \<notin> set (finished @ [x])) ds)) =
      int (length (filter (\<lambda>d. d \<notin> set finished) ds)) - int (count_list ds x)" for ds
    using x by (induction ds) auto
  then show ?thesis by (simp add: open_deps_def)
qed

definition topo_inv :: "step list \<Rightarrow> (string \<Rightarrow> int) \<Rightarrow> string list \<Rightarrow> step list \<Rightarrow> bool" where
  "topo_inv ss deg ready ordered \<longleftrightarrow>
     (let finished = map step_ID ordered in
      distinct (ready @ finished) \<and> set ready \<subseteq> step_ID ` set ss \<and> set ordered \<subseteq> set ss \<and>
      (\<forall>i \<in> step_ID ` set ss. deg i = open_deps ss finished i \<and> (i \<in> set (ready @ finished) \<longleftrightarrow> deg i = 0)) \<and>
      (\<forall>k < length ordered. set (step_DependsOn (ordered ! k)) \<subseteq> step_ID ` set (take k ordered)))"

lemma topo_inv_step:
  assumes d: "distinct (map step_ID ss)" and inv: "topo_inv ss deg ready ordered"
    and r: "sort ready = i # rest" "topo_release (edges ss i) deg rest = (deg', ready')"
  shows "topo_inv ss deg' ready' (ordered @ [the (topo_byID ss i)])"
proof -
  define finished where "finished = map step_ID ordered"
  have I: "distinct (ready @ finished)" "set ready \<subseteq> step_ID ` set ss" "set ordered \<subseteq> set ss"
    "\<And>j. j \<in> step_ID ` set ss \<Longrightarrow> deg j = open_deps ss finished j"
    "\<And>j. j \<in> step_ID ` set ss \<Longrightarrow> j \<in> set (ready @ finished) \<longleftrightarrow> deg j = 0"
    "\<And>k. k < length ordered \<Longrightarrow> set (step_DependsOn (ordered ! k)) \<subseteq> step_ID ` set (take k ordered)"
    using inv unfolding topo_inv_def Let_def finished_def by blast+
  have "distinct (sort ready)" using I(1) by simp
  then have "distinct (i # rest)" by (simp only: r(1))
  moreover have "set (sort ready) = set ready" by simp
  ultimately have ready: "set ready = insert i (set rest)" "i \<notin> set rest" "distinct rest" by (simp_all add: r(1))
  have i: "i \<in> step_ID ` set ss" "i \<notin> set finished" using ready(1) I(1,2) by auto
  then obtain s where s: "s \<in> set ss" "step_ID s = i" by blast
  have byid: "the (topo_byID ss i) = s" using topo_byID_distinct [OF d] s by (metis option.sel)
  have keys: "set (edges ss i) \<subseteq> step_ID ` set ss" by (auto simp: edges_def)
  have cnt: "count_list (edges ss i) j = count_list (deps_of ss j) i" for j by (rule count_edges [OF d])
  have nonneg: "0 \<le> open_deps ss fin j" for fin j by (simp add: open_deps_def)
  have snoc: "open_deps ss (finished @ [i]) j = open_deps ss finished j - int (count_list (edges ss i) j)" for j
    using open_deps_snoc [OF i(2)] cnt by simp
  have "\<forall>j \<in> set (edges ss i). int (count_list (edges ss i) j) \<le> deg j"
  proof
    fix j assume "j \<in> set (edges ss i)"
    then have "deg j = open_deps ss finished j" using keys I(4) by blast
    then show "int (count_list (edges ss i) j) \<le> deg j" using snoc [of j] nonneg [of "finished @ [i]" j] by simp
  qed
  from topo_release_props [OF r(2) this] obtain new where
    new: "\<And>j. deg' j = deg j - int (count_list (edges ss i) j)" "ready' = rest @ new" "distinct new"
      "set new = {j \<in> set (edges ss i). deg j = int (count_list (edges ss i) j)}" by blast
  have pos: "0 < count_list (edges ss i) j" if "j \<in> set (edges ss i)" for j
    using that by (metis count_list_0_iff gr0I)
  have fresh: "set new \<inter> set (ready @ finished) = {}"
  proof (rule ccontr)
    assume "set new \<inter> set (ready @ finished) \<noteq> {}"
    then obtain j where j: "j \<in> set new" "j \<in> set (ready @ finished)" by blast
    then have "j \<in> step_ID ` set ss" using new(4) keys by blast
    then have "deg j = 0" using I(5) j(2) by blast
    moreover have "0 < deg j" using j(1) new(4) pos by auto
    ultimately show False by simp
  qed
  have deg': "deg' j = open_deps ss (finished @ [i]) j" if "j \<in> step_ID ` set ss" for j
    using new(1) I(4) [OF that] snoc by simp
  have mem: "j \<in> set (ready' @ finished @ [i]) \<longleftrightarrow> deg' j = 0" if j: "j \<in> step_ID ` set ss" for j
  proof -
    have "deg' j = 0 \<longleftrightarrow> deg j = 0 \<or> j \<in> set new"
    proof (cases "j \<in> set (edges ss i)")
      case True
      then have "deg' j = 0 \<longleftrightarrow> j \<in> set new" using new(1,4) by auto
      moreover have "deg j \<noteq> 0" using pos [OF True] deg' [OF j] nonneg [of "finished @ [i]" j] new(1) [of j] by auto
      ultimately show ?thesis by blast
    next
      case False
      then have "count_list (edges ss i) j = 0" by (simp add: count_list_0_iff)
      then show ?thesis using new(1,4) False by auto
    qed
    then show ?thesis using I(5) [OF j] ready(1) new(2) by auto
  qed
  have deps: "set (step_DependsOn s) \<subseteq> step_ID ` set ordered"
  proof -
    have "deg i = 0" using I(5) [OF i(1)] ready(1) by simp
    then have "filter (\<lambda>d. d \<notin> set finished) (deps_of ss i) = []" using I(4) [OF i(1)] by (simp add: open_deps_def)
    then show ?thesis using deps_of_member [OF d s(1)] s(2) by (auto simp: filter_empty_conv finished_def)
  qed
  have "distinct (ready' @ finished @ [i])" using I(1) ready new(2,3) fresh i(2) by auto
  moreover have "set ready' \<subseteq> step_ID ` set ss" using I(2) ready(1) new(2,4) keys by auto
  moreover have "set (step_DependsOn ((ordered @ [s]) ! k)) \<subseteq> step_ID ` set (take k (ordered @ [s]))"
    if "k < Suc (length ordered)" for k
    using that I(6) [of k] deps by (cases "k = length ordered") (auto simp: nth_append)
  ultimately show ?thesis
    unfolding topo_inv_def Let_def byid using I(3) s deg' mem by (simp add: finished_def)
qed


lemma topo_inv_bound:
  assumes "distinct (map step_ID ss)" "topo_inv ss deg ready ordered"
  shows "length ready + length ordered \<le> length ss"
proof -
  have "distinct (ready @ map step_ID ordered)" "set (ready @ map step_ID ordered) \<subseteq> step_ID ` set ss"
    using assms(2) unfolding topo_inv_def Let_def by auto
  then have "length (ready @ map step_ID ordered) \<le> card (step_ID ` set ss)"
    by (metis List.finite_set card_mono distinct_card finite_imageI)
  also have "\<dots> \<le> length ss" by (metis card_image_le card_length le_trans List.finite_set)
  finally show ?thesis by simp
qed

text \<open>One iteration per step is enough: the loop ends with nothing ready.\<close>

lemma topo_loop_done:
  assumes "distinct (map step_ID ss)" "topo_inv ss deg ready ordered" "length ss \<le> fuel + length ordered"
  shows "\<exists>out deg'. topo_loop fuel (topo_byID ss) (edges ss) deg ready ordered = (out, []) \<and> topo_inv ss deg' [] out"
  using assms(2,3)
proof (induction fuel arbitrary: deg ready ordered)
  case 0
  then have "length ready = 0" using topo_inv_bound [OF assms(1) 0(1)] by linarith
  then show ?case using 0 by auto
next
  case (Suc fuel)
  show ?case
  proof (cases "sort ready")
    case Nil
    then have "ready = []" by (metis length_0_conv length_sort)
    then show ?thesis using Suc.prems by auto
  next
    case (Cons i rest)
    obtain deg' ready' where rel: "topo_release (edges ss i) deg rest = (deg', ready')" by (rule prod.exhaust)
    from Suc.IH [OF topo_inv_step [OF assms(1) Suc.prems(1) Cons rel]] Suc.prems(2)
    show ?thesis using Cons rel by simp
  qed
qed

lemma topo_inv_init:
  assumes "distinct (map step_ID ss)"
  shows "topo_inv ss (degree ss) (sort (filter (\<lambda>i. degree ss i = 0) (remdups (map step_ID ss)))) []"
  using degree_deps [OF assms] by (auto simp: topo_inv_def open_deps_def)

lemma topo_run_done:
  assumes "distinct (map step_ID ss)"
  shows "if refs_ok (map step_ID ss) ss then \<exists>out deg. topo_run ss = Inr (out, []) \<and> topo_inv ss deg [] out
    else isl (topo_run ss)"
proof (cases "refs_ok (map step_ID ss) ss")
  case True
  then have "topo_scan (map step_ID ss) ss (\<lambda>_. [], \<lambda>_. 0) = Inr (edges ss, degree ss)"
    by (simp add: topo_scan_Inr)
  then show ?thesis
    using topo_loop_done [OF assms topo_inv_init [OF assms], of "length ss"] True by (simp add: topo_run_def)
next
  case False
  then have "\<not> (\<exists>st. topo_scan (map step_ID ss) ss (\<lambda>_. [], \<lambda>_. 0) = Inr st)" by (simp add: topo_scan_Inr)
  then have "isl (topo_scan (map step_ID ss) ss (\<lambda>_. [], \<lambda>_. 0))" by (metis isl_def sum.exhaust_sel)
  then show ?thesis using False by (auto simp: topo_run_def isl_def)
qed

section \<open>Correctness of the sort\<close>

definition dep_ordered :: "step list \<Rightarrow> bool" where
  "dep_ordered ss \<longleftrightarrow> (\<forall>k < length ss. set (step_DependsOn (ss ! k)) \<subseteq> step_ID ` set (take k ss))"

lemma topo_inv_mset:
  assumes "distinct (map step_ID ss)" "topo_inv ss deg ready out" "length out = length ss"
  shows "mset out = mset ss"
proof -
  have out: "distinct out" "set out \<subseteq> set ss"
    using assms(2) unfolding topo_inv_def Let_def by (auto simp: distinct_map)
  have ss: "distinct ss" using assms(1) by (simp add: distinct_map)
  have "set out = set ss"
    using out ss assms(3) by (metis List.finite_set card_subset_eq distinct_card)
  then show ?thesis using out ss by (simp add: set_eq_iff_mset_eq_distinct)
qed

lemma topo_complete:
  assumes d: "distinct (map step_ID ss)" and inv: "topo_inv ss deg [] out"
    and p: "mset p = mset ss" "dep_ordered p"
  shows "length out = length ss"
proof -
  have set: "set p = set ss" by (rule mset_eq_setD [OF p(1)])
  have I: "set out \<subseteq> set ss" "distinct (map step_ID out)"
    "\<And>i. i \<in> step_ID ` set ss \<Longrightarrow> deg i = open_deps ss (map step_ID out) i"
    "\<And>i. i \<in> step_ID ` set ss \<Longrightarrow> i \<in> step_ID ` set out \<longleftrightarrow> deg i = 0"
    using inv unfolding topo_inv_def Let_def by auto
  have "k < length p \<Longrightarrow> step_ID (p ! k) \<in> step_ID ` set out" for k
  proof (induction k rule: less_induct)
    case (less k)
    have "step_ID ` set (take k p) \<subseteq> step_ID ` set out"
      using less by (auto simp: in_set_conv_nth)
    then have deps: "set (step_DependsOn (p ! k)) \<subseteq> step_ID ` set out"
      using p(2) less.prems unfolding dep_ordered_def by blast
    have mem: "p ! k \<in> set ss" using less.prems set nth_mem by blast
    then have "filter (\<lambda>d. d \<notin> set (map step_ID out)) (deps_of ss (step_ID (p ! k))) = []"
      using deps deps_of_member [OF d mem] by (auto simp: filter_empty_conv)
    then have "deg (step_ID (p ! k)) = 0" using I(3) mem by (simp add: open_deps_def)
    then show ?case using I(4) mem by blast
  qed
  then have "step_ID ` set ss \<subseteq> step_ID ` set out"
    using set by (metis image_subset_iff in_set_conv_nth)
  then have "card (step_ID ` set ss) \<le> card (step_ID ` set out)" by (simp add: card_mono)
  then have "length ss \<le> length out"
    using d I(2) by (metis distinct_card image_set length_map)
  moreover have "length out \<le> length ss"
    using topo_inv_bound [OF d inv] by simp
  ultimately show ?thesis by simp
qed

lemma topoSortSteps_sound:
  assumes "distinct (map step_ID ss)" "topoSortSteps ss = Inr out"
  shows "mset out = mset ss \<and> dep_ordered out \<and> refs_ok (map step_ID ss) ss"
proof (cases "refs_ok (map step_ID ss) ss")
  case False
  then show ?thesis
    using topo_run_done [OF assms(1)] assms(2)
    by (cases "topo_run ss") (auto simp: topoSortSteps_def refs_ok_def split: if_splits)
next
  case True
  then obtain fin deg where d: "topo_run ss = Inr (fin, [])" "topo_inv ss deg [] fin"
    using topo_run_done [OF assms(1)] by auto
  have "dep_ordered fin" using d(2) by (simp add: topo_inv_def dep_ordered_def Let_def)
  moreover have "length fin = length ss \<Longrightarrow> mset fin = mset ss" by (rule topo_inv_mset [OF assms(1) d(2)])
  moreover have "dep_ordered []" by (simp add: dep_ordered_def)
  ultimately show ?thesis using assms(2) d(1) True by (auto simp: topoSortSteps_def split: if_splits)
qed

lemma topoSortSteps_complete:
  assumes "distinct (map step_ID ss)" "refs_ok (map step_ID ss) ss" "mset p = mset ss" "dep_ordered p"
  shows "\<exists>out. topoSortSteps ss = Inr out"
proof -
  obtain fin deg where d: "topo_run ss = Inr (fin, [])" "topo_inv ss deg [] fin"
    using topo_run_done [OF assms(1)] assms(2) by auto
  then show ?thesis using topo_complete [OF assms(1) d(2) assms(3,4)] by (simp add: topoSortSteps_def)
qed

text \<open>
  What the planner relies on when it sorts the steps of a plan: the result is an order of the same
  steps in which dependencies come first, and steps that have such an order are sorted.
\<close>

locale step_sorter =
  fixes sorter :: "step list \<Rightarrow> (planner_error, step list) result"
  assumes sound: "distinct (map step_ID ss) \<Longrightarrow> sorter ss = Inr out \<Longrightarrow>
      mset out = mset ss \<and> dep_ordered out \<and> refs_ok (map step_ID ss) ss"
    and complete: "distinct (map step_ID ss) \<Longrightarrow> refs_ok (map step_ID ss) ss \<Longrightarrow> mset p = mset ss \<Longrightarrow>
      dep_ordered p \<Longrightarrow> \<exists>out. sorter ss = Inr out"
begin

lemma sorted_steps:
  assumes "distinct (map step_ID ss)" "sorter ss = Inr out"
  shows "set out = set ss" "distinct (map step_ID out)" "refs_ok (map step_ID out) out" "dep_ordered out"
proof -
  have m: "mset out = mset ss" and o: "dep_ordered out" and r: "refs_ok (map step_ID ss) ss"
    using sound [OF assms] by auto
  show s: "set out = set ss" by (rule mset_eq_setD [OF m])
  have "mset (map step_ID out) = mset (map step_ID ss)" using m by simp
  then show "distinct (map step_ID out)" using assms(1) mset_eq_imp_distinct_iff by blast
  show "refs_ok (map step_ID out) out" using r s by (simp add: refs_ok_def)
  show "dep_ordered out" by (rule o)
qed

lemma sorts_ordered: "distinct (map step_ID ss) \<Longrightarrow> refs_ok (map step_ID ss) ss \<Longrightarrow> dep_ordered ss \<Longrightarrow> \<exists>out. sorter ss = Inr out"
  using complete by blast

end

interpretation topo: step_sorter topoSortSteps
  by unfold_locales (rule topoSortSteps_sound, assumption+, rule topoSortSteps_complete)

text \<open>
  C14: on steps with distinct identifiers the loop of the sort ends, and the sort succeeds exactly
  when every reference names a step and some order of the steps puts every step after its
  dependencies; what it returns is such an order of the same steps.
\<close>

theorem topoSortSteps_correct:
  assumes "distinct (map step_ID ss)"
  shows "(case topoSortSteps ss of
      Inr out \<Rightarrow> mset out = mset ss \<and> dep_ordered out \<and> refs_ok (map step_ID ss) ss
    | Inl _ \<Rightarrow> \<not> (refs_ok (map step_ID ss) ss \<and> (\<exists>p. mset p = mset ss \<and> dep_ordered p))) \<and>
    (\<forall>ordered ready. topo_run ss = Inr (ordered, ready) \<longrightarrow> ready = [])"
proof (intro conjI)
  show "case topoSortSteps ss of
      Inr out \<Rightarrow> mset out = mset ss \<and> dep_ordered out \<and> refs_ok (map step_ID ss) ss
    | Inl _ \<Rightarrow> \<not> (refs_ok (map step_ID ss) ss \<and> (\<exists>p. mset p = mset ss \<and> dep_ordered p))"
    using topo.sound [OF assms] topo.complete [OF assms] by (cases "topoSortSteps ss") auto
  show "\<forall>ordered ready. topo_run ss = Inr (ordered, ready) \<longrightarrow> ready = []"
    using topo_run_done [OF assms] by (auto split: if_splits)
qed

definition demo_step :: "string \<Rightarrow> string list \<Rightarrow> step" where
  "demo_step i ds = \<lparr>step_ID = i, step_ParentID = [], step_DependsOn = ds, step_Title = ''t'', step_Status = StepPending\<rparr>"

theorem topoSortSteps_correct_witness:
  "topoSortSteps [demo_step ''a'' [''b''], demo_step ''b'' []] = Inr [demo_step ''b'' [], demo_step ''a'' [''b'']] \<and>
   topoSortSteps [demo_step ''a'' [''b''], demo_step ''b'' [''a'']] = Inl TopoCycle \<and>
   dep_ordered [demo_step ''b'' [], demo_step ''a'' [''b'']] \<and>
   \<not> (\<exists>p. mset p = mset [demo_step ''a'' [''b''], demo_step ''b'' [''a'']] \<and> dep_ordered p)"
proof -
  have 1: "topoSortSteps [demo_step ''a'' [''b''], demo_step ''b'' []] = Inr [demo_step ''b'' [], demo_step ''a'' [''b'']]"
    by code_simp
  have 2: "topoSortSteps [demo_step ''a'' [''b''], demo_step ''b'' [''a'']] = Inl TopoCycle"
    by code_simp
  have "refs_ok (map step_ID [demo_step ''a'' [''b''], demo_step ''b'' [''a'']]) [demo_step ''a'' [''b''], demo_step ''b'' [''a'']]"
    by (simp add: refs_ok_def demo_step_def)
  with 1 2 topoSortSteps_correct [of "[demo_step ''a'' [''b''], demo_step ''b'' []]"]
    topoSortSteps_correct [of "[demo_step ''a'' [''b''], demo_step ''b'' [''a'']]"]
  show ?thesis by (auto simp: demo_step_def)
qed

end
