(* ===== verification/Capability.thy ===== *)
theory Capability
  imports Memory_Store
begin

text \<open>
  Capabilities attached to a thread (\<^verbatim>\<open>src/capability\<close>): the thread events that record attaching,
  detaching and state changes (\<^verbatim>\<open>events.go\<close>), the registry of factories and state event definitions
  (\<^verbatim>\<open>registry.go\<close>, \<^verbatim>\<open>event_registry.go\<close>), the live runtime that appends to a thread
  (\<^verbatim>\<open>runtime.go\<close>) and the manager that attaches instances and replays a log (\<^verbatim>\<open>manager.go\<close>).

  An instance is a value of a type parameter; the interface \<^verbatim>\<open>StateApplier\<close> is the argument
  \<^verbatim>\<open>apply\<close> of the operations that call it, \<^term>\<open>None\<close> for an instance that does not implement it.
\<close>

section \<open>Events\<close>

definition EventAttached :: string where "EventAttached = ''capability.attached''"
definition EventDetached :: string where "EventDetached = ''capability.detached''"
definition EventStateEventDispatched :: string where
  "EventStateEventDispatched = ''capability.state_event_dispatched''"

lemmas capability_kind_defs = EventAttached_def EventDetached_def EventStateEventDispatched_def

lemma capability_kind_neq [simp]:
  "EventAttached \<noteq> []" "EventDetached \<noteq> []" "EventStateEventDispatched \<noteq> []"
  "EventAttached \<noteq> EventDetached" "EventDetached \<noteq> EventAttached"
  "EventAttached \<noteq> EventStateEventDispatched" "EventStateEventDispatched \<noteq> EventAttached"
  "EventDetached \<noteq> EventStateEventDispatched" "EventStateEventDispatched \<noteq> EventDetached"
  by (simp_all add: capability_kind_defs)

record attach_spec =
  as_ThreadID :: string
  as_BranchID :: string
  as_CapabilityName :: string
  as_InstanceID :: string
  as_Config :: rawmsg

record attached =
  ac_CapabilityName :: string
  ac_InstanceID :: string
  ac_Config :: rawmsg

record detached =
  dc_CapabilityName :: string
  dc_InstanceID :: string

record state_event =
  se_Name :: string
  se_Body :: rawmsg

record state_event_dispatched =
  sd_CapabilityName :: string
  sd_InstanceID :: string
  sd_EventName :: string
  sd_Body :: rawmsg

definition attached_handlers :: "attached handler list" where
  "attached_handlers =
     [(''capability_name'', at_field dec_string ac_CapabilityName (\<lambda>v s. s\<lparr>ac_CapabilityName := v\<rparr>)),
      (''instance_id'', at_field dec_string ac_InstanceID (\<lambda>v s. s\<lparr>ac_InstanceID := v\<rparr>)),
      (''config'', at_field dec_raw ac_Config (\<lambda>v s. s\<lparr>ac_Config := v\<rparr>))]"

definition detached_handlers :: "detached handler list" where
  "detached_handlers =
     [(''capability_name'', at_field dec_string dc_CapabilityName (\<lambda>v s. s\<lparr>dc_CapabilityName := v\<rparr>)),
      (''instance_id'', at_field dec_string dc_InstanceID (\<lambda>v s. s\<lparr>dc_InstanceID := v\<rparr>))]"

definition dispatched_handlers :: "state_event_dispatched handler list" where
  "dispatched_handlers =
     [(''capability_name'', at_field dec_string sd_CapabilityName (\<lambda>v s. s\<lparr>sd_CapabilityName := v\<rparr>)),
      (''instance_id'', at_field dec_string sd_InstanceID (\<lambda>v s. s\<lparr>sd_InstanceID := v\<rparr>)),
      (''event_name'', at_field dec_string sd_EventName (\<lambda>v s. s\<lparr>sd_EventName := v\<rparr>)),
      (''body'', at_field dec_raw sd_Body (\<lambda>v s. s\<lparr>sd_Body := v\<rparr>))]"

definition no_attached :: attached where
  "no_attached = \<lparr>ac_CapabilityName = [], ac_InstanceID = [], ac_Config = NoBytes\<rparr>"

definition no_detached :: detached where
  "no_detached = \<lparr>dc_CapabilityName = [], dc_InstanceID = []\<rparr>"

definition no_dispatched :: state_event_dispatched where
  "no_dispatched = \<lparr>sd_CapabilityName = [], sd_InstanceID = [], sd_EventName = [], sd_Body = NoBytes\<rparr>"

definition enc_attached :: "attached \<Rightarrow> json" where
  "enc_attached a = JObj (fld ''capability_name'' (JStr (ac_CapabilityName a)) @
     fld ''instance_id'' (JStr (ac_InstanceID a)) @ omit_raw ''config'' (ac_Config a))"

definition enc_detached :: "detached \<Rightarrow> json" where
  "enc_detached a = JObj (fld ''capability_name'' (JStr (dc_CapabilityName a)) @
     fld ''instance_id'' (JStr (dc_InstanceID a)))"

definition enc_dispatched :: "state_event_dispatched \<Rightarrow> json" where
  "enc_dispatched a = JObj (fld ''capability_name'' (JStr (sd_CapabilityName a)) @
     fld ''instance_id'' (JStr (sd_InstanceID a)) @ fld ''event_name'' (JStr (sd_EventName a)) @
     omit_raw ''body'' (sd_Body a))"

text \<open>\<^verbatim>\<open>json.Marshal\<close> fails on a raw message that is not JSON.\<close>

fun raw_ok :: "rawmsg \<Rightarrow> bool" where
  "raw_ok (BadBytes b) = False"
| "raw_ok _ = True"

datatype 'e cap_error =
    CapMarshalErr
  | CapDecodeErr
  | CapRegistryRequired
  | CapRuntimeRequired
  | CapLiveRequired
  | InstanceIDRequired
  | InstanceAttached string
  | InstanceNotAttached string
  | InstanceCannotApply string
  | AttachedWithoutInstance
  | CapabilityNameRequired
  | FactoryNil
  | FactoryNameRequired
  | FactoryExists string
  | FactoryMissing string
  | StateCapabilityRequired
  | StateNameRequired
  | StateEventExists string string
  | StateEventUnknown string string
  | StateBodyInvalid string string
  | CapThreadErr thread_error
  | InstanceErr 'e

definition capability_source :: "string \<Rightarrow> event_source" where
  "capability_source i = \<lparr>src_Type = ''capability'', src_ID = i, src_SessionID = []\<rparr>"

definition capability_event :: "attach_spec \<Rightarrow> string \<Rightarrow> json \<Rightarrow> event" where
  "capability_event spec kind j =
     no_event\<lparr>ev_ThreadID := as_ThreadID spec, ev_BranchID := as_BranchID spec, ev_Kind := kind,
       ev_Payload := Doc j, ev_Source := capability_source (as_InstanceID spec)\<rparr>"

definition AttachEvent :: "attach_spec \<Rightarrow> ('e cap_error, event) result" where
  "AttachEvent spec =
     (if raw_ok (as_Config spec)
      then Inr (capability_event spec EventAttached (enc_attached
        \<lparr>ac_CapabilityName = as_CapabilityName spec, ac_InstanceID = as_InstanceID spec, ac_Config = as_Config spec\<rparr>))
      else Inl CapMarshalErr)"

definition DetachEvent :: "attach_spec \<Rightarrow> ('e cap_error, event) result" where
  "DetachEvent spec = Inr (capability_event spec EventDetached (enc_detached
     \<lparr>dc_CapabilityName = as_CapabilityName spec, dc_InstanceID = as_InstanceID spec\<rparr>))"

definition DispatchEvent :: "attach_spec \<Rightarrow> state_event \<Rightarrow> ('e cap_error, event) result" where
  "DispatchEvent spec e =
     (if raw_ok (se_Body e)
      then Inr (capability_event spec EventStateEventDispatched (enc_dispatched
        \<lparr>sd_CapabilityName = as_CapabilityName spec, sd_InstanceID = as_InstanceID spec,
         sd_EventName = se_Name e, sd_Body = se_Body e\<rparr>))
      else Inl CapMarshalErr)"

section \<open>Runtime\<close>

record live_runtime =
  rt_Live :: "memory_live option"
  rt_SourceValue :: event_source

definition LiveRuntime_ThreadID :: "live_runtime \<Rightarrow> string" where
  "LiveRuntime_ThreadID r = (case rt_Live r of None \<Rightarrow> [] | Some l \<Rightarrow> ml_threadID l)"

definition LiveRuntime_BranchID :: "live_runtime \<Rightarrow> string" where
  "LiveRuntime_BranchID r = (case rt_Live r of None \<Rightarrow> [] | Some l \<Rightarrow> ml_branchID l)"

definition runtime_event :: "live_runtime \<Rightarrow> event \<Rightarrow> event" where
  "runtime_event r e =
     (let e1 = (if ev_ThreadID e = [] then e\<lparr>ev_ThreadID := LiveRuntime_ThreadID r\<rparr> else e);
          e2 = (if ev_BranchID e1 = [] then e1\<lparr>ev_BranchID := LiveRuntime_BranchID r\<rparr> else e1)
      in if src_Type (ev_Source e2) = [] \<and> src_ID (ev_Source e2) = [] \<and> src_SessionID (ev_Source e2) = []
         then e2\<lparr>ev_Source := rt_SourceValue r\<rparr> else e2)"

definition LiveRuntime_AppendEvents ::
  "go_ctx \<Rightarrow> gen \<Rightarrow> live_runtime \<Rightarrow> event list \<Rightarrow> memory_store \<Rightarrow> ('e cap_error, unit) result \<times> memory_store" where
  "LiveRuntime_AppendEvents ctx g r es s =
     (case rt_Live r of
        None \<Rightarrow> (Inl CapLiveRequired, s)
      | Some l \<Rightarrow> (case memoryLive_Append ctx g l (map (runtime_event r) es) s of
          (Inl e, s') \<Rightarrow> (Inl (CapThreadErr e), s') | (Inr _, s') \<Rightarrow> (Inr (), s')))"

text \<open>
  \<^verbatim>\<open>ObservableRuntime\<close> around a live runtime: the observer sees the events as the inner runtime filled
  them in, and only after they are stored. What the observer changes is a value of its own type.
\<close>

definition ObservableRuntime_AppendEvents ::
  "go_ctx \<Rightarrow> gen \<Rightarrow> live_runtime \<Rightarrow> (go_ctx \<Rightarrow> event list \<Rightarrow> 'o \<Rightarrow> 'o) option \<Rightarrow> event list \<Rightarrow> memory_store \<Rightarrow> 'o \<Rightarrow>
     ('e cap_error, unit) result \<times> memory_store \<times> 'o" where
  "ObservableRuntime_AppendEvents ctx g r observer es s obs =
     (case LiveRuntime_AppendEvents ctx g r es s of
        (Inl e, s') \<Rightarrow> (Inl e, s', obs)
      | (Inr _, s') \<Rightarrow> (Inr (), s',
          case observer of None \<Rightarrow> obs | Some f \<Rightarrow> f ctx (map (runtime_event r) es) obs))"

section \<open>Registries\<close>

record state_event_definition =
  sdef_CapabilityName :: string
  sdef_EventName :: string
  sdef_BodyType :: "(json \<Rightarrow> bool) option"

type_synonym state_event_registry = "(string, (string, state_event_definition) fmap) fmap"

definition DefineStateEvent :: "'s decoder \<Rightarrow> 's \<Rightarrow> string \<Rightarrow> string \<Rightarrow> state_event_definition" where
  "DefineStateEvent dec z cap name = \<lparr>sdef_CapabilityName = cap, sdef_EventName = name,
     sdef_BodyType = Some (\<lambda>j. \<not> isl (dec j z))\<rparr>"

definition stateEventRegistry_Register ::
  "state_event_registry \<Rightarrow> state_event_definition \<Rightarrow> ('e cap_error, unit) result \<times> state_event_registry" where
  "stateEventRegistry_Register r d =
     (if sdef_CapabilityName d = [] then (Inl StateCapabilityRequired, r)
      else if sdef_EventName d = [] then (Inl StateNameRequired, r)
      else
        let events = (case fmlookup r (sdef_CapabilityName d) of None \<Rightarrow> fmempty | Some es \<Rightarrow> es) in
        if fmlookup events (sdef_EventName d) \<noteq> None
        then (Inl (StateEventExists (sdef_CapabilityName d) (sdef_EventName d)), fmupd (sdef_CapabilityName d) events r)
        else (Inr (), fmupd (sdef_CapabilityName d) (fmupd (sdef_EventName d) d events) r))"

definition stateEventRegistry_Validate ::
  "state_event_registry \<Rightarrow> string \<Rightarrow> state_event \<Rightarrow> ('e cap_error, unit) result" where
  "stateEventRegistry_Validate r cap e =
     (if r = fmempty then Inr ()
      else
        let events = (case fmlookup r cap of None \<Rightarrow> fmempty | Some es \<Rightarrow> es) in
        if events = fmempty then Inr ()
        else case fmlookup events (se_Name e) of
          None \<Rightarrow> Inl (StateEventUnknown cap (se_Name e))
        | Some d \<Rightarrow>
            (case sdef_BodyType d of
               None \<Rightarrow> Inr ()
             | Some okj \<Rightarrow>
                 (case se_Body e of
                    Doc j \<Rightarrow> if okj j then Inr () else Inl (StateBodyInvalid cap (se_Name e))
                  | _ \<Rightarrow> Inl (StateBodyInvalid cap (se_Name e)))))"

record ('c, 'e) factory =
  fac_Name :: string
  fac_Definitions :: "state_event_definition list"
  fac_New :: "go_ctx \<Rightarrow> attach_spec \<Rightarrow> live_runtime \<Rightarrow> ('e cap_error, 'c) result"

record ('c, 'e) registry =
  rg_factories :: "string \<rightharpoonup> ('c, 'e) factory"
  rg_stateEvents :: state_event_registry

fun register_definitions ::
  "string \<Rightarrow> state_event_definition list \<Rightarrow> state_event_registry \<Rightarrow> ('e cap_error, unit) result \<times> state_event_registry" where
  "register_definitions name [] r = (Inr (), r)"
| "register_definitions name (d # ds) r =
     (let d' = (if sdef_CapabilityName d = [] then d\<lparr>sdef_CapabilityName := name\<rparr> else d)
      in case stateEventRegistry_Register r d' of
           (Inl e, r') \<Rightarrow> (Inl e, r') | (Inr _, r') \<Rightarrow> register_definitions name ds r')"

fun MemoryRegistry_Register ::
  "('c, 'e) factory option list \<Rightarrow> ('c, 'e) registry \<Rightarrow> ('e cap_error, unit) result \<times> ('c, 'e) registry" where
  "MemoryRegistry_Register [] r = (Inr (), r)"
| "MemoryRegistry_Register (None # fs) r = (Inl FactoryNil, r)"
| "MemoryRegistry_Register (Some f # fs) r =
     (if fac_Name f = [] then (Inl FactoryNameRequired, r)
      else if rg_factories r (fac_Name f) \<noteq> None then (Inl (FactoryExists (fac_Name f)), r)
      else
        let r1 = r\<lparr>rg_factories := (rg_factories r)(fac_Name f \<mapsto> f)\<rparr> in
        case register_definitions (fac_Name f) (fac_Definitions f) (rg_stateEvents r1) of
          (Inl e, se) \<Rightarrow> (Inl e, r1\<lparr>rg_stateEvents := se\<rparr>)
        | (Inr _, se) \<Rightarrow> MemoryRegistry_Register fs (r1\<lparr>rg_stateEvents := se\<rparr>))"

definition NewRegistry :: "('c, 'e) factory option list \<Rightarrow> ('e cap_error, ('c, 'e) registry) result" where
  "NewRegistry fs =
     (case MemoryRegistry_Register fs \<lparr>rg_factories = Map.empty, rg_stateEvents = fmempty\<rparr> of
        (Inl e, _) \<Rightarrow> Inl e | (Inr _, r) \<Rightarrow> Inr r)"

definition MemoryRegistry_Create ::
  "go_ctx \<Rightarrow> ('c, 'e) registry \<Rightarrow> attach_spec \<Rightarrow> live_runtime \<Rightarrow> ('e cap_error, 'c) result" where
  "MemoryRegistry_Create ctx r spec rt =
     (if as_CapabilityName spec = [] then Inl CapabilityNameRequired
      else case rg_factories r (as_CapabilityName spec) of
        None \<Rightarrow> Inl (FactoryMissing (as_CapabilityName spec)) | Some f \<Rightarrow> fac_New f ctx spec rt)"

definition MemoryRegistry_ValidateStateEvent ::
  "('c, 'e) registry \<Rightarrow> string \<Rightarrow> state_event \<Rightarrow> ('e cap_error, unit) result" where
  "MemoryRegistry_ValidateStateEvent r = stateEventRegistry_Validate (rg_stateEvents r)"

section \<open>Manager\<close>

record ('c, 'e) manager =
  mg_registry :: "('c, 'e) registry option"
  mg_runtime :: "live_runtime option"
  mg_capabilities :: "(string, 'c) fmap"

definition NewManager :: "('c, 'e) registry option \<Rightarrow> live_runtime option \<Rightarrow> ('c, 'e) manager" where
  "NewManager r rt = \<lparr>mg_registry = r, mg_runtime = rt, mg_capabilities = fmempty\<rparr>"

definition normalizeSpec :: "live_runtime \<Rightarrow> attach_spec \<Rightarrow> attach_spec" where
  "normalizeSpec rt spec =
     (let s1 = (if as_ThreadID spec = [] then spec\<lparr>as_ThreadID := LiveRuntime_ThreadID rt\<rparr> else spec)
      in if as_BranchID s1 = [] then s1\<lparr>as_BranchID := LiveRuntime_BranchID rt\<rparr> else s1)"

definition Manager_Attach ::
  "go_ctx \<Rightarrow> gen \<Rightarrow> attach_spec \<Rightarrow> ('c, 'e) manager \<Rightarrow> memory_store \<Rightarrow>
     ('e cap_error, 'c) result \<times> ('c, 'e) manager \<times> memory_store" where
  "Manager_Attach ctx g spec0 m s =
     (case mg_registry m of None \<Rightarrow> (Inl CapRegistryRequired, m, s) | Some reg \<Rightarrow>
        (case mg_runtime m of None \<Rightarrow> (Inl CapRuntimeRequired, m, s) | Some rt \<Rightarrow>
           (let spec = normalizeSpec rt spec0 in
            if as_InstanceID spec = [] then (Inl InstanceIDRequired, m, s)
            else if fmlookup (mg_capabilities m) (as_InstanceID spec) \<noteq> None
            then (Inl (InstanceAttached (as_InstanceID spec)), m, s)
            else case MemoryRegistry_Create ctx reg spec rt of
              Inl e \<Rightarrow> (Inl e, m, s)
            | Inr inst \<Rightarrow>
                (case AttachEvent spec of
                   Inl e \<Rightarrow> (Inl e, m, s)
                 | Inr ev \<Rightarrow>
                     (case LiveRuntime_AppendEvents ctx g rt [ev] s of
                        (Inl e, s') \<Rightarrow> (Inl e, m, s')
                      | (Inr _, s') \<Rightarrow>
                          (Inr inst, m\<lparr>mg_capabilities := fmupd (as_InstanceID spec) inst (mg_capabilities m)\<rparr>, s'))))))"

text \<open>One event of \<^verbatim>\<open>Replay\<close>, given the registry and the runtime.\<close>

definition replay_event ::
  "go_ctx \<Rightarrow> ('c \<Rightarrow> (go_ctx \<Rightarrow> state_event \<Rightarrow> ('e, 'c) result) option) \<Rightarrow> ('c, 'e) registry \<Rightarrow> live_runtime \<Rightarrow>
     (string, 'c) fmap \<Rightarrow> event \<Rightarrow> ('e cap_error, (string, 'c) fmap) result" where
  "replay_event ctx apply reg rt caps ev =
     (if ev_Kind ev = EventAttached then
        (case Unmarshal (dec_struct attached_handlers) (ev_Payload ev) no_attached of
           Inl _ \<Rightarrow> Inl CapDecodeErr
         | Inr p \<Rightarrow>
             (let spec = \<lparr>as_ThreadID = LiveRuntime_ThreadID rt, as_BranchID = LiveRuntime_BranchID rt,
                as_CapabilityName = ac_CapabilityName p, as_InstanceID = ac_InstanceID p, as_Config = ac_Config p\<rparr> in
              if as_InstanceID spec = [] then Inl AttachedWithoutInstance
              else rbind (MemoryRegistry_Create ctx reg spec rt) (\<lambda>inst. Inr (fmupd (as_InstanceID spec) inst caps))))
      else if ev_Kind ev = EventDetached then
        (case Unmarshal (dec_struct detached_handlers) (ev_Payload ev) no_detached of
           Inl _ \<Rightarrow> Inl CapDecodeErr | Inr p \<Rightarrow> Inr (fmdrop (dc_InstanceID p) caps))
      else if ev_Kind ev = EventStateEventDispatched then
        (case Unmarshal (dec_struct dispatched_handlers) (ev_Payload ev) no_dispatched of
           Inl _ \<Rightarrow> Inl CapDecodeErr
         | Inr p \<Rightarrow>
             (case fmlookup caps (sd_InstanceID p) of
                None \<Rightarrow> Inl (InstanceNotAttached (sd_InstanceID p))
              | Some inst \<Rightarrow>
                  (case apply inst of
                     None \<Rightarrow> Inl (InstanceCannotApply (sd_InstanceID p))
                   | Some f \<Rightarrow>
                       (let e = \<lparr>se_Name = sd_EventName p, se_Body = sd_Body p\<rparr> in
                        rbind (MemoryRegistry_ValidateStateEvent reg (sd_CapabilityName p) e) (\<lambda>_.
                          case f ctx e of Inl err \<Rightarrow> Inl (InstanceErr err)
                          | Inr inst' \<Rightarrow> Inr (fmupd (sd_InstanceID p) inst' caps))))))
      else Inr caps)"

text \<open>The loop stops at the first error and keeps what it had built until then.\<close>

fun replay_events ::
  "go_ctx \<Rightarrow> ('c \<Rightarrow> (go_ctx \<Rightarrow> state_event \<Rightarrow> ('e, 'c) result) option) \<Rightarrow> ('c, 'e) registry \<Rightarrow> live_runtime \<Rightarrow>
     (string, 'c) fmap \<Rightarrow> event list \<Rightarrow> ('e cap_error, unit) result \<times> (string, 'c) fmap" where
  "replay_events ctx apply reg rt caps [] = (Inr (), caps)"
| "replay_events ctx apply reg rt caps (e # es) =
     (case replay_event ctx apply reg rt caps e of
        Inl err \<Rightarrow> (Inl err, caps) | Inr caps' \<Rightarrow> replay_events ctx apply reg rt caps' es)"

definition Manager_Replay ::
  "go_ctx \<Rightarrow> ('c \<Rightarrow> (go_ctx \<Rightarrow> state_event \<Rightarrow> ('e, 'c) result) option) \<Rightarrow> event list \<Rightarrow> ('c, 'e) manager \<Rightarrow>
     ('e cap_error, unit) result \<times> ('c, 'e) manager" where
  "Manager_Replay ctx apply es m =
     (case mg_registry m of None \<Rightarrow> (Inl CapRegistryRequired, m) | Some reg \<Rightarrow>
        (case mg_runtime m of None \<Rightarrow> (Inl CapRuntimeRequired, m) | Some rt \<Rightarrow>
           (case replay_events ctx apply reg rt (mg_capabilities m) es of
              (r, caps) \<Rightarrow> (r, m\<lparr>mg_capabilities := caps\<rparr>))))"

definition Manager_Capability :: "('c, 'e) manager \<Rightarrow> string \<Rightarrow> 'c option" where
  "Manager_Capability m i = fmlookup (mg_capabilities m) i"

definition sortedCapabilities :: "('c, 'e) manager \<Rightarrow> 'c list" where
  "sortedCapabilities m = map (\<lambda>k. the (fmlookup (mg_capabilities m) k)) (sorted_list_of_fset (fmdom (mg_capabilities m)))"

definition Manager_Tools :: "('c \<Rightarrow> 'tool list) \<Rightarrow> ('c, 'e) manager \<Rightarrow> 'tool list" where
  "Manager_Tools tools m = concat (map tools (sortedCapabilities m))"

definition Manager_Actions :: "('c \<Rightarrow> 'action list option) \<Rightarrow> ('c, 'e) manager \<Rightarrow> 'action list" where
  "Manager_Actions acts m = concat (map (\<lambda>c. case acts c of None \<Rightarrow> [] | Some as \<Rightarrow> as) (sortedCapabilities m))"

section \<open>Codecs\<close>

lemma capability_names [simp]:
  "fold_name ''capability_name'' = ''capability_name''" "fold_name ''instance_id'' = ''instance_id''"
  "fold_name ''config'' = ''config''" "fold_name ''event_name'' = ''event_name''" "fold_name ''body'' = ''body''"
  by code_simp+

lemma dec_enc_attached: "raw_ok (ac_Config a) \<Longrightarrow> dec_struct attached_handlers (enc_attached a) no_attached = Inr a"
  by (cases "ac_Config a")
    (auto simp: enc_attached_def attached_handlers_def no_attached_def at_field_def)

lemma dec_enc_detached: "dec_struct detached_handlers (enc_detached a) no_detached = Inr a"
  by (simp add: enc_detached_def detached_handlers_def no_detached_def at_field_def)

lemma dec_enc_dispatched:
  "raw_ok (sd_Body a) \<Longrightarrow> dec_struct dispatched_handlers (enc_dispatched a) no_dispatched = Inr a"
  by (cases "sd_Body a")
    (auto simp: enc_dispatched_def dispatched_handlers_def no_dispatched_def at_field_def)

interpretation attached_codec: codec enc_attached "dec_struct attached_handlers" no_attached "\<lambda>a. raw_ok (ac_Config a)"
  by unfold_locales (rule dec_enc_attached)

interpretation detached_codec: codec enc_detached "dec_struct detached_handlers" no_detached "\<lambda>a. True"
  by unfold_locales (rule dec_enc_detached)

interpretation dispatched_codec: codec enc_dispatched "dec_struct dispatched_handlers" no_dispatched "\<lambda>a. raw_ok (sd_Body a)"
  by unfold_locales (rule dec_enc_dispatched)

section \<open>Storing and replaying\<close>

definition same_content :: "event \<Rightarrow> event \<Rightarrow> bool" where
  "same_content e n \<longleftrightarrow> ev_Kind n = ev_Kind e \<and> ev_Payload n = ev_Payload e"

lemma replay_events_content:
  "list_all2 same_content es new \<Longrightarrow> replay_events ctx ap reg rt caps new = replay_events ctx ap reg rt caps es"
proof (induction es new arbitrary: caps rule: list_all2_induct)
  case (Cons e es n new)
  have "replay_event ctx ap reg rt caps n = replay_event ctx ap reg rt caps e"
    using Cons(1) by (simp add: replay_event_def same_content_def)
  then show ?case using Cons(3) by (simp split: sum.split)
qed simp

lemma runtime_event_sel [simp]: "ev_Kind (runtime_event r e) = ev_Kind e" "ev_Payload (runtime_event r e) = ev_Payload e"
  by (simp_all add: runtime_event_def Let_def)

text \<open>A successful append through a runtime stores events with the content it was given.\<close>

lemma AppendEvents_stores:
  assumes a: "LiveRuntime_AppendEvents ctx g rt es s = (Inr u, s')" and es: "es \<noteq> []"
    and l: "rt_Live rt = Some l" and t: "fmlookup (ms_threads s) (ml_threadID l) = Some t"
  shows "\<exists>t' new. fmlookup (ms_threads s') (ml_threadID l) = Some t' \<and> mt_events t' = mt_events t @ new \<and>
    list_all2 same_content es new"
proof -
  let ?es = "map (runtime_event rt) es"
  have "memoryLive_Append ctx g l ?es s = (Inr (), s')"
    using a l by (auto simp: LiveRuntime_AppendEvents_def split: prod.splits sum.splits)
  then obtain batch where b: "live_batch s l ?es = Inr batch"
    "s' = put_thread (ml_threadID l) (appendLocked g (ml_branchID l) t batch) s"
    by (rule Append_success) (use es t in auto)
  obtain new where new: "mt_events (appendLocked g (ml_branchID l) t batch) = mt_events t @ new"
    "list_all2 (\<lambda>e n. ev_Kind n = ev_Kind e \<and> ev_Payload n = ev_Payload e \<and>
       (ev_BranchID e \<noteq> [] \<longrightarrow> ev_BranchID n = ev_BranchID e)) batch new"
    using appendLocked_events by blast
  have "batch = map (\<lambda>e. live_event l (runtime_event rt e)) es" using live_batch_map [OF b(1)] by simp
  then have "list_all2 same_content es new"
    using new(2) by (simp add: list_all2_map1) (erule list_all2_mono, auto simp: same_content_def)
  then show ?thesis using b(2) new(1) by (auto simp: put_thread_def)
qed

lemma replay_dispatched:
  fixes reg :: "('c, 'e) registry"
  assumes "DispatchEvent spec e = Inr w" "fmlookup caps (as_InstanceID spec) = Some c" "ap c = Some f"
    "MemoryRegistry_ValidateStateEvent reg (as_CapabilityName spec) e = (Inr () :: ('e cap_error, unit) result)"
    "f ctx e = Inr c'"
  shows "replay_event ctx ap reg rt caps w = Inr (fmupd (as_InstanceID spec) c' caps)"
proof -
  from assms(1) have "raw_ok (se_Body e)" and w: "w = capability_event spec EventStateEventDispatched (enc_dispatched
      \<lparr>sd_CapabilityName = as_CapabilityName spec, sd_InstanceID = as_InstanceID spec,
       sd_EventName = se_Name e, sd_Body = se_Body e\<rparr>)"
    by (auto simp: DispatchEvent_def split: if_splits)
  then have "Unmarshal (dec_struct dispatched_handlers) (ev_Payload w) no_dispatched =
      Inr \<lparr>sd_CapabilityName = as_CapabilityName spec, sd_InstanceID = as_InstanceID spec,
           sd_EventName = se_Name e, sd_Body = se_Body e\<rparr>"
    by (simp add: capability_event_def dispatched_codec.dec_enc)
  moreover have "ev_Kind w = EventStateEventDispatched" by (simp add: w capability_event_def)
  ultimately show ?thesis using assms(2-) by (cases e) (simp add: replay_event_def)
qed

lemma replay_attached:
  assumes "AttachEvent spec = Inr w" "as_InstanceID spec \<noteq> []"
    "as_ThreadID spec = LiveRuntime_ThreadID rt" "as_BranchID spec = LiveRuntime_BranchID rt"
    "MemoryRegistry_Create ctx reg spec rt = Inr c"
  shows "replay_event ctx ap reg rt caps w = Inr (fmupd (as_InstanceID spec) c caps)"
proof -
  from assms(1) have "raw_ok (as_Config spec)" and w: "w = capability_event spec EventAttached (enc_attached
      \<lparr>ac_CapabilityName = as_CapabilityName spec, ac_InstanceID = as_InstanceID spec, ac_Config = as_Config spec\<rparr>)"
    by (auto simp: AttachEvent_def split: if_splits)
  then have "Unmarshal (dec_struct attached_handlers) (ev_Payload w) no_attached =
      Inr \<lparr>ac_CapabilityName = as_CapabilityName spec, ac_InstanceID = as_InstanceID spec, ac_Config = as_Config spec\<rparr>"
    by (simp add: capability_event_def attached_codec.dec_enc)
  moreover have "ev_Kind w = EventAttached" by (simp add: w capability_event_def)
  moreover have "\<lparr>as_ThreadID = LiveRuntime_ThreadID rt, as_BranchID = LiveRuntime_BranchID rt,
      as_CapabilityName = as_CapabilityName spec, as_InstanceID = as_InstanceID spec, as_Config = as_Config spec\<rparr> = spec"
    using assms(3,4) by simp
  ultimately show ?thesis using assms(2,5) by (simp add: replay_event_def Let_def)
qed

lemma normalizeSpec_sel [simp]:
  "as_InstanceID (normalizeSpec rt spec) = as_InstanceID spec"
  "as_CapabilityName (normalizeSpec rt spec) = as_CapabilityName spec"
  "as_ThreadID (normalizeSpec rt spec) = (if as_ThreadID spec = [] then LiveRuntime_ThreadID rt else as_ThreadID spec)"
  "as_BranchID (normalizeSpec rt spec) = (if as_BranchID spec = [] then LiveRuntime_BranchID rt else as_BranchID spec)"
  by (simp_all add: normalizeSpec_def Let_def)

lemma Manager_Attach_success:
  fixes m :: "('c, 'e) manager"
  assumes "Manager_Attach ctx g spec m s = (Inr c, m', s')" "mg_registry m = Some reg" "mg_runtime m = Some rt"
  obtains ev where "AttachEvent (normalizeSpec rt spec) = (Inr ev :: ('e cap_error, event) result)" "as_InstanceID spec \<noteq> []"
    "fmlookup (mg_capabilities m) (as_InstanceID spec) = None"
    "MemoryRegistry_Create ctx reg (normalizeSpec rt spec) rt = Inr c"
    "LiveRuntime_AppendEvents ctx g rt [ev] s = (Inr () :: ('e cap_error, unit) result, s')"
    "m' = m\<lparr>mg_capabilities := fmupd (as_InstanceID spec) c (mg_capabilities m)\<rparr>"
  using assms
  by (auto simp: Manager_Attach_def Let_def split: if_splits sum.splits prod.splits)


definition demo_factory :: "(string, unit) factory" where
  "demo_factory = \<lparr>fac_Name = ''notes'', fac_Definitions = [], fac_New = (\<lambda>ctx spec rt. Inr (as_InstanceID spec))\<rparr>"

definition demo_runtime :: live_runtime where
  "demo_runtime = \<lparr>rt_Live = Some demo_live, rt_SourceValue = no_source\<rparr>"

definition demo_manager :: "(string, unit) manager" where
  "demo_manager = NewManager
     (case NewRegistry [Some demo_factory] of Inl _ \<Rightarrow> None | Inr r \<Rightarrow> Some r) (Some demo_runtime)"

definition demo_spec :: attach_spec where
  "demo_spec = \<lparr>as_ThreadID = [], as_BranchID = [], as_CapabilityName = ''notes'', as_InstanceID = ''n1'',
     as_Config = NoBytes\<rparr>"

lemma demo_registry: "NewRegistry [Some demo_factory] =
    Inr \<lparr>rg_factories = [''notes'' \<mapsto> demo_factory], rg_stateEvents = fmempty\<rparr>"
  by (simp add: NewRegistry_def demo_factory_def)

lemma demo_cap_append:
  assumes "\<forall>e \<in> set es. ev_Kind e \<noteq> []"
  shows "\<exists>s'. LiveRuntime_AppendEvents None demo_gen demo_runtime es demo_store = (Inr (), s')"
proof -
  have "\<not> isl (live_batch demo_store demo_live (map (runtime_event demo_runtime) es))"
    using assms by (simp add: live_batch_Inr_iff validateEvent_def demo_store_eq put_thread_def NewMemoryStore_def)
  then obtain batch where "live_batch demo_store demo_live (map (runtime_event demo_runtime) es) = Inr batch"
    by (cases "live_batch demo_store demo_live (map (runtime_event demo_runtime) es)") auto
  then show ?thesis
    using demo_lookup by (simp add: LiveRuntime_AppendEvents_def memoryLive_Append_def demo_runtime_def)
      (simp add: demo_live_def)
qed


end
