(* ===== verification/Planner.thy ===== *)
theory Planner
  imports Planner_Topo Capability
begin

text \<open>
  The planner capability (\<^verbatim>\<open>src/capabilities/planner\<close>): its state events and their JSON bodies
  (\<^verbatim>\<open>events.go\<close>), applying an event to a plan (\<^verbatim>\<open>replay.go\<close>), the actions a model sends and the batch
  operation over them (\<^verbatim>\<open>actions.go\<close>), and its factory (\<^verbatim>\<open>factory.go\<close>).

  \<^verbatim>\<open>applyEventTo\<close> works on a copy that its callers drop when it fails, so the model returns the new
  plan only on success. The identifiers \<^verbatim>\<open>newPlanID\<close> and \<^verbatim>\<open>newStepID\<close> draw from a random source are an
  argument, one draw per action.
\<close>

section \<open>Events\<close>

definition PlannerName :: string where "PlannerName = ''planner''"

definition EventPlanCreated :: string where "EventPlanCreated = ''plan_created''"
definition EventStepAdded :: string where "EventStepAdded = ''step_added''"
definition EventStepRemoved :: string where "EventStepRemoved = ''step_removed''"
definition EventStepTitleChanged :: string where "EventStepTitleChanged = ''step_title_changed''"
definition EventStepStatusChanged :: string where "EventStepStatusChanged = ''step_status_changed''"
definition EventStepDependsOnChanged :: string where "EventStepDependsOnChanged = ''step_depends_on_changed''"
definition EventStepParentChanged :: string where "EventStepParentChanged = ''step_parent_changed''"
definition EventCurrentStepChanged :: string where "EventCurrentStepChanged = ''current_step_changed''"

lemmas plan_event_defs = EventPlanCreated_def EventStepAdded_def EventStepRemoved_def
  EventStepTitleChanged_def EventStepStatusChanged_def EventStepDependsOnChanged_def
  EventStepParentChanged_def EventCurrentStepChanged_def

definition step_handlers :: "step handler list" where
  "step_handlers =
     [(''id'', at_field dec_string step_ID (\<lambda>v s. s\<lparr>step_ID := v\<rparr>)),
      (''parent_id'', at_field dec_string step_ParentID (\<lambda>v s. s\<lparr>step_ParentID := v\<rparr>)),
      (''depends_on'', at_field (dec_list dec_string []) step_DependsOn (\<lambda>v s. s\<lparr>step_DependsOn := v\<rparr>)),
      (''title'', at_field dec_string step_Title (\<lambda>v s. s\<lparr>step_Title := v\<rparr>)),
      (''status'', at_field dec_string step_Status (\<lambda>v s. s\<lparr>step_Status := v\<rparr>))]"

definition enc_step :: "step \<Rightarrow> json" where
  "enc_step s = JObj (omit_str ''id'' (step_ID s) @ omit_str ''parent_id'' (step_ParentID s) @
     omit_strs ''depends_on'' (step_DependsOn s) @ omit_str ''title'' (step_Title s) @
     omit_str ''status'' (step_Status s))"

definition no_step :: step where
  "no_step = \<lparr>step_ID = [], step_ParentID = [], step_DependsOn = [], step_Title = [], step_Status = []\<rparr>"

text \<open>
  The bodies: \<^verbatim>\<open>PlanCreated\<close> and the changes of a title, a status or a parent are pairs of strings,
  \<^verbatim>\<open>StepAdded\<close> wraps a step, \<^verbatim>\<open>StepRemoved\<close> and \<^verbatim>\<open>CurrentStepChanged\<close> hold an identifier and
  \<^verbatim>\<open>StepDependsOnChanged\<close> an identifier and a list.
\<close>

definition pair_handlers :: "string \<Rightarrow> string \<Rightarrow> (string \<times> string) handler list" where
  "pair_handlers k l = [(k, at_field dec_string fst (\<lambda>v p. (v, snd p))), (l, at_field dec_string snd (\<lambda>v p. (fst p, v)))]"

definition single_handlers :: "string \<Rightarrow> string handler list" where
  "single_handlers k = [(k, at_field dec_string id (\<lambda>v _. v))]"

definition added_handlers :: "step handler list" where
  "added_handlers = [(''step'', at_field (dec_struct step_handlers) id (\<lambda>v _. v))]"

definition depends_handlers :: "(string \<times> string list) handler list" where
  "depends_handlers = [(''step_id'', at_field dec_string fst (\<lambda>v p. (v, snd p))),
     (''depends_on'', at_field (dec_list dec_string []) snd (\<lambda>v p. (fst p, v)))]"

definition dec_PlanCreated :: "(string \<times> string) decoder" where
  "dec_PlanCreated = dec_struct (pair_handlers ''plan_id'' ''title'')"
definition dec_StepAdded :: "step decoder" where
  "dec_StepAdded = dec_struct added_handlers"
definition dec_StepRemoved :: "string decoder" where
  "dec_StepRemoved = dec_struct (single_handlers ''step_id'')"
definition dec_StepTitleChanged :: "(string \<times> string) decoder" where
  "dec_StepTitleChanged = dec_struct (pair_handlers ''step_id'' ''title'')"
definition dec_StepStatusChanged :: "(string \<times> string) decoder" where
  "dec_StepStatusChanged = dec_struct (pair_handlers ''step_id'' ''status'')"
definition dec_StepDependsOnChanged :: "(string \<times> string list) decoder" where
  "dec_StepDependsOnChanged = dec_struct depends_handlers"
definition dec_StepParentChanged :: "(string \<times> string) decoder" where
  "dec_StepParentChanged = dec_struct (pair_handlers ''step_id'' ''parent_id'')"
definition dec_CurrentStepChanged :: "string decoder" where
  "dec_CurrentStepChanged = dec_struct (single_handlers ''step_id'')"

definition stateEvent :: "string \<Rightarrow> json \<Rightarrow> state_event" where
  "stateEvent name body = \<lparr>se_Name = name, se_Body = Doc body\<rparr>"

definition PlanCreated :: "string \<Rightarrow> string \<Rightarrow> state_event" where
  "PlanCreated i t = stateEvent EventPlanCreated (JObj (fld ''plan_id'' (JStr i) @ omit_str ''title'' t))"
definition StepAdded :: "step \<Rightarrow> state_event" where
  "StepAdded s = stateEvent EventStepAdded (JObj (fld ''step'' (enc_step s)))"
definition StepRemoved :: "string \<Rightarrow> state_event" where
  "StepRemoved i = stateEvent EventStepRemoved (JObj (fld ''step_id'' (JStr i)))"
definition StepTitleChanged :: "string \<Rightarrow> string \<Rightarrow> state_event" where
  "StepTitleChanged i t = stateEvent EventStepTitleChanged (JObj (fld ''step_id'' (JStr i) @ fld ''title'' (JStr t)))"
definition StepStatusChanged :: "string \<Rightarrow> string \<Rightarrow> state_event" where
  "StepStatusChanged i t = stateEvent EventStepStatusChanged (JObj (fld ''step_id'' (JStr i) @ fld ''status'' (JStr t)))"
definition StepDependsOnChanged :: "string \<Rightarrow> string list \<Rightarrow> state_event" where
  "StepDependsOnChanged i ds = stateEvent EventStepDependsOnChanged (JObj (fld ''step_id'' (JStr i) @
     fld ''depends_on'' (if ds = [] then JNull else enc_strs ds)))"
definition StepParentChanged :: "string \<Rightarrow> string \<Rightarrow> state_event" where
  "StepParentChanged i p = stateEvent EventStepParentChanged (JObj (fld ''step_id'' (JStr i) @ fld ''parent_id'' (JStr p)))"
definition CurrentStepChanged :: "string \<Rightarrow> state_event" where
  "CurrentStepChanged i = stateEvent EventCurrentStepChanged (JObj (omit_str ''step_id'' i))"

definition decodeStateEvent :: "'s decoder \<Rightarrow> 's \<Rightarrow> state_event \<Rightarrow> (planner_error, 's) result" where
  "decodeStateEvent dec z e = (case Unmarshal dec (se_Body e) z of
     Inl _ \<Rightarrow> Inl (PlanDecodeErr (se_Name e)) | Inr x \<Rightarrow> Inr x)"

section \<open>Applying events\<close>

definition findStep :: "plan \<Rightarrow> string \<Rightarrow> nat option" where
  "findStep p i = find_index (\<lambda>s. step_ID s = i) (plan_Steps p)"

definition filterString :: "string list \<Rightarrow> string \<Rightarrow> string list" where
  "filterString ss x = filter (\<lambda>s. s \<noteq> x) ss"

definition requireCreated :: "bool \<Rightarrow> (planner_error, unit) result" where
  "requireCreated created = (if created then Inr () else Inl PlanNotCreated)"

definition change_step :: "nat \<Rightarrow> (step \<Rightarrow> step) \<Rightarrow> plan \<Rightarrow> plan" where
  "change_step k f p = p\<lparr>plan_Steps := (plan_Steps p)[k := f (plan_Steps p ! k)]\<rparr>"

definition resort :: "plan \<Rightarrow> (planner_error, plan) result" where
  "resort p = rbind (topoSortSteps (plan_Steps p)) (\<lambda>ss. Inr (p\<lparr>plan_Steps := ss\<rparr>))"

definition remove_step :: "nat \<Rightarrow> string \<Rightarrow> plan \<Rightarrow> plan" where
  "remove_step k i p =
     (let rest = map (\<lambda>s. s\<lparr>step_DependsOn := filterString (step_DependsOn s) i\<rparr>) (remove_nth k (plan_Steps p))
      in p\<lparr>plan_CurrentStepID := (if plan_CurrentStepID p = i then [] else plan_CurrentStepID p),
           plan_Steps := (case topoSortSteps rest of Inl _ \<Rightarrow> [] | Inr ss \<Rightarrow> ss)\<rparr>)"

definition with_step :: "plan \<Rightarrow> string \<Rightarrow> (nat \<Rightarrow> (planner_error, 'a) result) \<Rightarrow> (planner_error, 'a) result" where
  "with_step p i f = (case findStep p i of None \<Rightarrow> Inl (StepNotFound i) | Some k \<Rightarrow> f k)"

definition apply_added :: "plan \<Rightarrow> step \<Rightarrow> (planner_error, plan) result" where
  "apply_added p s0 =
     (if step_ID s0 = [] then Inl StepIDMissing
      else
        let s = (if step_Status s0 = [] then s0\<lparr>step_Status := StepPending\<rparr> else s0) in
        if \<not> validStatus (step_Status s) then Inl (InvalidStatus (step_Status s))
        else if findStep p (step_ID s) \<noteq> None then Inl (StepExists (step_ID s))
        else resort (p\<lparr>plan_Steps := plan_Steps p @ [s]\<rparr>))"

definition applyEventTo :: "plan \<times> bool \<Rightarrow> state_event \<Rightarrow> (planner_error, plan \<times> bool) result" where
  "applyEventTo st e =
     (let p = fst st; created = snd st;
          keep = (\<lambda>r. rbind r (\<lambda>p'. Inr (p', created))) in
      if se_Name e = EventPlanCreated then
        rbind (decodeStateEvent dec_PlanCreated ([], []) e) (\<lambda>(i, t).
          if i = [] then Inl PlanIDMissing
          else Inr (\<lparr>plan_ID = i, plan_Title = t, plan_CurrentStepID = [], plan_Steps = []\<rparr>, True))
      else if se_Name e = EventStepAdded then
        rbind (requireCreated created) (\<lambda>_. rbind (decodeStateEvent dec_StepAdded no_step e) (\<lambda>s.
          keep (apply_added p s)))
      else if se_Name e = EventStepRemoved then
        rbind (requireCreated created) (\<lambda>_. rbind (decodeStateEvent dec_StepRemoved [] e) (\<lambda>i.
          keep (with_step p i (\<lambda>k. Inr (remove_step k i p)))))
      else if se_Name e = EventStepTitleChanged then
        rbind (requireCreated created) (\<lambda>_. rbind (decodeStateEvent dec_StepTitleChanged ([], []) e) (\<lambda>(i, t).
          keep (with_step p i (\<lambda>k. Inr (change_step k (\<lambda>s. s\<lparr>step_Title := t\<rparr>) p)))))
      else if se_Name e = EventStepStatusChanged then
        rbind (requireCreated created) (\<lambda>_. rbind (decodeStateEvent dec_StepStatusChanged ([], []) e) (\<lambda>(i, t).
          if \<not> validStatus t then Inl (InvalidStatus t)
          else keep (with_step p i (\<lambda>k. Inr (change_step k (\<lambda>s. s\<lparr>step_Status := t\<rparr>) p)))))
      else if se_Name e = EventStepDependsOnChanged then
        rbind (requireCreated created) (\<lambda>_. rbind (decodeStateEvent dec_StepDependsOnChanged ([], []) e) (\<lambda>(i, ds).
          keep (with_step p i (\<lambda>k. resort (change_step k (\<lambda>s. s\<lparr>step_DependsOn := ds\<rparr>) p)))))
      else if se_Name e = EventStepParentChanged then
        rbind (requireCreated created) (\<lambda>_. rbind (decodeStateEvent dec_StepParentChanged ([], []) e) (\<lambda>(i, q).
          keep (with_step p i (\<lambda>k. resort (change_step k (\<lambda>s. s\<lparr>step_ParentID := q\<rparr>) p)))))
      else if se_Name e = EventCurrentStepChanged then
        rbind (requireCreated created) (\<lambda>_. rbind (decodeStateEvent dec_CurrentStepChanged [] e) (\<lambda>i.
          if i \<noteq> [] \<and> findStep p i = None then Inl (StepNotFound i)
          else Inr (p\<lparr>plan_CurrentStepID := i\<rparr>, created)))
      else Inl (UnsupportedEvent (se_Name e)))"

record planner =
  pl_spec :: attach_spec
  pl_runtime :: "live_runtime option"
  pl_plan :: plan
  pl_created :: bool

definition no_plan :: plan where
  "no_plan = \<lparr>plan_ID = [], plan_Title = [], plan_CurrentStepID = [], plan_Steps = []\<rparr>"

definition Planner_New :: "attach_spec \<Rightarrow> live_runtime option \<Rightarrow> planner" where
  "Planner_New spec rt =
     \<lparr>pl_spec = (if as_CapabilityName spec = [] then spec\<lparr>as_CapabilityName := PlannerName\<rparr> else spec),
      pl_runtime = rt, pl_plan = no_plan, pl_created = False\<rparr>"

definition Planner_ApplyEvent :: "go_ctx \<Rightarrow> planner \<Rightarrow> state_event \<Rightarrow> (planner_error, planner) result" where
  "Planner_ApplyEvent ctx p e =
     (case ctx of Some err \<Rightarrow> Inl (PlanCtxErr err)
      | None \<Rightarrow> rbind (applyEventTo (pl_plan p, pl_created p) e) (\<lambda>(plan, created).
          Inr (p\<lparr>pl_plan := plan, pl_created := created\<rparr>)))"

definition planner_factory :: "(planner, planner_error) factory" where
  "planner_factory = \<lparr>fac_Name = PlannerName,
     fac_Definitions =
       [DefineStateEvent dec_PlanCreated ([], []) PlannerName EventPlanCreated,
        DefineStateEvent dec_StepAdded no_step PlannerName EventStepAdded,
        DefineStateEvent dec_StepRemoved [] PlannerName EventStepRemoved,
        DefineStateEvent dec_StepTitleChanged ([], []) PlannerName EventStepTitleChanged,
        DefineStateEvent dec_StepStatusChanged ([], []) PlannerName EventStepStatusChanged,
        DefineStateEvent dec_StepDependsOnChanged ([], []) PlannerName EventStepDependsOnChanged,
        DefineStateEvent dec_StepParentChanged ([], []) PlannerName EventStepParentChanged,
        DefineStateEvent dec_CurrentStepChanged [] PlannerName EventCurrentStepChanged],
     fac_New = (\<lambda>ctx spec rt.
       if as_CapabilityName spec \<noteq> [] \<and> as_CapabilityName spec \<noteq> PlannerName
       then Inl (InstanceErr (UnsupportedCapability (as_CapabilityName spec)))
       else if as_InstanceID spec = [] then Inl (InstanceErr PlannerInstanceRequired)
       else Inr (Planner_New spec (Some rt)))\<rparr>"

section \<open>Actions\<close>

record plan_patch =
  pp_ID :: string
  pp_Title :: string

record step_patch =
  sp_ID :: string
  sp_Title :: string
  sp_Status :: string
  sp_DependsOn :: "string list"
  sp_ParentID :: string

record plan_action =
  pa_Action :: string
  pa_Plan :: "plan_patch option"
  pa_Step :: "step_patch option"
  pa_StepID :: string
  pa_Status :: string
  pa_Title :: string
  pa_DependsOn :: "string list"
  pa_ParentID :: string

definition requireStepID :: "plan_action \<Rightarrow> string" where
  "requireStepID a = (if pa_StepID a \<noteq> [] then pa_StepID a
     else case pa_Step a of Some s \<Rightarrow> sp_ID s | None \<Rightarrow> [])"

text \<open>The random source yields the suffix of an identifier or fails.\<close>

type_synonym nanoid = "string option"

definition newPlanID :: "nanoid \<Rightarrow> (planner_error, string) result" where
  "newPlanID n = (case n of None \<Rightarrow> Inl IDSourceErr | Some i \<Rightarrow> Inr (''plan_'' @ i))"

definition newStepID :: "nanoid \<Rightarrow> (planner_error, string) result" where
  "newStepID n = (case n of None \<Rightarrow> Inl IDSourceErr | Some i \<Rightarrow> Inr (''step_'' @ i))"

fun check_deps :: "plan \<Rightarrow> string \<Rightarrow> string list \<Rightarrow> (planner_error, unit) result" where
  "check_deps p i [] = Inr ()"
| "check_deps p i (d # ds) =
     (if d = i then Inl OwnDependency
      else if findStep p d = None then Inl (DependencyStepNotFound d)
      else check_deps p i ds)"

definition check_parent :: "plan \<Rightarrow> string \<Rightarrow> string \<Rightarrow> (planner_error, unit) result" where
  "check_parent p i q =
     (if q = i then Inl OwnParent
      else if q \<noteq> [] \<and> findStep p q = None then Inl (ParentStepNotFound q) else Inr ())"

definition build_create :: "nanoid \<Rightarrow> plan \<times> bool \<Rightarrow> plan_action \<Rightarrow> (planner_error, state_event list) result" where
  "build_create n st a =
     (if snd st then Inl (PlanAlreadyCreated (plan_ID (fst st)))
      else case pa_Plan a of
        None \<Rightarrow> Inl PlanPatchRequired
      | Some pp \<Rightarrow> rbind (if pp_ID pp = [] then newPlanID n else Inr (pp_ID pp)) (\<lambda>i.
          Inr [PlanCreated i (pp_Title pp)]))"

definition patched_id :: "nanoid \<Rightarrow> step_patch \<Rightarrow> (planner_error, string) result" where
  "patched_id n sp = (if sp_ID sp = [] then newStepID n else Inr (sp_ID sp))"

definition patched_step :: "string \<Rightarrow> step_patch \<Rightarrow> step" where
  "patched_step i sp = \<lparr>step_ID = i, step_ParentID = sp_ParentID sp, step_DependsOn = sp_DependsOn sp,
     step_Title = sp_Title sp, step_Status = (if sp_Status sp = [] then StepPending else sp_Status sp)\<rparr>"

definition build_add :: "nanoid \<Rightarrow> plan \<times> bool \<Rightarrow> plan_action \<Rightarrow> (planner_error, state_event list) result" where
  "build_add n st a =
     rbind (requireCreated (snd st)) (\<lambda>_.
       case pa_Step a of
         None \<Rightarrow> Inl StepPatchRequired
       | Some sp \<Rightarrow> rbind (patched_id n sp) (\<lambda>i.
           let s = patched_step i sp in
           if step_Title s = [] then Inl StepTitleRequired
           else if \<not> validStatus (step_Status s) then Inl (InvalidStatus (step_Status s))
           else if findStep (fst st) i \<noteq> None then Inl (StepExists i)
           else rbind (check_parent (fst st) i (step_ParentID s)) (\<lambda>_.
             rbind (check_deps (fst st) i (step_DependsOn s)) (\<lambda>_.
               rbind (topoSortSteps (plan_Steps (fst st) @ [s])) (\<lambda>_. Inr [StepAdded s])))))"

definition build_remove :: "plan \<times> bool \<Rightarrow> plan_action \<Rightarrow> (planner_error, state_event list) result" where
  "build_remove st a =
     rbind (requireCreated (snd st)) (\<lambda>_.
       let i = requireStepID a in
       with_step (fst st) i (\<lambda>_.
         if \<exists>s \<in> set (plan_Steps (fst st)). step_ParentID s = i then Inl (HasSubTasks i)
         else Inr [StepRemoved i]))"

definition build_title :: "plan \<times> bool \<Rightarrow> plan_action \<Rightarrow> (planner_error, state_event list) result" where
  "build_title st a =
     rbind (requireCreated (snd st)) (\<lambda>_.
       let i = requireStepID a in
       with_step (fst st) i (\<lambda>_. if pa_Title a = [] then Inl TitleRequired else Inr [StepTitleChanged i (pa_Title a)]))"

definition build_status :: "plan \<times> bool \<Rightarrow> plan_action \<Rightarrow> (planner_error, state_event list) result" where
  "build_status st a =
     rbind (requireCreated (snd st)) (\<lambda>_.
       let i = requireStepID a in
       with_step (fst st) i (\<lambda>_. if \<not> validStatus (pa_Status a) then Inl (InvalidStatus (pa_Status a))
         else Inr [StepStatusChanged i (pa_Status a)]))"

definition build_depends :: "plan \<times> bool \<Rightarrow> plan_action \<Rightarrow> (planner_error, state_event list) result" where
  "build_depends st a =
     rbind (requireCreated (snd st)) (\<lambda>_.
       let i = requireStepID a in
       with_step (fst st) i (\<lambda>k.
         rbind (check_deps (fst st) i (pa_DependsOn a)) (\<lambda>_.
           rbind (topoSortSteps (plan_Steps (change_step k (\<lambda>s. s\<lparr>step_DependsOn := pa_DependsOn a\<rparr>) (fst st)))) (\<lambda>_.
             Inr [StepDependsOnChanged i (pa_DependsOn a)]))))"

definition build_parent :: "plan \<times> bool \<Rightarrow> plan_action \<Rightarrow> (planner_error, state_event list) result" where
  "build_parent st a =
     rbind (requireCreated (snd st)) (\<lambda>_.
       let i = requireStepID a in
       with_step (fst st) i (\<lambda>k.
         rbind (check_parent (fst st) i (pa_ParentID a)) (\<lambda>_.
           rbind (topoSortSteps (plan_Steps (change_step k (\<lambda>s. s\<lparr>step_ParentID := pa_ParentID a\<rparr>) (fst st)))) (\<lambda>_.
             Inr [StepParentChanged i (pa_ParentID a)]))))"

definition build_current :: "plan \<times> bool \<Rightarrow> plan_action \<Rightarrow> (planner_error, state_event list) result" where
  "build_current st a =
     rbind (requireCreated (snd st)) (\<lambda>_.
       if pa_StepID a \<noteq> [] \<and> findStep (fst st) (pa_StepID a) = None then Inl (StepNotFound (pa_StepID a))
       else Inr [CurrentStepChanged (pa_StepID a)])"

definition buildActionEvent :: "nanoid \<Rightarrow> plan \<times> bool \<Rightarrow> plan_action \<Rightarrow> (planner_error, state_event list) result" where
  "buildActionEvent n st a =
     (let kind = TrimSpace (pa_Action a) in
      if kind = ''create_plan'' then build_create n st a
      else if kind = ''add_step'' then build_add n st a
      else if kind = ''remove_step'' then build_remove st a
      else if kind = ''set_step_title'' then build_title st a
      else if kind = ''set_step_status'' then build_status st a
      else if kind = ''set_step_depends_on'' then build_depends st a
      else if kind = ''set_step_parent'' then build_parent st a
      else if kind = ''set_current_step'' then build_current st a
      else Inl (UnsupportedAction (pa_Action a)))"

text \<open>The draft loop of \<^verbatim>\<open>ApplyActions\<close>: the events of each action are applied before the next is built.\<close>

fun draft_actions ::
  "(nat \<Rightarrow> nanoid) \<Rightarrow> nat \<Rightarrow> plan \<times> bool \<Rightarrow> plan_action list \<Rightarrow> (planner_error, state_event list \<times> plan \<times> bool) result" where
  "draft_actions nano k st [] = Inr ([], st)"
| "draft_actions nano k st (a # as) =
     rbind (buildActionEvent (nano k) st a) (\<lambda>built.
       rbind (rfold applyEventTo st built) (\<lambda>st'.
         rbind (draft_actions nano (Suc k) st' as) (\<lambda>(events, st''). Inr (built @ events, st''))))"

fun dispatch_events :: "attach_spec \<Rightarrow> state_event list \<Rightarrow> (planner_error cap_error, event list) result" where
  "dispatch_events spec [] = Inr []"
| "dispatch_events spec (e # es) =
     rbind (DispatchEvent spec e) (\<lambda>w. rbind (dispatch_events spec es) (\<lambda>ws. Inr (w # ws)))"

text \<open>
  Applying the stored events to the planner itself; an error stops the loop and keeps what was
  applied before.
\<close>

fun apply_stored :: "go_ctx \<Rightarrow> planner \<Rightarrow> state_event list \<Rightarrow> (planner_error cap_error, unit) result \<times> planner" where
  "apply_stored ctx p [] = (Inr (), p)"
| "apply_stored ctx p (e # es) =
     (case Planner_ApplyEvent ctx p e of
        Inl err \<Rightarrow> (Inl (InstanceErr err), p) | Inr p' \<Rightarrow> apply_stored ctx p' es)"

text \<open>
  The events the runtime is given are the third component of the result on success; the message and
  the copy of the plan that the Go function returns are functions of the arguments and the new state.
\<close>

definition ApplyActions ::
  "go_ctx \<Rightarrow> gen \<Rightarrow> (nat \<Rightarrow> nanoid) \<Rightarrow> plan_action list \<Rightarrow> planner \<Rightarrow> memory_store \<Rightarrow>
     (planner_error cap_error, plan) result \<times> planner \<times> memory_store" where
  "ApplyActions ctx g nano as p s =
     (if as = [] then (Inl (InstanceErr PlanActionRequired), p, s)
      else case pl_runtime p of
        None \<Rightarrow> (Inl (InstanceErr PlanRuntimeRequired), p, s)
      | Some rt \<Rightarrow>
          (case draft_actions nano 0 (pl_plan p, pl_created p) as of
             Inl err \<Rightarrow> (Inl (InstanceErr err), p, s)
           | Inr (events, _) \<Rightarrow>
               (case dispatch_events (pl_spec p) events of
                  Inl err \<Rightarrow> (Inl err, p, s)
                | Inr wrapped \<Rightarrow>
                    (case LiveRuntime_AppendEvents ctx g rt wrapped s of
                       (Inl err, s') \<Rightarrow> (Inl err, p, s')
                     | (Inr _, s') \<Rightarrow>
                         (case apply_stored ctx p events of
                            (Inl err, p') \<Rightarrow> (Inl err, p', s')
                          | (Inr _, p') \<Rightarrow> (Inr (pl_plan p'), p', s'))))))"

section \<open>Bodies round-trip\<close>

lemma plan_names [simp]:
  "fold_name ''plan_id'' = ''plan_id''" "fold_name ''step_id'' = ''step_id''" "fold_name ''parent_id'' = ''parent_id''"
  "fold_name ''depends_on'' = ''depends_on''" "fold_name ''status'' = ''status''" "fold_name ''title'' = ''title''"
  "fold_name ''step'' = ''step''"
  by code_simp+

lemma plan_name_id [simp]: "fold_name ''id'' = ''id''"
  by code_simp

lemma dec_enc_step: "dec_struct step_handlers (enc_step s) no_step = Inr s"
  by (auto simp: enc_step_def step_handlers_def no_step_def at_field_def omit_str_def omit_strs_def)

interpretation step_codec: codec enc_step "dec_struct step_handlers" no_step "\<lambda>s. True"
  by unfold_locales (rule dec_enc_step)

lemmas body_defs = decodeStateEvent_def stateEvent_def pair_handlers_def single_handlers_def added_handlers_def
  depends_handlers_def dec_PlanCreated_def dec_StepAdded_def dec_StepRemoved_def dec_StepTitleChanged_def
  dec_StepStatusChanged_def dec_StepDependsOnChanged_def dec_StepParentChanged_def dec_CurrentStepChanged_def
  at_field_def omit_str_def

lemma decode_events [simp]:
  "decodeStateEvent dec_PlanCreated ([], []) (PlanCreated i t) = Inr (i, t)"
  "decodeStateEvent dec_StepAdded no_step (StepAdded s) = Inr s"
  "decodeStateEvent dec_StepRemoved [] (StepRemoved i) = Inr i"
  "decodeStateEvent dec_StepTitleChanged ([], []) (StepTitleChanged i t) = Inr (i, t)"
  "decodeStateEvent dec_StepStatusChanged ([], []) (StepStatusChanged i t) = Inr (i, t)"
  "decodeStateEvent dec_StepDependsOnChanged ([], []) (StepDependsOnChanged i ds) = Inr (i, ds)"
  "decodeStateEvent dec_StepParentChanged ([], []) (StepParentChanged i q) = Inr (i, q)"
  "decodeStateEvent dec_CurrentStepChanged [] (CurrentStepChanged i) = Inr i"
  by (simp_all add: body_defs PlanCreated_def StepAdded_def StepRemoved_def StepTitleChanged_def
      StepStatusChanged_def StepDependsOnChanged_def StepParentChanged_def CurrentStepChanged_def step_codec.dec_enc)

lemma event_names [simp]:
  "se_Name (PlanCreated i t) = EventPlanCreated" "se_Name (StepAdded s) = EventStepAdded"
  "se_Name (StepRemoved i) = EventStepRemoved" "se_Name (StepTitleChanged i t) = EventStepTitleChanged"
  "se_Name (StepStatusChanged i t) = EventStepStatusChanged"
  "se_Name (StepDependsOnChanged i ds) = EventStepDependsOnChanged"
  "se_Name (StepParentChanged i t) = EventStepParentChanged" "se_Name (CurrentStepChanged i) = EventCurrentStepChanged"
  by (simp_all add: stateEvent_def PlanCreated_def StepAdded_def StepRemoved_def StepTitleChanged_def
      StepStatusChanged_def StepDependsOnChanged_def StepParentChanged_def CurrentStepChanged_def)

lemma requireCreated_simps [simp]: "requireCreated True = Inr ()" "requireCreated False = Inl PlanNotCreated"
  by (simp_all add: requireCreated_def)

lemma requireCreated_Inr [simp]: "requireCreated c = Inr x \<longleftrightarrow> c"
  by (simp add: requireCreated_def)

text \<open>What each event does to a plan.\<close>

definition keep_created :: "(planner_error, plan) result \<Rightarrow> (planner_error, plan \<times> bool) result" where
  "keep_created r = rbind r (\<lambda>p. Inr (p, True))"

lemma keep_created_Inr [simp]: "keep_created r = Inr st \<longleftrightarrow> (\<exists>p. r = Inr p \<and> st = (p, True))"
  by (auto simp: keep_created_def rbind_Inr_iff)

lemma apply_events [simp]:
  "applyEventTo st (PlanCreated i t) = (if i = [] then Inl PlanIDMissing
     else Inr (\<lparr>plan_ID = i, plan_Title = t, plan_CurrentStepID = [], plan_Steps = []\<rparr>, True))"
  "applyEventTo (p, True) (StepAdded s) = keep_created (apply_added p s)"
  "applyEventTo (p, True) (StepRemoved i) = keep_created (with_step p i (\<lambda>k. Inr (remove_step k i p)))"
  "applyEventTo (p, True) (StepTitleChanged i t) =
     keep_created (with_step p i (\<lambda>k. Inr (change_step k (\<lambda>s. s\<lparr>step_Title := t\<rparr>) p)))"
  "applyEventTo (p, True) (StepStatusChanged i t) = (if \<not> validStatus t then Inl (InvalidStatus t)
     else keep_created (with_step p i (\<lambda>k. Inr (change_step k (\<lambda>s. s\<lparr>step_Status := t\<rparr>) p))))"
  "applyEventTo (p, True) (StepDependsOnChanged i ds) =
     keep_created (with_step p i (\<lambda>k. resort (change_step k (\<lambda>s. s\<lparr>step_DependsOn := ds\<rparr>) p)))"
  "applyEventTo (p, True) (StepParentChanged i q) =
     keep_created (with_step p i (\<lambda>k. resort (change_step k (\<lambda>s. s\<lparr>step_ParentID := q\<rparr>) p)))"
  "applyEventTo (p, True) (CurrentStepChanged i) = (if i \<noteq> [] \<and> findStep p i = None then Inl (StepNotFound i)
     else Inr (p\<lparr>plan_CurrentStepID := i\<rparr>, True))"
  by (simp_all add: applyEventTo_def keep_created_def Let_def plan_event_defs)

section \<open>The plan invariant\<close>

text \<open>
  Identifiers are distinct and not empty, statuses valid, no step is its own parent, every reference
  names a step, dependencies come first, and the current step is a step of the plan.
\<close>

definition step_ok :: "step \<Rightarrow> bool" where
  "step_ok s \<longleftrightarrow> step_ID s \<noteq> [] \<and> validStatus (step_Status s) \<and> step_ParentID s \<noteq> step_ID s"

definition steps_inv :: "step list \<Rightarrow> bool" where
  "steps_inv ss \<longleftrightarrow> distinct (map step_ID ss) \<and> (\<forall>s \<in> set ss. step_ok s) \<and>
     refs_ok (map step_ID ss) ss \<and> dep_ordered ss"

definition plan_inv :: "plan \<times> bool \<Rightarrow> bool" where
  "plan_inv st \<longleftrightarrow> steps_inv (plan_Steps (fst st)) \<and>
     (plan_CurrentStepID (fst st) = [] \<or> plan_CurrentStepID (fst st) \<in> step_ID ` set (plan_Steps (fst st))) \<and>
     (\<not> snd st \<longrightarrow> plan_Steps (fst st) = [])"

fun dep_from :: "string set \<Rightarrow> step list \<Rightarrow> bool" where
  "dep_from A [] = True"
| "dep_from A (s # ss) = (set (step_DependsOn s) \<subseteq> A \<and> dep_from (insert (step_ID s) A) ss)"

lemma dep_from_nth:
  "dep_from A ss \<longleftrightarrow> (\<forall>k < length ss. set (step_DependsOn (ss ! k)) \<subseteq> A \<union> step_ID ` set (take k ss))"
proof (induction ss arbitrary: A)
  case (Cons s ss)
  show ?case by (auto simp: Cons All_less_Suc2)
qed simp

lemma dep_ordered_from: "dep_ordered ss \<longleftrightarrow> dep_from {} ss"
  by (simp add: dep_ordered_def dep_from_nth)

definition drop_dep :: "string \<Rightarrow> step \<Rightarrow> step" where
  "drop_dep i s = s\<lparr>step_DependsOn := filterString (step_DependsOn s) i\<rparr>"

lemma drop_dep_sel [simp]:
  "step_ID (drop_dep i s) = step_ID s" "step_ParentID (drop_dep i s) = step_ParentID s"
  "step_Status (drop_dep i s) = step_Status s" "set (step_DependsOn (drop_dep i s)) = set (step_DependsOn s) - {i}"
  by (auto simp: drop_dep_def filterString_def)

lemma dep_from_drop: "dep_from A ss \<Longrightarrow> A - {i} \<subseteq> B \<Longrightarrow> dep_from B (map (drop_dep i) ss)"
proof (induction ss arbitrary: A B)
  case (Cons s ss)
  have "dep_from (insert (step_ID s) B) (map (drop_dep i) ss)"
    by (rule Cons.IH [of "insert (step_ID s) A"]) (use Cons.prems in auto)
  then show ?case using Cons.prems by auto
qed simp

lemma dep_from_remove:
  "dep_from A ss \<Longrightarrow> k < length ss \<Longrightarrow> step_ID (ss ! k) = i \<Longrightarrow> A - {i} \<subseteq> B \<Longrightarrow>
     dep_from B (map (drop_dep i) (remove_nth k ss))"
proof (induction ss arbitrary: A B k)
  case (Cons s ss)
  show ?case
  proof (cases k)
    case 0
    then show ?thesis using Cons.prems dep_from_drop [of "insert i A" ss i B] by auto
  next
    case (Suc j)
    have "dep_from (insert (step_ID s) B) (map (drop_dep i) (remove_nth j ss))"
      by (rule Cons.IH [of "insert (step_ID s) A"]) (use Cons.prems Suc in auto)
    then show ?thesis using Cons.prems Suc by auto
  qed
qed simp

lemma steps_inv_sort:
  assumes "distinct (map step_ID ss)" "\<forall>s \<in> set ss. step_ok s" "topoSortSteps ss = Inr out"
  shows "steps_inv out \<and> set out = set ss"
  using topo.sorted_steps [OF assms(1,3)] assms(2) by (simp add: steps_inv_def)

lemma findStep_Some: "findStep p i = Some k \<Longrightarrow> k < length (plan_Steps p) \<and> step_ID (plan_Steps p ! k) = i"
  by (auto simp: findStep_def dest: find_index_Some)

lemma findStep_None: "findStep p i = None \<longleftrightarrow> i \<notin> step_ID ` set (plan_Steps p)"
  by (auto simp: findStep_def)

lemma with_step_Inr: "with_step p i f = Inr x \<longleftrightarrow> (\<exists>k. findStep p i = Some k \<and> f k = Inr x)"
  by (auto simp: with_step_def split: option.splits)

lemma change_step_IDs:
  "step_ID (f (plan_Steps p ! k)) = step_ID (plan_Steps p ! k) \<Longrightarrow>
     map step_ID (plan_Steps (change_step k f p)) = map step_ID (plan_Steps p)"
  by (simp add: change_step_def map_update list_update_id [of "map step_ID (plan_Steps p)" k]
      del: list_update_id) (metis list_update_beyond list_update_id map_update not_le)

lemma resort_Inr: "resort p = Inr p' \<longleftrightarrow> (\<exists>ss. topoSortSteps (plan_Steps p) = Inr ss \<and> p' = p\<lparr>plan_Steps := ss\<rparr>)"
  by (auto simp: resort_def rbind_Inr_iff)

lemma resort_inv:
  assumes "resort p = Inr p'" "distinct (map step_ID (plan_Steps p))" "\<forall>s \<in> set (plan_Steps p). step_ok s"
    "plan_CurrentStepID p = [] \<or> plan_CurrentStepID p \<in> step_ID ` set (plan_Steps p)"
  shows "plan_inv (p', True)"
  using assms steps_inv_sort [OF assms(2,3)] by (auto simp: resort_Inr plan_inv_def)

text \<open>A change of one step that keeps its identifier keeps the invariant once the plan is sorted.\<close>

lemma change_resort_inv:
  assumes inv: "plan_inv (p, True)" and k: "findStep p i = Some k" and r: "resort (change_step k f p) = Inr p'"
    and f: "\<And>s. step_ID (f s) = step_ID s" "step_ok (f (plan_Steps p ! k))"
  shows "plan_inv (p', True)"
proof (rule resort_inv [OF r])
  have ids: "map step_ID (plan_Steps (change_step k f p)) = map step_ID (plan_Steps p)"
    by (rule change_step_IDs) (rule f)
  then show "distinct (map step_ID (plan_Steps (change_step k f p)))"
    using inv by (simp add: plan_inv_def steps_inv_def)
  show "\<forall>s \<in> set (plan_Steps (change_step k f p)). step_ok s"
    using inv f(2) by (auto simp: plan_inv_def steps_inv_def change_step_def dest!: set_update_subset_insert [THEN subsetD])
  have "step_ID ` set (plan_Steps (change_step k f p)) = step_ID ` set (plan_Steps p)"
    using ids by (metis list.set_map)
  then show "plan_CurrentStepID (change_step k f p) = [] \<or>
      plan_CurrentStepID (change_step k f p) \<in> step_ID ` set (plan_Steps (change_step k f p))"
    using inv by (simp add: plan_inv_def change_step_def)
qed

text \<open>A change that keeps everything but title and status needs no sorting.\<close>

lemma change_same_inv:
  assumes inv: "plan_inv (p, True)" and k: "findStep p i = Some k"
    and f: "\<And>s. step_ID (f s) = step_ID s" "\<And>s. step_DependsOn (f s) = step_DependsOn s"
      "\<And>s. step_ParentID (f s) = step_ParentID s" "step_ok (f (plan_Steps p ! k))"
  shows "plan_inv (change_step k f p, True)"
proof -
  let ?ss = "plan_Steps p" and ?us = "(plan_Steps p)[k := f (plan_Steps p ! k)]"
  have k': "k < length ?ss" using findStep_Some [OF k] by simp
  have nth: "step_ID (?us ! j) = step_ID (?ss ! j)" "step_DependsOn (?us ! j) = step_DependsOn (?ss ! j)"
    "step_ParentID (?us ! j) = step_ParentID (?ss ! j)" if "j < length ?ss" for j
    using that k' f by (cases "j = k"; simp)+
  then have m: "map step_ID ?us = map step_ID ?ss" "map step_DependsOn ?us = map step_DependsOn ?ss"
    "map step_ParentID ?us = map step_ParentID ?ss" by (auto simp: list_eq_iff_nth_eq)
  have ids: "step_ID ` set ?us = step_ID ` set ?ss" using m(1) by (metis list.set_map)
  have "dep_ordered ?us"
  proof -
    have "step_ID ` set (take j ?us) = step_ID ` set (take j ?ss)" for j
      using m(1) by (metis list.set_map take_map)
    then show ?thesis using inv nth(2) by (simp add: plan_inv_def steps_inv_def dep_ordered_def)
  qed
  moreover have "refs_ok (map step_ID ?us) ?us"
    unfolding refs_ok_def m(1)
  proof
    fix s assume "s \<in> set ?us"
    then obtain j where "j < length ?ss" "s = ?us ! j" by (auto simp: in_set_conv_nth)
    then show "set (step_DependsOn s) \<subseteq> set (map step_ID ?ss) \<and>
        (step_ParentID s \<noteq> [] \<longrightarrow> step_ParentID s \<in> set (map step_ID ?ss))"
      using inv nth(2,3) [of j] nth_mem [of j ?ss] by (simp add: plan_inv_def steps_inv_def refs_ok_def)
  qed
  moreover have "\<forall>s \<in> set ?us. step_ok s"
    using inv f(4) by (auto simp: plan_inv_def steps_inv_def dest!: set_update_subset_insert [THEN subsetD])
  ultimately show ?thesis
    using inv m(1) ids by (simp add: plan_inv_def steps_inv_def change_step_def)
qed

lemma plan_invD:
  assumes "plan_inv (p, c)"
  shows "distinct (map step_ID (plan_Steps p))" "s \<in> set (plan_Steps p) \<Longrightarrow> step_ok s"
    "refs_ok (map step_ID (plan_Steps p)) (plan_Steps p)" "dep_ordered (plan_Steps p)"
  using assms by (simp_all add: plan_inv_def steps_inv_def)

lemma remove_step_drop:
  "remove_step k i p = p\<lparr>plan_CurrentStepID := (if plan_CurrentStepID p = i then [] else plan_CurrentStepID p),
     plan_Steps := (case topoSortSteps (map (drop_dep i) (remove_nth k (plan_Steps p))) of Inl _ \<Rightarrow> [] | Inr ss \<Rightarrow> ss)\<rparr>"
  by (simp add: remove_step_def drop_dep_def [abs_def] Let_def)

text \<open>Removing a position of a list with distinct keys removes exactly that key.\<close>

lemma remove_nth_keys:
  assumes "distinct (map f xs)" "k < length xs"
  shows "distinct (map f (remove_nth k xs)) \<and> f ` set (remove_nth k xs) = f ` set xs - {f (xs ! k)}"
  using assms
proof (induction xs arbitrary: k)
  case (Cons x xs)
  show ?case
  proof (cases k)
    case (Suc j)
    with Cons.prems Cons.IH [of j] show ?thesis
      using set_remove_nth_subset [of j xs] nth_mem [of j xs] by auto
  qed (use Cons.prems in auto)
qed simp

lemma remove_step_inv:
  assumes inv: "plan_inv (p, True)" and k: "findStep p i = Some k"
    and leaf: "\<forall>s \<in> set (plan_Steps p). step_ParentID s \<noteq> i"
  shows "plan_inv (remove_step k i p, True)"
proof -
  note D = plan_invD [OF inv]
  have k': "k < length (plan_Steps p)" "step_ID (plan_Steps p ! k) = i" using findStep_Some [OF k] by auto
  let ?rest = "map (drop_dep i) (remove_nth k (plan_Steps p))"
  have rem: "distinct (map step_ID (remove_nth k (plan_Steps p)))"
    "step_ID ` set (remove_nth k (plan_Steps p)) = step_ID ` set (plan_Steps p) - {i}"
    using remove_nth_keys [OF D(1) k'(1)] k'(2) by auto
  have ids: "map step_ID ?rest = map step_ID (remove_nth k (plan_Steps p))" by simp
  have dist: "distinct (map step_ID ?rest)" using rem(1) by (simp add: comp_def)
  have sub: "set (remove_nth k (plan_Steps p)) \<subseteq> set (plan_Steps p)" by (rule set_remove_nth_subset)
  have ok: "\<forall>s \<in> set ?rest. step_ok s" using D(2) sub by (auto simp: step_ok_def dest!: subsetD)
  have refs: "refs_ok (map step_ID ?rest) ?rest"
    unfolding refs_ok_def ids
  proof
    fix s' assume "s' \<in> set ?rest"
    then obtain s where s: "s \<in> set (remove_nth k (plan_Steps p))" "s' = drop_dep i s" by auto
    then have "s \<in> set (plan_Steps p)" using sub by blast
    then have "set (step_DependsOn s) \<subseteq> step_ID ` set (plan_Steps p)" "step_ParentID s \<noteq> i"
      "step_ParentID s \<noteq> [] \<longrightarrow> step_ParentID s \<in> step_ID ` set (plan_Steps p)"
      using D(3) leaf by (auto simp: refs_ok_def)
    then show "set (step_DependsOn s') \<subseteq> set (map step_ID (remove_nth k (plan_Steps p))) \<and>
        (step_ParentID s' \<noteq> [] \<longrightarrow> step_ParentID s' \<in> set (map step_ID (remove_nth k (plan_Steps p))))"
      using rem(2) s(2) by auto
  qed
  have "dep_ordered ?rest"
    unfolding dep_ordered_from
    by (rule dep_from_remove [OF _ k'(1,2), of "{}"]) (use D(4) in \<open>simp_all add: dep_ordered_from\<close>)
  then obtain out where out: "topoSortSteps ?rest = Inr out" using topo.sorts_ordered [OF dist refs] by blast
  have "steps_inv out" "set out = set ?rest" using steps_inv_sort [OF dist ok out] by auto
  moreover have "step_ID ` set ?rest = step_ID ` set (plan_Steps p) - {i}"
    using rem(2) by (simp add: image_image)
  ultimately show ?thesis using inv out by (auto simp: plan_inv_def remove_step_drop)
qed

section \<open>Every built event applies\<close>

definition applies :: "plan \<times> bool \<Rightarrow> state_event list \<Rightarrow> bool" where
  "applies st es \<longleftrightarrow> (\<exists>st'. rfold applyEventTo st es = Inr st' \<and> plan_inv st')"

lemma applies_single: "applyEventTo st e = Inr st' \<Longrightarrow> plan_inv st' \<Longrightarrow> applies st [e]"
  by (simp add: applies_def)

lemma empty_plan_inv: "plan_inv (\<lparr>plan_ID = i, plan_Title = t, plan_CurrentStepID = [], plan_Steps = []\<rparr>, c)"
  by (simp add: plan_inv_def steps_inv_def refs_ok_def dep_ordered_def)

lemma build_create_applies: "build_create n st a = Inr es \<Longrightarrow> applies st es"
  by (auto simp: build_create_def applies_def newPlanID_def rbind_Inr_iff empty_plan_inv split: if_splits option.splits)

lemma validStatus_nonempty: "validStatus s \<Longrightarrow> s \<noteq> []"
  by (auto simp: validStatus_def StepPending_def StepInProgress_def StepCompleted_def)

lemma apply_added_ok:
  assumes inv: "plan_inv (p, True)" and s: "step_ok s" "findStep p (step_ID s) = None"
    and t: "topoSortSteps (plan_Steps p @ [s]) = Inr out"
  shows "\<exists>p'. apply_added p s = Inr p' \<and> plan_inv (p', True)"
proof -
  let ?p = "p\<lparr>plan_Steps := plan_Steps p @ [s]\<rparr>"
  have st: "validStatus (step_Status s)" "step_Status s \<noteq> []" "step_ID s \<noteq> []"
    using s(1) validStatus_nonempty by (auto simp: step_ok_def)
  obtain p' where r: "resort ?p = Inr p'" using t by (auto simp: resort_def)
  have "plan_inv (p', True)"
  proof (rule resort_inv [OF r])
    show "distinct (map step_ID (plan_Steps ?p))"
      using plan_invD(1) [OF inv] s(2) by (auto simp: findStep_None)
    show "\<forall>s \<in> set (plan_Steps ?p). step_ok s" using plan_invD(2) [OF inv] s(1) by auto
    show "plan_CurrentStepID ?p = [] \<or> plan_CurrentStepID ?p \<in> step_ID ` set (plan_Steps ?p)"
      using inv by (auto simp: plan_inv_def)
  qed
  moreover have "apply_added p s = Inr p'" using st s(2) r by (simp add: apply_added_def)
  ultimately show ?thesis by blast
qed

lemma build_add_applies:
  assumes "build_add n (p, c) a = Inr es" "plan_inv (p, c)"
  shows "applies (p, c) es"
proof -
  from assms(1) obtain sp i s out where c: "c" and s: "s = patched_step i sp" "patched_id n sp = Inr i"
    and g: "validStatus (step_Status s)" "findStep p i = None" "check_parent p i (step_ParentID s) = Inr ()"
      "topoSortSteps (plan_Steps p @ [s]) = Inr out" "es = [StepAdded s]"
    by (cases "pa_Step a") (auto simp: build_add_def rbind_Inr_iff Let_def split: if_split_asm)
  have i: "step_ID s = i" "i \<noteq> []"
    using s by (auto simp: patched_step_def patched_id_def newStepID_def split: if_splits option.splits)
  then have "step_ok s" using g by (auto simp: step_ok_def check_parent_def split: if_splits)
  then obtain p' where "apply_added p s = Inr p'" "plan_inv (p', True)"
    using apply_added_ok [of p s out] g assms(2) c i by auto
  then show ?thesis using c g(5) by (auto intro: applies_single)
qed

lemma build_remove_applies: "build_remove (p, c) a = Inr es \<Longrightarrow> plan_inv (p, c) \<Longrightarrow> applies (p, c) es"
  by (auto simp: build_remove_def rbind_Inr_iff Let_def with_step_Inr split: if_splits
      intro!: applies_single remove_step_inv)

lemma change_step_ok:
  "plan_inv (p, c) \<Longrightarrow> findStep p i = Some k \<Longrightarrow> step_ok (plan_Steps p ! k) \<and> step_ID (plan_Steps p ! k) = i"
  using findStep_Some plan_invD(2) nth_mem by blast

lemma build_title_applies:
  assumes "build_title (p, c) a = Inr es" "plan_inv (p, c)"
  shows "applies (p, c) es"
proof -
  from assms(1) obtain k where k: "c" "findStep p (requireStepID a) = Some k"
    "es = [StepTitleChanged (requireStepID a) (pa_Title a)]"
    by (auto simp: build_title_def rbind_Inr_iff Let_def with_step_Inr split: if_splits)
  have "plan_inv (change_step k (\<lambda>s. s\<lparr>step_Title := pa_Title a\<rparr>) p, True)"
    by (rule change_same_inv [OF _ k(2)])
      (use assms(2) k change_step_ok [OF assms(2) k(2)] in \<open>auto simp: step_ok_def\<close>)
  then show ?thesis using k by (auto simp: with_step_def intro!: applies_single)
qed

lemma build_status_applies:
  assumes "build_status (p, c) a = Inr es" "plan_inv (p, c)"
  shows "applies (p, c) es"
proof -
  from assms(1) obtain k where k: "c" "findStep p (requireStepID a) = Some k" "validStatus (pa_Status a)"
    "es = [StepStatusChanged (requireStepID a) (pa_Status a)]"
    by (auto simp: build_status_def rbind_Inr_iff Let_def with_step_Inr split: if_splits)
  have "plan_inv (change_step k (\<lambda>s. s\<lparr>step_Status := pa_Status a\<rparr>) p, True)"
    by (rule change_same_inv [OF _ k(2)])
      (use assms(2) k change_step_ok [OF assms(2) k(2)] in \<open>auto simp: step_ok_def\<close>)
  then show ?thesis using k by (auto simp: with_step_def intro!: applies_single)
qed

lemma build_depends_applies:
  assumes "build_depends (p, c) a = Inr es" "plan_inv (p, c)"
  shows "applies (p, c) es"
proof -
  let ?f = "\<lambda>s. s\<lparr>step_DependsOn := pa_DependsOn a\<rparr>"
  from assms(1) obtain k p' where k: "c" "findStep p (requireStepID a) = Some k" "resort (change_step k ?f p) = Inr p'"
    "es = [StepDependsOnChanged (requireStepID a) (pa_DependsOn a)]"
    by (auto simp: build_depends_def rbind_Inr_iff Let_def with_step_Inr resort_Inr)
  have "plan_inv (p', True)"
    by (rule change_resort_inv [OF _ k(2,3)])
      (use assms(2) k change_step_ok [OF assms(2) k(2)] in \<open>auto simp: step_ok_def\<close>)
  then show ?thesis using k by (auto simp: with_step_def intro!: applies_single)
qed

lemma build_parent_applies:
  assumes "build_parent (p, c) a = Inr es" "plan_inv (p, c)"
  shows "applies (p, c) es"
proof -
  let ?f = "\<lambda>s. s\<lparr>step_ParentID := pa_ParentID a\<rparr>"
  from assms(1) obtain k p' where k: "c" "findStep p (requireStepID a) = Some k" "resort (change_step k ?f p) = Inr p'"
    "es = [StepParentChanged (requireStepID a) (pa_ParentID a)]" "pa_ParentID a \<noteq> requireStepID a"
    by (auto simp: build_parent_def rbind_Inr_iff Let_def with_step_Inr resort_Inr check_parent_def split: if_splits)
  have "plan_inv (p', True)"
    by (rule change_resort_inv [OF _ k(2,3)])
      (use assms(2) k change_step_ok [OF assms(2) k(2)] in \<open>auto simp: step_ok_def\<close>)
  then show ?thesis using k by (auto simp: with_step_def intro!: applies_single)
qed

lemma build_current_applies: "build_current (p, c) a = Inr es \<Longrightarrow> plan_inv (p, c) \<Longrightarrow> applies (p, c) es"
  by (auto simp: build_current_def rbind_Inr_iff findStep_None plan_inv_def applies_def split: if_splits)

lemmas build_applies = build_create_applies build_add_applies build_remove_applies build_title_applies
  build_status_applies build_depends_applies build_parent_applies build_current_applies

lemma buildActionEvent_applies: "buildActionEvent n st a = Inr es \<Longrightarrow> plan_inv st \<Longrightarrow> applies st es"
  by (cases st) (auto simp: buildActionEvent_def Let_def split: if_splits intro: build_applies)

lemma draft_actions_inv:
  "draft_actions nano k st as = Inr (es, st') \<Longrightarrow> plan_inv st \<Longrightarrow> plan_inv st' \<and> rfold applyEventTo st es = Inr st'"
proof (induction as arbitrary: k st es)
  case (Cons a as)
  from Cons.prems(1) obtain built st1 es' where b: "buildActionEvent (nano k) st a = Inr built"
    "rfold applyEventTo st built = Inr st1" "draft_actions nano (Suc k) st1 as = Inr (es', st')" "es = built @ es'"
    by (auto simp: rbind_Inr_iff)
  have "plan_inv st1" using buildActionEvent_applies [OF b(1) Cons.prems(2)] b(2) by (simp add: applies_def)
  then show ?case using Cons.IH [OF b(3)] b by (simp add: rfold_append)
qed simp

section \<open>Batches\<close>

lemma draft_actions_rfold: "draft_actions nano k st as = Inr (es, st') \<Longrightarrow> rfold applyEventTo st es = Inr st'"
  by (induction as arbitrary: k st es) (auto simp: rbind_Inr_iff rfold_append)

lemma apply_stored_rfold:
  "rfold applyEventTo (pl_plan p, pl_created p) es = Inr (q, c) \<Longrightarrow>
     apply_stored None p es = (Inr (), p\<lparr>pl_plan := q, pl_created := c\<rparr>)"
proof (induction es arbitrary: p)
  case (Cons e es)
  from Cons.prems obtain q1 c1 where e: "applyEventTo (pl_plan p, pl_created p) e = Inr (q1, c1)"
    "rfold applyEventTo (q1, c1) es = Inr (q, c)" by (auto simp: rbind_Inr_iff)
  then show ?case using Cons.IH [of "p\<lparr>pl_plan := q1, pl_created := c1\<rparr>"] by (simp add: Planner_ApplyEvent_def)
qed simp

lemma AppendEvents_fail: "LiveRuntime_AppendEvents ctx g rt es s = (Inl e, s') \<Longrightarrow> s' = s"
  by (auto simp: LiveRuntime_AppendEvents_def memoryLive_Append_def
      split: option.splits prod.splits sum.splits if_splits)

lemma AppendEvents_ctx: "LiveRuntime_AppendEvents ctx g rt es s = (Inr u, s') \<Longrightarrow> ctx = None"
  by (auto simp: LiveRuntime_AppendEvents_def memoryLive_Append_def
      split: option.splits prod.splits sum.splits if_splits)

lemma ApplyActions_success:
  assumes "ApplyActions ctx g nano as p s = (Inr plan, p', s')"
  obtains rt events q c wrapped where "ctx = None" "pl_runtime p = Some rt"
    "draft_actions nano 0 (pl_plan p, pl_created p) as = Inr (events, q, c)"
    "dispatch_events (pl_spec p) events = Inr wrapped"
    "LiveRuntime_AppendEvents ctx g rt wrapped s = (Inr () :: (planner_error cap_error, unit) result, s')"
    "p' = p\<lparr>pl_plan := q, pl_created := c\<rparr>" "plan = q" "as \<noteq> []"
proof -
  from assms obtain rt events q c wrapped where r: "pl_runtime p = Some rt" "as \<noteq> []"
    "draft_actions nano 0 (pl_plan p, pl_created p) as = Inr (events, q, c)"
    "dispatch_events (pl_spec p) events = Inr wrapped"
    "LiveRuntime_AppendEvents ctx g rt wrapped s = (Inr () :: (planner_error cap_error, unit) result, s')"
    "apply_stored ctx p events = (Inr (), p')" "plan = pl_plan p'"
    by (auto simp: ApplyActions_def split: if_splits option.splits sum.splits prod.splits)
  moreover have "ctx = None" using AppendEvents_ctx r(5) by blast
  ultimately show ?thesis
    using that apply_stored_rfold [OF draft_actions_rfold [OF r(3)]] by auto
qed

lemma ApplyActions_fail:
  assumes "ApplyActions ctx g nano as p s = (Inl e, p', s')"
  shows "p' = p \<and> s' = s"
proof (rule ccontr)
  assume n: "\<not> (p' = p \<and> s' = s)"
  with assms obtain rt events st wrapped where r:
    "draft_actions nano 0 (pl_plan p, pl_created p) as = Inr (events, st)"
    "LiveRuntime_AppendEvents ctx g rt wrapped s = (Inr () :: (planner_error cap_error, unit) result, s')"
    "apply_stored ctx p events = (Inl e, p')"
    by (auto simp: ApplyActions_def split: if_splits option.splits sum.splits prod.splits dest: AppendEvents_fail)
  obtain q c where "st = (q, c)" by (rule prod.exhaust)
  then have "apply_stored None p events = (Inr (), p\<lparr>pl_plan := q, pl_created := c\<rparr>)"
    using apply_stored_rfold draft_actions_rfold r(1) by blast
  with r(2,3) AppendEvents_ctx show False by fastforce
qed


definition demo_patch :: "string \<Rightarrow> string list \<Rightarrow> step_patch" where
  "demo_patch i ds = \<lparr>sp_ID = i, sp_Title = ''t'', sp_Status = [], sp_DependsOn = ds, sp_ParentID = []\<rparr>"

definition demo_action :: "string \<Rightarrow> plan_action" where
  "demo_action k = \<lparr>pa_Action = k, pa_Plan = Some \<lparr>pp_ID = ''p1'', pp_Title = ''plan''\<rparr>,
     pa_Step = None, pa_StepID = [], pa_Status = [], pa_Title = [], pa_DependsOn = [], pa_ParentID = []\<rparr>"

definition demo_add :: "string \<Rightarrow> string list \<Rightarrow> plan_action" where
  "demo_add i ds = (demo_action ''add_step'')\<lparr>pa_Step := Some (demo_patch i ds)\<rparr>"

definition demo_planner :: planner where
  "demo_planner = Planner_New (demo_spec\<lparr>as_CapabilityName := []\<rparr>) (Some demo_runtime)"

lemma demo_planner_sel [simp]:
  "pl_plan demo_planner = no_plan" "pl_created demo_planner = False" "pl_runtime demo_planner = Some demo_runtime"
  "as_InstanceID (pl_spec demo_planner) = ''n1''" "as_CapabilityName (pl_spec demo_planner) = PlannerName"
  by (simp_all add: demo_planner_def Planner_New_def demo_spec_def)


text \<open>Driving a planner with batches, whatever their outcome.\<close>

inductive planner_step :: "planner \<times> memory_store \<Rightarrow> planner \<times> memory_store \<Rightarrow> bool" where
  batch: "ApplyActions ctx g nano as p s = (r, p', s') \<Longrightarrow> planner_step (p, s) (p', s')"

lemma ApplyActions_inv:
  assumes "ApplyActions ctx g nano as p s = (r, p', s')" "plan_inv (pl_plan p, pl_created p)"
  shows "plan_inv (pl_plan p', pl_created p')"
proof (cases r)
  case (Inl e)
  then show ?thesis using ApplyActions_fail assms by blast
next
  case (Inr plan)
  with assms(1) have "ApplyActions ctx g nano as p s = (Inr plan, p', s')" by simp
  then show ?thesis
    by (rule ApplyActions_success) (use assms(2) draft_actions_inv in auto)
qed

text \<open>
  C17: whatever batches of actions a model sends, the plan stays well formed: identifiers distinct
  and not empty, statuses valid, every parent and dependency a step of the plan, no step its own
  parent, the steps listed after their dependencies, and the current step one of them.
\<close>

theorem planner_reachable_inv:
  assumes "planner_step\<^sup>*\<^sup>* (Planner_New spec rt, s0) (p, s)"
  shows "plan_inv (pl_plan p, pl_created p)"
  using assms
proof (induction "(p, s)" arbitrary: p s rule: rtranclp_induct)
  case base
  then show ?case using empty_plan_inv by (simp add: Planner_New_def no_plan_def)
next
  case (step y)
  then show ?case by (metis ApplyActions_inv planner_step.cases prod.exhaust prod.inject)
qed

lemma demo_draft:
  "draft_actions (\<lambda>_. None) 0 (no_plan, False)
     [demo_action ''create_plan'', demo_add ''b'' [], demo_add ''a'' [''b''], demo_add ''c'' []] =
   Inr ([PlanCreated ''p1'' ''plan'', StepAdded (demo_step ''b'' []), StepAdded (demo_step ''a'' [''b'']),
         StepAdded (demo_step ''c'' [])],
     \<lparr>plan_ID = ''p1'', plan_Title = ''plan'', plan_CurrentStepID = [],
      plan_Steps = [demo_step ''b'' [], demo_step ''a'' [''b''], demo_step ''c'' []]\<rparr>, True)"
  by code_simp

lemma dispatch_all:
  "\<forall>e \<in> set es. raw_ok (se_Body e) \<Longrightarrow> \<exists>ws. dispatch_events spec es = Inr ws \<and> (\<forall>w \<in> set ws. ev_Kind w \<noteq> [])"
  by (induction es) (auto simp: DispatchEvent_def capability_event_def)

definition demo_plan :: plan where
  "demo_plan = \<lparr>plan_ID = ''p1'', plan_Title = ''plan'', plan_CurrentStepID = [],
      plan_Steps = [demo_step ''b'' [], demo_step ''a'' [''b''], demo_step ''c'' []]\<rparr>"

definition demo_actions :: "plan_action list" where
  "demo_actions = [demo_action ''create_plan'', demo_add ''b'' [], demo_add ''a'' [''b''], demo_add ''c'' []]"

lemma demo_batch:
  obtains s' where "ApplyActions None demo_gen (\<lambda>_. None) demo_actions demo_planner demo_store =
    (Inr demo_plan, demo_planner\<lparr>pl_plan := demo_plan, pl_created := True\<rparr>, s')"
proof -
  let ?es = "[PlanCreated ''p1'' ''plan'', StepAdded (demo_step ''b'' []), StepAdded (demo_step ''a'' [''b'']),
         StepAdded (demo_step ''c'' [])]"
  have d: "draft_actions (\<lambda>_. None) 0 (no_plan, False) demo_actions = Inr (?es, demo_plan, True)"
    using demo_draft by (simp add: demo_actions_def demo_plan_def)
  obtain ws where ws: "dispatch_events (pl_spec demo_planner) ?es = Inr ws" "\<forall>w \<in> set ws. ev_Kind w \<noteq> []"
    using dispatch_all [of ?es "pl_spec demo_planner"] by (auto simp: PlanCreated_def StepAdded_def stateEvent_def)
  obtain s' where s': "LiveRuntime_AppendEvents None demo_gen demo_runtime ws demo_store =
      (Inr () :: (planner_error cap_error, unit) result, s')"
    using demo_cap_append [OF ws(2)] by blast
  have "apply_stored None demo_planner ?es = (Inr (), demo_planner\<lparr>pl_plan := demo_plan, pl_created := True\<rparr>)"
    by (rule apply_stored_rfold) (use draft_actions_rfold [OF d] in simp)
  then show ?thesis using that d ws(1) s' by (simp add: ApplyActions_def) (simp add: demo_actions_def)
qed

theorem planner_reachable_inv_witness:
  "\<exists>p s. planner_step\<^sup>*\<^sup>* (demo_planner, demo_store) (p, s) \<and> length (plan_Steps (pl_plan p)) = 3 \<and>
     plan_inv (pl_plan p, pl_created p)"
proof -
  obtain s' where "ApplyActions None demo_gen (\<lambda>_. None) demo_actions demo_planner demo_store =
      (Inr demo_plan, demo_planner\<lparr>pl_plan := demo_plan, pl_created := True\<rparr>, s')" by (rule demo_batch)
  then have "planner_step\<^sup>*\<^sup>* (demo_planner, demo_store) (demo_planner\<lparr>pl_plan := demo_plan, pl_created := True\<rparr>, s')"
    by (intro r_into_rtranclp planner_step.batch)
  from this planner_reachable_inv [OF this [unfolded demo_planner_def]] show ?thesis
    by (intro exI [of _ "demo_planner\<lparr>pl_plan := demo_plan, pl_created := True\<rparr>"] exI [of _ s'])
      (simp add: demo_plan_def demo_planner_def)
qed

section \<open>The log of a planner\<close>

text \<open>The registry of a manager that knows the planner accepts every event a planner applies.\<close>

lemma planner_registry:
  assumes "NewRegistry [Some planner_factory] = Inr reg"
  shows "\<exists>evs. rg_stateEvents reg = fmupd PlannerName evs fmempty \<and>
    fmlookup evs EventPlanCreated = Some (DefineStateEvent dec_PlanCreated ([], []) PlannerName EventPlanCreated) \<and>
    fmlookup evs EventStepAdded = Some (DefineStateEvent dec_StepAdded no_step PlannerName EventStepAdded) \<and>
    fmlookup evs EventStepRemoved = Some (DefineStateEvent dec_StepRemoved [] PlannerName EventStepRemoved) \<and>
    fmlookup evs EventStepTitleChanged =
      Some (DefineStateEvent dec_StepTitleChanged ([], []) PlannerName EventStepTitleChanged) \<and>
    fmlookup evs EventStepStatusChanged =
      Some (DefineStateEvent dec_StepStatusChanged ([], []) PlannerName EventStepStatusChanged) \<and>
    fmlookup evs EventStepDependsOnChanged =
      Some (DefineStateEvent dec_StepDependsOnChanged ([], []) PlannerName EventStepDependsOnChanged) \<and>
    fmlookup evs EventStepParentChanged =
      Some (DefineStateEvent dec_StepParentChanged ([], []) PlannerName EventStepParentChanged) \<and>
    fmlookup evs EventCurrentStepChanged =
      Some (DefineStateEvent dec_CurrentStepChanged [] PlannerName EventCurrentStepChanged)"
  using assms
  by (auto simp: NewRegistry_def planner_factory_def stateEventRegistry_Register_def DefineStateEvent_def
      PlannerName_def plan_event_defs Let_def)

lemma validate_defined:
  assumes "rg_stateEvents reg = fmupd PlannerName evs fmempty"
    "fmlookup evs (se_Name e) = Some (DefineStateEvent dec z PlannerName (se_Name e))" "decodeStateEvent dec z e = Inr x"
  shows "MemoryRegistry_ValidateStateEvent reg PlannerName e = Inr ()"
proof -
  have "evs \<noteq> fmempty" using assms(2) by auto
  moreover have "fmupd PlannerName evs fmempty \<noteq> fmempty" by (metis fmempty_lookup fmupd_lookup option.distinct(1))
  ultimately show ?thesis using assms
    by (cases "se_Body e") (auto simp: MemoryRegistry_ValidateStateEvent_def stateEventRegistry_Validate_def
        DefineStateEvent_def decodeStateEvent_def split: sum.splits)
qed

lemma planner_validates:
  assumes "NewRegistry [Some planner_factory] = Inr reg" "applyEventTo st e = Inr st'"
  shows "MemoryRegistry_ValidateStateEvent reg PlannerName e = Inr ()"
proof -
  note v = validate_defined
  from planner_registry [OF assms(1)] obtain evs where "rg_stateEvents reg = fmupd PlannerName evs fmempty"
    and evs: "fmlookup evs EventPlanCreated = Some (DefineStateEvent dec_PlanCreated ([], []) PlannerName EventPlanCreated)"
    "fmlookup evs EventStepAdded = Some (DefineStateEvent dec_StepAdded no_step PlannerName EventStepAdded)"
    "fmlookup evs EventStepRemoved = Some (DefineStateEvent dec_StepRemoved [] PlannerName EventStepRemoved)"
    "fmlookup evs EventStepTitleChanged =
      Some (DefineStateEvent dec_StepTitleChanged ([], []) PlannerName EventStepTitleChanged)"
    "fmlookup evs EventStepStatusChanged =
      Some (DefineStateEvent dec_StepStatusChanged ([], []) PlannerName EventStepStatusChanged)"
    "fmlookup evs EventStepDependsOnChanged =
      Some (DefineStateEvent dec_StepDependsOnChanged ([], []) PlannerName EventStepDependsOnChanged)"
    "fmlookup evs EventStepParentChanged =
      Some (DefineStateEvent dec_StepParentChanged ([], []) PlannerName EventStepParentChanged)"
    "fmlookup evs EventCurrentStepChanged =
      Some (DefineStateEvent dec_CurrentStepChanged [] PlannerName EventCurrentStepChanged)"
    by blast
  note w = v [OF this(1)]
  from assms(2) have
    "(se_Name e = EventPlanCreated \<and> (\<exists>x. decodeStateEvent dec_PlanCreated ([], []) e = Inr x)) \<or>
     (se_Name e = EventStepAdded \<and> (\<exists>x. decodeStateEvent dec_StepAdded no_step e = Inr x)) \<or>
     (se_Name e = EventStepRemoved \<and> (\<exists>x. decodeStateEvent dec_StepRemoved [] e = Inr x)) \<or>
     (se_Name e = EventStepTitleChanged \<and> (\<exists>x. decodeStateEvent dec_StepTitleChanged ([], []) e = Inr x)) \<or>
     (se_Name e = EventStepStatusChanged \<and> (\<exists>x. decodeStateEvent dec_StepStatusChanged ([], []) e = Inr x)) \<or>
     (se_Name e = EventStepDependsOnChanged \<and> (\<exists>x. decodeStateEvent dec_StepDependsOnChanged ([], []) e = Inr x)) \<or>
     (se_Name e = EventStepParentChanged \<and> (\<exists>x. decodeStateEvent dec_StepParentChanged ([], []) e = Inr x)) \<or>
     (se_Name e = EventCurrentStepChanged \<and> (\<exists>x. decodeStateEvent dec_CurrentStepChanged [] e = Inr x))"
    unfolding applyEventTo_def Let_def by (auto simp: rbind_Inr_iff split: if_split_asm)
  then show ?thesis by (elim disjE conjE exE) (rule w [rotated], assumption, simp add: evs)+
qed

lemma replay_planner_events:
  fixes reg :: "(planner, planner_error) registry"
  assumes reg: "NewRegistry [Some planner_factory] = Inr reg" and name: "as_CapabilityName spec = PlannerName"
  shows "dispatch_events spec es = Inr ws \<Longrightarrow> fmlookup caps (as_InstanceID spec) = Some p \<Longrightarrow>
    rfold applyEventTo (pl_plan p, pl_created p) es = Inr (q, c) \<Longrightarrow>
    replay_events None (\<lambda>p. Some (\<lambda>ctx. Planner_ApplyEvent ctx p)) reg rt caps ws =
      (Inr (), fmupd (as_InstanceID spec) (p\<lparr>pl_plan := q, pl_created := c\<rparr>) caps)"
proof (induction es arbitrary: ws caps p)
  case Nil
  have "fmupd (as_InstanceID spec) p caps = caps" using Nil(2) by (intro fmap_ext) auto
  moreover have "p\<lparr>pl_plan := q, pl_created := c\<rparr> = p" using Nil(3) by auto
  ultimately show ?case using Nil(1) by simp
next
  case (Cons e es)
  let ?ap = "\<lambda>p. Some (\<lambda>ctx. Planner_ApplyEvent ctx p)"
  from Cons.prems(1) obtain w ws' where w: "DispatchEvent spec e = (Inr w :: (planner_error cap_error, event) result)"
    "dispatch_events spec es = Inr ws'" "ws = w # ws'" by (auto simp: rbind_Inr_iff)
  from Cons.prems(3) obtain q1 c1 where a: "applyEventTo (pl_plan p, pl_created p) e = Inr (q1, c1)"
    "rfold applyEventTo (q1, c1) es = Inr (q, c)" by (auto simp: rbind_Inr_iff)
  let ?p1 = "p\<lparr>pl_plan := q1, pl_created := c1\<rparr>"
  have "replay_event None ?ap reg rt caps w = Inr (fmupd (as_InstanceID spec) ?p1 caps)"
    using a(1) planner_validates [OF reg a(1)] name
    by (intro replay_dispatched [OF w(1) Cons.prems(2), where f = "\<lambda>ctx. Planner_ApplyEvent ctx p"])
      (simp_all add: Planner_ApplyEvent_def)
  moreover have "replay_events None ?ap reg rt (fmupd (as_InstanceID spec) ?p1 caps) ws' =
      (Inr (), fmupd (as_InstanceID spec) (p\<lparr>pl_plan := q, pl_created := c\<rparr>) caps)"
    using Cons.IH [OF w(2), of "fmupd (as_InstanceID spec) ?p1 caps" ?p1] a(2) by simp
  ultimately show ?case by (simp add: w(3))
qed

lemma draft_nonempty: "draft_actions nano k st (a # as) = Inr (es, st') \<Longrightarrow> es \<noteq> []"
  by (auto simp: rbind_Inr_iff buildActionEvent_def build_create_def build_add_def build_remove_def build_title_def
      build_status_def build_depends_def build_parent_def build_current_def Let_def with_step_def
      split: if_split_asm option.splits)

lemma dispatch_nonempty: "dispatch_events spec es = Inr ws \<Longrightarrow> es \<noteq> [] \<Longrightarrow> ws \<noteq> []"
  by (cases es) (auto simp: rbind_Inr_iff)

text \<open>
  C18: the thread is the truth about a planner. After a successful batch the thread holds new events,
  and replaying them through the capability manager turns the planner as it was before the batch
  into the planner as it is after it.
\<close>

theorem planner_log_replays:
  assumes "ApplyActions ctx g nano as p s = (Inr plan, p', s')" "NewRegistry [Some planner_factory] = Inr reg"
    "as_CapabilityName (pl_spec p) = PlannerName" "pl_runtime p = Some rt" "rt_Live rt = Some l"
    "fmlookup (ms_threads s) (ml_threadID l) = Some t"
    "mg_registry m = Some reg" "mg_runtime m = Some rt" "Manager_Capability m (as_InstanceID (pl_spec p)) = Some p"
  shows "\<exists>t' new. fmlookup (ms_threads s') (ml_threadID l) = Some t' \<and> mt_events t' = mt_events t @ new \<and> new \<noteq> [] \<and>
    Manager_Replay None (\<lambda>p. Some (\<lambda>ctx. Planner_ApplyEvent ctx p)) new m =
      (Inr (), m\<lparr>mg_capabilities := fmupd (as_InstanceID (pl_spec p)) p' (mg_capabilities m)\<rparr>)"
  using assms(1)
proof (rule ApplyActions_success)
  fix rt' events q c wrapped
  assume d: "draft_actions nano 0 (pl_plan p, pl_created p) as = Inr (events, q, c)" "as \<noteq> []"
    and w: "dispatch_events (pl_spec p) events = Inr wrapped" and rt': "pl_runtime p = Some rt'"
    and a: "LiveRuntime_AppendEvents ctx g rt' wrapped s = (Inr () :: (planner_error cap_error, unit) result, s')"
    and p': "p' = p\<lparr>pl_plan := q, pl_created := c\<rparr>"
  have "wrapped \<noteq> []"
    using d draft_nonempty dispatch_nonempty [OF w] by (cases as) auto
  then obtain t' new where t': "fmlookup (ms_threads s') (ml_threadID l) = Some t'" "mt_events t' = mt_events t @ new"
    "list_all2 same_content wrapped new" "new \<noteq> []"
    using AppendEvents_stores [OF a _ _ assms(6)] rt' assms(4,5) by fastforce
  have "replay_events None (\<lambda>p. Some (\<lambda>ctx. Planner_ApplyEvent ctx p)) reg rt (mg_capabilities m) new =
      (Inr (), fmupd (as_InstanceID (pl_spec p)) p' (mg_capabilities m))"
    unfolding replay_events_content [OF t'(3)] p'
    by (rule replay_planner_events [OF assms(2,3) w _ draft_actions_rfold [OF d(1)]])
      (use assms(9) in \<open>simp add: Manager_Capability_def\<close>)
  then show ?thesis using t' assms(7,8) by (auto simp: Manager_Replay_def)
qed

theorem planner_log_replays_witness:
  "\<exists>reg (s' :: memory_store) (t' :: memory_thread) new. NewRegistry [Some planner_factory] = Inr reg \<and>
    fmlookup (ms_threads s') ''t1'' = Some t' \<and> mt_events t' = mt_events demo_thread @ new \<and> new \<noteq> [] \<and>
    (let m = (NewManager (Some reg) (Some demo_runtime))\<lparr>mg_capabilities := fmupd ''n1'' demo_planner fmempty\<rparr> in
     Manager_Replay None (\<lambda>p. Some (\<lambda>ctx. Planner_ApplyEvent ctx p)) new m =
       (Inr (), m\<lparr>mg_capabilities := fmupd ''n1'' (demo_planner\<lparr>pl_plan := demo_plan, pl_created := True\<rparr>) (mg_capabilities m)\<rparr>))"
proof -
  obtain s' where b: "ApplyActions None demo_gen (\<lambda>_. None) demo_actions demo_planner demo_store =
      (Inr demo_plan, demo_planner\<lparr>pl_plan := demo_plan, pl_created := True\<rparr>, s')" by (rule demo_batch)
  have "\<exists>reg. NewRegistry [Some planner_factory] = Inr reg"
    by (simp add: NewRegistry_def planner_factory_def stateEventRegistry_Register_def DefineStateEvent_def
        PlannerName_def plan_event_defs Let_def)
  then obtain reg where reg: "NewRegistry [Some planner_factory] = Inr reg" by blast
  have l: "rt_Live demo_runtime = Some demo_live" "ml_threadID demo_live = ''t1''"
    by (simp_all add: demo_runtime_def demo_live_def)
  let ?m = "(NewManager (Some reg) (Some demo_runtime))\<lparr>mg_capabilities := fmupd ''n1'' demo_planner fmempty\<rparr>"
  have "mg_registry ?m = Some reg" "mg_runtime ?m = Some demo_runtime" "Manager_Capability ?m ''n1'' = Some demo_planner"
    by (simp_all add: NewManager_def Manager_Capability_def)
  with planner_log_replays [OF b reg, of demo_runtime demo_live demo_thread ?m] l demo_lookup obtain t' new where
    "fmlookup (ms_threads s') ''t1'' = Some t'" "mt_events t' = mt_events demo_thread @ new" "new \<noteq> []"
    "Manager_Replay None (\<lambda>p. Some (\<lambda>ctx. Planner_ApplyEvent ctx p)) new ?m =
       (Inr (), ?m\<lparr>mg_capabilities := fmupd ''n1'' (demo_planner\<lparr>pl_plan := demo_plan, pl_created := True\<rparr>) (mg_capabilities ?m)\<rparr>)"
    by auto
  with reg show ?thesis unfolding Let_def by blast
qed



text \<open>Moving a step under another one succeeds whenever both exist and differ.\<close>

lemma parent_change_sorts:
  assumes inv: "plan_inv (p, True)" and k: "findStep p i = Some k"
    and q: "q = [] \<or> q \<in> step_ID ` set (plan_Steps p)"
  shows "\<exists>p'. resort (change_step k (\<lambda>s. s\<lparr>step_ParentID := q\<rparr>) p) = Inr p'"
proof -
  note D = plan_invD [OF inv]
  have k': "k < length (plan_Steps p)" using findStep_Some [OF k] by simp
  let ?us = "(plan_Steps p)[k := (plan_Steps p ! k)\<lparr>step_ParentID := q\<rparr>]"
  have nth: "step_ID (?us ! j) = step_ID (plan_Steps p ! j) \<and> step_DependsOn (?us ! j) = step_DependsOn (plan_Steps p ! j)"
    if "j < length (plan_Steps p)" for j using that k' by (cases "j = k") auto
  then have ids: "map step_ID ?us = map step_ID (plan_Steps p)" by (auto simp: list_eq_iff_nth_eq)
  have "step_ID ` set (take j ?us) = step_ID ` set (take j (plan_Steps p))" for j
    using ids by (metis list.set_map take_map)
  then have "dep_ordered ?us" using D(4) nth by (simp add: dep_ordered_def)
  moreover have "refs_ok (map step_ID ?us) ?us"
    unfolding refs_ok_def ids
  proof
    fix s assume "s \<in> set ?us"
    then have "s \<in> set (plan_Steps p) \<or> s = (plan_Steps p ! k)\<lparr>step_ParentID := q\<rparr>"
      using set_update_subset_insert by fast
    then show "set (step_DependsOn s) \<subseteq> set (map step_ID (plan_Steps p)) \<and>
        (step_ParentID s \<noteq> [] \<longrightarrow> step_ParentID s \<in> set (map step_ID (plan_Steps p)))"
      using bspec [OF D(3) [unfolded refs_ok_def] nth_mem [OF k']] D(3) q by (auto simp: refs_ok_def)
  qed
  ultimately have "\<exists>out. topoSortSteps ?us = Inr out" using topo.sorts_ordered [of ?us] D(1) ids by simp
  then show ?thesis by (auto simp: resort_def change_step_def)
qed

text \<open>
  \<^verbatim>\<open>set_step_parent\<close> looks only at the step and its new parent. Two steps can be made each other's
  parent: if one is already under the other, moving the other under it is accepted, stored and
  applied.
\<close>

lemma set_parent_accepts_cycle:
  assumes "plan_inv (p, True)" "TrimSpace (pa_Action a) = ''set_step_parent''" "requireStepID a = i" "pa_ParentID a = j"
    "i \<noteq> j" "i \<in> step_ID ` set (plan_Steps p)" "s \<in> set (plan_Steps p)" "step_ID s = j" "step_ParentID s = i"
  shows "buildActionEvent n (p, True) a = Inr [StepParentChanged i j] \<and>
    (\<exists>p' u. applyEventTo (p, True) (StepParentChanged i j) = Inr (p', True) \<and> s \<in> set (plan_Steps p') \<and>
       u \<in> set (plan_Steps p') \<and> step_ID u = i \<and> step_ParentID u = j)"
proof -
  obtain k where k: "findStep p i = Some k" using assms(6) findStep_None [of p i] by auto
  have k': "k < length (plan_Steps p)" "step_ID (plan_Steps p ! k) = i" using findStep_Some [OF k] by auto
  have j: "findStep p j \<noteq> None" using assms(7,8) by (auto simp: findStep_None)
  let ?f = "\<lambda>s. s\<lparr>step_ParentID := j\<rparr>"
  obtain p' where r: "resort (change_step k ?f p) = Inr p'"
    using parent_change_sorts [OF assms(1) k, of j] assms(7,8) by auto
  then obtain out where out: "topoSortSteps (plan_Steps (change_step k ?f p)) = Inr out" "plan_Steps p' = out"
    by (auto simp: resort_Inr)
  have b: "buildActionEvent n (p, True) a = Inr [StepParentChanged i j]"
    using assms(2-5) k j out(1) by (simp add: buildActionEvent_def build_parent_def Let_def with_step_def check_parent_def)
  have "distinct (map step_ID (plan_Steps (change_step k ?f p)))"
    using change_step_IDs [of ?f p k] plan_invD(1) [OF assms(1)] by simp
  then have "set out = set (plan_Steps (change_step k ?f p))" using topo.sorted_steps(1) out(1) by blast
  then have set: "set (plan_Steps p') = set ((plan_Steps p)[k := ?f (plan_Steps p ! k)])"
    using out(2) by (simp add: change_step_def)
  have "s \<in> set ((plan_Steps p)[k := ?f (plan_Steps p ! k)])"
    using assms(5,7,8) k' by (metis in_set_conv_nth length_list_update nth_list_update_neq)
  moreover have "?f (plan_Steps p ! k) \<in> set ((plan_Steps p)[k := ?f (plan_Steps p ! k)])"
    using k'(1) by (rule set_update_memI)
  ultimately show ?thesis
    using b r k k'(2) set by (auto simp: with_step_def intro!: exI [of _ "?f (plan_Steps p ! k)"])
qed

lemma set_parent_accepts_cycle_example:
  "let b = (demo_step ''b'' [])\<lparr>step_ParentID := ''a''\<rparr>;
       p = \<lparr>plan_ID = ''p'', plan_Title = [], plan_CurrentStepID = [], plan_Steps = [demo_step ''a'' [], b]\<rparr>;
       a = (demo_action ''set_step_parent'')\<lparr>pa_StepID := ''a'', pa_ParentID := ''b''\<rparr>
   in plan_inv (p, True) \<and> buildActionEvent None (p, True) a = Inr [StepParentChanged ''a'' ''b'']"
proof -
  let ?b = "(demo_step ''b'' [])\<lparr>step_ParentID := ''a''\<rparr>"
  let ?p = "\<lparr>plan_ID = ''p'', plan_Title = [], plan_CurrentStepID = [], plan_Steps = [demo_step ''a'' [], ?b]\<rparr>"
  let ?a = "(demo_action ''set_step_parent'')\<lparr>pa_StepID := ''a'', pa_ParentID := ''b''\<rparr>"
  have i: "plan_inv (?p, True)"
    by (simp add: plan_inv_def steps_inv_def step_ok_def refs_ok_def dep_ordered_from demo_step_def validStatus_def)
  have "TrimSpace (pa_Action ?a) = ''set_step_parent''" by code_simp
  then show ?thesis using set_parent_accepts_cycle [OF i, of ?a "''a''" "''b''" ?b None] i
    by (simp add: demo_step_def requireStepID_def)
qed

end
