(* ===== verification/Workflow_Value.thy ===== *)
theory Workflow_Value
  imports Go_Json "HOL-Library.Finite_Map"
begin

text \<open>
  Workflow definitions and the values that flow between their steps (the types, \<^verbatim>\<open>stepInput\<close>,
  \<^verbatim>\<open>conditionMatches\<close> and the input templates of \<^verbatim>\<open>src/workflow/workflow.go\<close>, and \<^verbatim>\<open>value.go\<close>).

  A Go value of type \<^verbatim>\<open>any\<close> is a \<^verbatim>\<open>go_value\<close>. A map is the list of its entries in key order, which makes
  \<^verbatim>\<open>reflect.DeepEqual\<close> the equality of values; a struct is the list of its exported fields. A float is
  kept as the decimal text Go prints for it. Rendering a template is a loop that rescans its own
  output and need not end: it is a partial function, and \<^term>\<open>None\<close> means that it never returns.
\<close>

section \<open>Values\<close>

datatype go_value =
    VNil
  | VBool bool
  | VInt int
  | VFloat string
  | VStr string
  | VList "go_value list"
  | VMap "(string \<times> go_value) list"
  | VStrMap "(string \<times> string) list"
  | VStruct "(string \<times> go_value) list"
  | VRef string string go_value string bool

text \<open>\<^verbatim>\<open>workflow.ValueRef\<close>: identifier, media type, inline value, external URI and the redaction flag.\<close>

record value_ref =
  vr_ID :: string
  vr_MediaType :: string
  vr_Inline :: "go_value"
  vr_ExternalURI :: string
  vr_Redacted :: bool

definition no_ref :: value_ref where
  "no_ref = \<lparr>vr_ID = [], vr_MediaType = [], vr_Inline = VNil, vr_ExternalURI = [], vr_Redacted = False\<rparr>"

definition InlineValue :: "go_value \<Rightarrow> value_ref" where
  "InlineValue v = (if v = VNil then no_ref else no_ref\<lparr>vr_Inline := v\<rparr>)"

definition ExternalValue :: "string \<Rightarrow> string \<Rightarrow> value_ref" where
  "ExternalValue uri media = no_ref\<lparr>vr_ExternalURI := uri, vr_MediaType := media\<rparr>"

definition RedactedValue :: "string \<Rightarrow> value_ref" where
  "RedactedValue i = no_ref\<lparr>vr_ID := i, vr_Redacted := True\<rparr>"

fun valueRefFor :: "go_value \<Rightarrow> value_ref" where
  "valueRefFor (VRef i m v u r) =
     \<lparr>vr_ID = i, vr_MediaType = m, vr_Inline = v, vr_ExternalURI = u, vr_Redacted = r\<rparr>"
| "valueRefFor v = InlineValue v"

definition emptyValueRef :: "value_ref \<Rightarrow> bool" where
  "emptyValueRef r \<longleftrightarrow> vr_ID r = [] \<and> vr_MediaType r = [] \<and> vr_ExternalURI r = [] \<and> vr_Inline r = VNil \<and> \<not> vr_Redacted r"

text \<open>Storing under a key of a map that is kept in key order.\<close>

fun map_put :: "string \<Rightarrow> 'v \<Rightarrow> (string \<times> 'v) list \<Rightarrow> (string \<times> 'v) list" where
  "map_put k v [] = [(k, v)]"
| "map_put k v ((l, w) # m) =
     (if k = l then (k, v) # m else if k < l then (k, v) # (l, w) # m else (l, w) # map_put k v m)"

section \<open>Printing\<close>

definition show_digit :: "nat \<Rightarrow> char" where
  "show_digit n = char_of (48 + n)"

fun show_nat :: "nat \<Rightarrow> string" where
  "show_nat n = (if n < 10 then [show_digit n] else show_nat (n div 10) @ [show_digit (n mod 10)])"

declare show_nat.simps [simp del]

definition show_int :: "int \<Rightarrow> string" where
  "show_int n = (if n < 0 then CHR ''-'' # show_nat (nat (- n)) else show_nat (nat n))"

definition show_bool :: "bool \<Rightarrow> string" where
  "show_bool b = (if b then ''true'' else ''false'')"

fun join_sp :: "string list \<Rightarrow> string" where
  "join_sp [] = []"
| "join_sp [s] = s"
| "join_sp (s # ss) = s @ '' '' @ join_sp ss"

text \<open>\<^verbatim>\<open>fmt.Sprint\<close> of one value.\<close>

fun sprint :: "go_value \<Rightarrow> string" where
  "sprint VNil = ''<nil>''"
| "sprint (VBool b) = show_bool b"
| "sprint (VInt n) = show_int n"
| "sprint (VFloat t) = t"
| "sprint (VStr s) = s"
| "sprint (VList vs) = ''['' @ join_sp (map sprint vs) @ '']''"
| "sprint (VMap m) = ''map['' @ join_sp (map (\<lambda>(k, v). k @ '':'' @ sprint v) m) @ '']''"
| "sprint (VStrMap m) = ''map['' @ join_sp (map (\<lambda>(k, v). k @ '':'' @ v) m) @ '']''"
| "sprint (VStruct fs) = ''{'' @ join_sp (map (\<lambda>(k, v). sprint v) fs) @ ''}''"
| "sprint (VRef i m v u r) = ''{'' @ join_sp [i, m, sprint v, u, show_bool r] @ ''}''"

section \<open>Definitions and results\<close>

record action_ref =
  act_Name :: string
  act_Version :: string

record condition =
  cond_StepID :: string
  cond_Equals :: "go_value"
  cond_Exists :: bool
  cond_Not :: bool

record retry_policy =
  retry_MaxAttempts :: int
  retry_Backoff :: int

datatype step_error_policy = StepErrorFail | StepErrorContinue | StepErrorOther string

record wf_step =
  ws_ID :: string
  ws_Action :: action_ref
  ws_Input :: "go_value"
  ws_InputMap :: "(string \<times> string) list option"
  ws_InputTemplate :: "go_value"
  ws_DependsOn :: "string list"
  ws_When :: condition
  ws_Retry :: retry_policy
  ws_Timeout :: int
  ws_ErrorPolicy :: step_error_policy
  ws_IdempotencyKey :: string

record wf_definition =
  wd_Name :: string
  wd_Description :: string
  wd_Version :: string
  wd_Steps :: "wf_step list"

text \<open>
  The result of an action: its data, its error as text, and the events it hands back, of a type the
  client chooses.
\<close>

record 'ev action_result =
  ar_Data :: "go_value"
  ar_Error :: "string option"
  ar_Events :: "'ev list"

definition no_action_result :: "'ev action_result" where
  "no_action_result = \<lparr>ar_Data = VNil, ar_Error = None, ar_Events = []\<rparr>"

type_synonym 'ev wf_results = "(string, 'ev action_result) fmap"

text \<open>Indexing a Go map that may lack the key gives the zero result.\<close>

definition result_at :: "'ev wf_results \<Rightarrow> string \<Rightarrow> 'ev action_result" where
  "result_at rs i = (case fmlookup rs i of None \<Rightarrow> no_action_result | Some r \<Rightarrow> r)"

definition conditionMatches :: "condition \<Rightarrow> 'ev wf_results \<Rightarrow> bool" where
  "conditionMatches c rs =
     (if cond_StepID c = [] then True
      else
        let res = result_at rs (cond_StepID c); ok = (fmlookup rs (cond_StepID c) \<noteq> None);
            m1 = (if cond_Exists c then ok \<and> ar_Data res \<noteq> VNil else ok);
            m2 = (if cond_Equals c \<noteq> VNil then ok \<and> ar_Data res = cond_Equals c else m1)
        in if cond_Not c then \<not> m2 else m2)"

section \<open>Input expressions\<close>

fun valuePath :: "go_value \<Rightarrow> string list \<Rightarrow> go_value" where
  "valuePath v [] = v"
| "valuePath (VMap m) (p # ps) = valuePath (case map_of m p of None \<Rightarrow> VNil | Some v \<Rightarrow> v) ps"
| "valuePath (VStrMap m) (p # ps) = valuePath (VStr (case map_of m p of None \<Rightarrow> [] | Some s \<Rightarrow> s)) ps"
| "valuePath (VStruct fs) (p # ps) = (case map_of fs p of None \<Rightarrow> VNil | Some v \<Rightarrow> valuePath v ps)"
| "valuePath (VRef i m v u r) (p # ps) =
     (if p = ''ID'' then valuePath (VStr i) ps else if p = ''MediaType'' then valuePath (VStr m) ps
      else if p = ''Inline'' then valuePath v ps else if p = ''ExternalURI'' then valuePath (VStr u) ps
      else if p = ''Redacted'' then valuePath (VBool r) ps else VNil)"
| "valuePath _ (p # ps) = VNil"

definition resolveInputExpression :: "string \<Rightarrow> go_value \<Rightarrow> 'ev wf_results \<Rightarrow> go_value" where
  "resolveInputExpression expr0 initial rs =
     (let expr = TrimSpace (TrimPrefix (TrimPrefix expr0 ''$'') ''.'') in
      if expr = ''input'' then initial
      else if expr = [] then VNil
      else case Split expr (CHR ''.'') of
        a # b # c # path \<Rightarrow>
          if a = ''steps'' then
            (case fmlookup rs b of
               None \<Rightarrow> VNil
             | Some res \<Rightarrow>
                 if c = ''output'' \<or> c = ''data'' then valuePath (ar_Data res) path
                 else if c = ''error'' then (case ar_Error res of None \<Rightarrow> VNil | Some e \<Rightarrow> VStr e)
                 else VNil)
          else VNil
      | _ \<Rightarrow> VNil)"

text \<open>The number of non-overlapping occurrences of a non-empty string, as \<^verbatim>\<open>strings.Count\<close>.\<close>

function str_count :: "string \<Rightarrow> string \<Rightarrow> nat" where
  "str_count s p = (if p = [] then 0 else
     case Index s p of None \<Rightarrow> 0 | Some i \<Rightarrow> Suc (str_count (drop (i + length p) s) p))"
  by auto

termination
  by (relation "measure (\<lambda>(s, p). length s)") (auto simp: Index_drop_less)

declare str_count.simps [simp del]

text \<open>One substitution of the template loop, and the loop.\<close>

definition render_step :: "(string \<Rightarrow> string) \<Rightarrow> string \<Rightarrow> string option" where
  "render_step subst out =
     (case Index out ''{{'' of
        None \<Rightarrow> None
      | Some start \<Rightarrow>
          (let rest = drop (start + 2) out in
           case Index rest ''}}'' of
             None \<Rightarrow> None
           | Some endRel \<Rightarrow>
               Some (take start out @ subst (TrimSpace (take endRel rest)) @ drop (endRel + 2) rest)))"

partial_function (option) render_loop :: "(string \<Rightarrow> string) \<Rightarrow> string \<Rightarrow> string option" where
  "render_loop subst out =
     (if out = [] then Some [] else
      case render_step subst out of None \<Rightarrow> Some out | Some out' \<Rightarrow> render_loop subst out')"

declare render_loop.simps [code]

definition renderTemplateString :: "string \<Rightarrow> go_value \<Rightarrow> 'ev wf_results \<Rightarrow> go_value option" where
  "renderTemplateString template initial rs =
     (let trimmed = TrimSpace template in
      if HasPrefix trimmed ''{{'' \<and> HasSuffix trimmed ''}}'' \<and> str_count trimmed ''{{'' = 1
      then Some (resolveInputExpression (TrimSuffix (TrimPrefix trimmed ''{{'') ''}}'') initial rs)
      else map_option VStr (render_loop (\<lambda>expr. sprint (resolveInputExpression expr initial rs)) template))"

fun renderInputTemplate :: "go_value \<Rightarrow> go_value \<Rightarrow> 'ev wf_results \<Rightarrow> go_value option" where
  "renderInputTemplate (VStr s) initial rs = renderTemplateString s initial rs"
| "renderInputTemplate (VList vs) initial rs = map_option VList (those (map (\<lambda>v. renderInputTemplate v initial rs) vs))"
| "renderInputTemplate (VMap m) initial rs =
     map_option VMap (those (map (\<lambda>(k, v). map_option (Pair k) (renderInputTemplate v initial rs)) m))"
| "renderInputTemplate v initial rs = Some v"

definition stepInput :: "wf_step \<Rightarrow> go_value \<Rightarrow> 'ev wf_results \<Rightarrow> go_value option" where
  "stepInput st initial rs =
     (case ws_InputMap st of
        Some m \<Rightarrow> Some (VMap (map (\<lambda>(k, e). (k, resolveInputExpression e initial rs)) m))
      | None \<Rightarrow>
          if ws_InputTemplate st \<noteq> VNil then renderInputTemplate (ws_InputTemplate st) initial rs
          else if ws_Input st \<noteq> VNil then renderInputTemplate (ws_Input st) initial rs
          else case ws_DependsOn st of
            [] \<Rightarrow> Some initial
          | [d] \<Rightarrow> Some (ar_Data (result_at rs d))
          | ds \<Rightarrow> Some (VMap (fold (\<lambda>d. map_put d (ar_Data (result_at rs d))) ds [])))"

section \<open>Rendering ends, or does not\<close>

lemma render_step_brace:
  assumes "render_step subst out = Some out'" "\<And>e. CHR ''{'' \<notin> set (subst e)"
  shows "count_list out' (CHR ''{'') < count_list out (CHR ''{'')"
proof -
  from assms(1) obtain start endRel where i: "Index out ''{{'' = Some start"
    "Index (drop (start + 2) out) ''}}'' = Some endRel"
    "out' = take start out @ subst (TrimSpace (take endRel (drop (start + 2) out))) @ drop (endRel + 2) (drop (start + 2) out)"
    by (auto simp: render_step_def Let_def split: option.splits)
  from Index_Some [OF i(1)] obtain t where t: "out = take start out @ ''{{'' @ t" by auto
  have d: "drop (start + 2) out = t"
    using Index_Some [OF i(1)] t by (metis append_assoc append_eq_conv_conj length_append length_take min.absorb2
        add_leD1 numeral_2_eq_2 length_Cons list.size(3))
  have "count_list (drop n xs) c \<le> count_list xs (c :: char)" for n xs c
    by (metis append_take_drop_id count_list_append le_add2)
  then have "count_list (drop (endRel + 2) t) (CHR ''{'') \<le> count_list t (CHR ''{'')" by blast
  moreover have "count_list out (CHR ''{'') = count_list (take start out) (CHR ''{'') + (2 + count_list t (CHR ''{''))"
    by (subst t, subst count_list_append) simp
  moreover have "count_list (subst e) (CHR ''{'') = 0" for e using assms(2) by (simp add: count_list_0_iff)
  ultimately show ?thesis unfolding i(3) d by (simp add: count_list_append)
qed

lemma render_loop_ends:
  assumes "\<And>e. CHR ''{'' \<notin> set (subst e)"
  shows "\<exists>r. render_loop subst out = Some r \<and> (r = [] \<or> render_step subst r = None)"
proof (induction "count_list out (CHR ''{'')" arbitrary: out rule: less_induct)
  case less
  show ?case
  proof (cases "render_step subst out")
    case None
    then show ?thesis by (subst render_loop.simps) auto
  next
    case (Some out')
    have "\<exists>r. render_loop subst out' = Some r \<and> (r = [] \<or> render_step subst r = None)"
      by (rule less) (rule render_step_brace [OF Some assms])
    then show ?thesis using Some by (subst render_loop.simps) auto
  qed
qed

text \<open>A template that a substitution reproduces is rendered forever.\<close>

lemma render_loop_stuck:
  assumes "render_loop subst out = Some r"
  shows "out \<noteq> [] \<Longrightarrow> render_step subst out \<noteq> Some out"
proof (induction rule: render_loop.raw_induct [OF _ assms])
  case (1 loop subst out r)
  show ?case
  proof
    assume self: "render_step subst out = Some out"
    with 1(2,3) have "loop subst out = Some r" by simp
    from 1(1) [OF this 1(3)] self show False by simp
  qed
qed

lemma sprint_seven: "CHR ''{'' \<notin> set (sprint (VInt 7))"
  by code_simp

lemma sprint_nil: "CHR ''{'' \<notin> set (sprint VNil)"
  by simp

lemma input_trims: "TrimSpace (TrimPrefix (TrimPrefix (TrimSpace ''input'') ''$'') ''.'') = ''input''"
  by code_simp

text \<open>
  rendering a template returns whenever no value it inserts prints an opening brace: either the
  value of the one expression the template is, or a text that holds no further expression.
\<close>

lemma renderTemplateString_returns:
  assumes "\<forall>e. CHR ''{'' \<notin> set (sprint (resolveInputExpression e initial rs))"
  shows "(\<exists>e. renderTemplateString t initial rs = Some (resolveInputExpression e initial rs)) \<or>
    (\<exists>s. renderTemplateString t initial rs = Some (VStr s) \<and> (\<forall>f. render_step f s = None))"
proof -
  let ?f = "\<lambda>e. sprint (resolveInputExpression e initial rs)"
  obtain r where r: "render_loop ?f t = Some r" "r = [] \<or> render_step ?f r = None"
    using render_loop_ends [of ?f t] assms by auto
  then have "\<forall>f. render_step f r = None" by (auto simp: render_step_def Let_def split: option.splits)
  then show ?thesis using r(1) by (auto simp: renderTemplateString_def Let_def)
qed

lemma renderTemplateString_returns_example:
  "renderTemplateString ''a {{input}} b'' (VInt 7) (fmempty :: unit wf_results) = Some (VStr ''a 7 b'') \<and>
   (\<exists>v. renderTemplateString ''a {{ input }} {{ '' (VInt 7) (fmempty :: unit wf_results) = Some v)"
proof -
  have "resolveInputExpression e (VInt 7) (fmempty :: unit wf_results) \<in> {VInt 7, VNil}" for e
    by (auto simp: resolveInputExpression_def Let_def split: list.splits)
  then have "\<forall>e. CHR ''{'' \<notin> set (sprint (resolveInputExpression e (VInt 7) (fmempty :: unit wf_results)))"
    by (metis (no_types, lifting) emptyE insertE sprint_seven sprint_nil)
  from renderTemplateString_returns [OF this] have "\<exists>v. renderTemplateString ''a {{ input }} {{ '' (VInt 7)
      (fmempty :: unit wf_results) = Some v" by blast
  moreover have "renderTemplateString ''a {{input}} b'' (VInt 7) (fmempty :: unit wf_results) = Some (VStr ''a 7 b'')"
    by code_simp
  ultimately show ?thesis by simp
qed



end
