(* ===== verification/Workflow_Order.thy ===== *)
theory Workflow_Order
  imports Workflow_Value
begin

text \<open>
  Checking a workflow definition and ordering its steps (\<^verbatim>\<open>validateAndOrder\<close> and \<^verbatim>\<open>Validate\<close> of
  \<^verbatim>\<open>src/workflow/workflow.go\<close>). The recursive closure \<^verbatim>\<open>visit\<close> is a depth-first search; the entries of
  its map \<^verbatim>\<open>visiting\<close> that are true are the steps on the current call path, which is an argument here.
\<close>

datatype order_error =
    WfStepIDRequired
  | WfActionNameRequired string
  | WfDuplicateStep string
  | WfCycleAt string
  | WfStepMissing string
  | WfUnknownDependency string string

type_synonym step_map = "(string, wf_step) fmap"

fun index_steps :: "wf_step list \<Rightarrow> step_map \<Rightarrow> (order_error, step_map) result" where
  "index_steps [] byID = Inr byID"
| "index_steps (s # ss) byID =
     (if ws_ID s = [] then Inl WfStepIDRequired
      else if act_Name (ws_Action s) = [] then Inl (WfActionNameRequired (ws_ID s))
      else if fmlookup byID (ws_ID s) \<noteq> None then Inl (WfDuplicateStep (ws_ID s))
      else index_steps ss (fmupd (ws_ID s) s byID))"

text \<open>The visited identifiers and the steps in the order they were left.\<close>

type_synonym dfs_state = "string list \<times> wf_step list"

function visit :: "step_map \<Rightarrow> string list \<Rightarrow> dfs_state \<Rightarrow> string \<Rightarrow> (order_error, dfs_state) result"
  and visit_deps :: "step_map \<Rightarrow> string list \<Rightarrow> dfs_state \<Rightarrow> string \<Rightarrow> string list \<Rightarrow> (order_error, dfs_state) result" where
  "visit byID visiting st i =
     (if i \<in> set (fst st) then Inr st
      else if i \<in> set visiting then Inl (WfCycleAt i)
      else case fmlookup byID i of
        None \<Rightarrow> Inl (WfStepMissing i)
      | Some s \<Rightarrow> rbind (visit_deps byID (i # visiting) st i (ws_DependsOn s))
          (\<lambda>st'. Inr (i # fst st', snd st' @ [s])))"
| "visit_deps byID visiting st i [] = Inr st"
| "visit_deps byID visiting st i (d # ds) =
     (if fmlookup byID d = None then Inl (WfUnknownDependency i d)
      else rbind (visit byID visiting st d) (\<lambda>st'. visit_deps byID visiting st' i ds))"
  by pat_completeness auto

termination
proof (relation "inv_image (less_than <*lex*> less_than) (\<lambda>x. case x of
    Inl (byID, visiting, st, i) \<Rightarrow> (card (fmdom' byID - set visiting), 0)
  | Inr (byID, visiting, st, i, ds) \<Rightarrow> (card (fmdom' byID - set visiting), Suc (length ds)))",
    goal_cases)
  case (2 byID visiting st i s)
  have "fmdom' byID - set (i # visiting) \<subset> fmdom' byID - set visiting"
    using 2(2) fmdom'I [OF 2(3)] by auto
  then have "card (fmdom' byID - set (i # visiting)) < card (fmdom' byID - set visiting)"
    by (intro psubset_card_mono) auto
  then show ?case by auto
qed auto

declare visit.simps [simp del]

fun visit_all :: "step_map \<Rightarrow> dfs_state \<Rightarrow> wf_step list \<Rightarrow> (order_error, dfs_state) result" where
  "visit_all byID st [] = Inr st"
| "visit_all byID st (s # ss) = rbind (visit byID [] st (ws_ID s)) (\<lambda>st'. visit_all byID st' ss)"

definition validateAndOrder :: "wf_step list \<Rightarrow> (order_error, wf_step list) result" where
  "validateAndOrder steps =
     rbind (index_steps steps fmempty) (\<lambda>byID. rbind (visit_all byID ([], []) steps) (\<lambda>st. Inr (snd st)))"

definition Validate :: "wf_definition \<Rightarrow> (order_error, unit) result" where
  "Validate def = rbind (validateAndOrder (wd_Steps def)) (\<lambda>_. Inr ())"

section \<open>What is visited\<close>

definition deps_first :: "wf_step list \<Rightarrow> bool" where
  "deps_first ss \<longleftrightarrow> (\<forall>k < length ss. set (ws_DependsOn (ss ! k)) \<subseteq> ws_ID ` set (take k ss))"

lemma deps_first_Nil [simp]: "deps_first []"
  by (simp add: deps_first_def)

lemma deps_first_snoc: "deps_first (ss @ [s]) \<longleftrightarrow> deps_first ss \<and> set (ws_DependsOn s) \<subseteq> ws_ID ` set ss"
  by (auto simp: deps_first_def nth_append less_Suc_eq)

definition dfs_inv :: "step_map \<Rightarrow> string list \<Rightarrow> dfs_state \<Rightarrow> bool" where
  "dfs_inv byID visiting st \<longleftrightarrow> set (fst st) = ws_ID ` set (snd st) \<and> distinct (map ws_ID (snd st)) \<and>
     deps_first (snd st) \<and> (\<forall>s \<in> set (snd st). fmlookup byID (ws_ID s) = Some s) \<and> set visiting \<inter> set (fst st) = {}"

definition keyed :: "step_map \<Rightarrow> bool" where
  "keyed byID \<longleftrightarrow> (\<forall>i s. fmlookup byID i = Some s \<longrightarrow> ws_ID s = i)"

lemma visit_sound:
  "keyed byID \<Longrightarrow> dfs_inv byID visiting st \<Longrightarrow> visit byID visiting st i = Inr st' \<Longrightarrow>
     dfs_inv byID visiting st' \<and> set (fst st) \<subseteq> set (fst st') \<and> i \<in> set (fst st')"
  "keyed byID \<Longrightarrow> dfs_inv byID visiting st \<Longrightarrow> visit_deps byID visiting st j ds = Inr st' \<Longrightarrow>
     dfs_inv byID visiting st' \<and> set (fst st) \<subseteq> set (fst st') \<and> set ds \<subseteq> set (fst st')"
proof (induction byID visiting st i and byID visiting st j ds arbitrary: st' and st' rule: visit_visit_deps.induct)
  case (1 byID visiting st i)
  show ?case
  proof (cases "i \<in> set (fst st)")
    case True
    then show ?thesis using 1 by (simp add: visit.simps)
  next
    case False
    with "1.prems"(3) obtain s st1 where s: "i \<notin> set visiting" "fmlookup byID i = Some s"
      "visit_deps byID (i # visiting) st i (ws_DependsOn s) = Inr st1" "st' = (i # fst st1, snd st1 @ [s])"
      by (auto simp: visit.simps rbind_Inr_iff split: if_splits option.splits)
    have "dfs_inv byID (i # visiting) st" using "1.prems"(2) False by (auto simp: dfs_inv_def)
    from "1.IH" [OF False s(1,2) "1.prems"(1) this s(3)]
    have d: "dfs_inv byID (i # visiting) st1" "set (fst st) \<subseteq> set (fst st1)" "set (ws_DependsOn s) \<subseteq> set (fst st1)"
      by auto
    have si: "ws_ID s = i" using "1.prems"(1) s(2) by (simp add: keyed_def)
    show ?thesis using d s(1,2,4) si by (auto simp: dfs_inv_def deps_first_snoc)
  qed
next
  case (3 byID visiting st j d ds)
  from "3.prems"(3) obtain st1 where d: "fmlookup byID d \<noteq> None" "visit byID visiting st d = Inr st1"
    "visit_deps byID visiting st1 j ds = Inr st'" by (auto simp: rbind_Inr_iff split: if_splits)
  have 1: "dfs_inv byID visiting st1 \<and> set (fst st) \<subseteq> set (fst st1) \<and> d \<in> set (fst st1)"
    using "3.IH"(1) [OF d(1) "3.prems"(1,2) d(2)] .
  then have "dfs_inv byID visiting st' \<and> set (fst st1) \<subseteq> set (fst st') \<and> set ds \<subseteq> set (fst st')"
    using "3.IH"(2) [OF d(1) "3.prems"(1) _ d(3)] by simp
  with 1 show ?case by auto
qed simp

lemma visit_all_sound:
  "keyed byID \<Longrightarrow> dfs_inv byID [] st \<Longrightarrow> visit_all byID st ss = Inr st' \<Longrightarrow>
     dfs_inv byID [] st' \<and> set (fst st) \<subseteq> set (fst st') \<and> ws_ID ` set ss \<subseteq> set (fst st')"
proof (induction ss arbitrary: st)
  case (Cons s ss)
  from Cons.prems(3) obtain st1 where s: "visit byID [] st (ws_ID s) = Inr st1" "visit_all byID st1 ss = Inr st'"
    by (auto simp: rbind_Inr_iff)
  have "dfs_inv byID [] st1 \<and> set (fst st) \<subseteq> set (fst st1) \<and> ws_ID s \<in> set (fst st1)"
    by (rule visit_sound(1) [OF Cons.prems(1,2) s(1)])
  with Cons.IH [OF Cons.prems(1) _ s(2)] show ?case by auto
qed simp

lemma index_steps_Inr:
  "index_steps ss byID = Inr m \<longleftrightarrow>
     distinct (map ws_ID ss) \<and> (\<forall>s \<in> set ss. ws_ID s \<noteq> [] \<and> act_Name (ws_Action s) \<noteq> [] \<and> fmlookup byID (ws_ID s) = None) \<and>
     (\<forall>i. fmlookup m i = (case find (\<lambda>s. ws_ID s = i) ss of None \<Rightarrow> fmlookup byID i | Some s \<Rightarrow> Some s))"
proof (induction ss arbitrary: byID)
  case Nil
  then show ?case by (auto intro: fmap_ext)
next
  case (Cons s ss)
  have "find (\<lambda>t. ws_ID t = ws_ID s) ss = None" if "ws_ID s \<notin> ws_ID ` set ss"
    using that unfolding find_None_iff by (metis imageI)
  then show ?case by (auto simp: Cons split: option.splits)
qed

lemma find_key_SomeD: "find (\<lambda>s. f s = i) ss = Some s \<Longrightarrow> s \<in> set ss \<and> f s = i"
  by (induction ss) (auto split: if_splits)

lemma find_key_exists: "s \<in> set ss \<Longrightarrow> f s = i \<Longrightarrow> \<exists>t. find (\<lambda>s. f s = i) ss = Some t"
  by (induction ss) auto

lemma index_steps_lookup:
  assumes "index_steps ss fmempty = Inr m"
  shows "fmlookup m i = Some s \<longleftrightarrow> s \<in> set ss \<and> ws_ID s = i"
proof -
  have d: "distinct (map ws_ID ss)" using assms by (simp add: index_steps_Inr)
  have l: "fmlookup m i = find (\<lambda>s. ws_ID s = i) ss"
    using assms by (cases "find (\<lambda>s. ws_ID s = i) ss") (simp_all add: index_steps_Inr)
  have inj: "inj_on ws_ID (set ss)" using d by (simp add: distinct_map)
  show ?thesis
  proof
    assume "fmlookup m i = Some s"
    then show "s \<in> set ss \<and> ws_ID s = i" unfolding l by (rule find_key_SomeD)
  next
    assume s: "s \<in> set ss \<and> ws_ID s = i"
    then obtain s2 where s2: "find (\<lambda>s. ws_ID s = i) ss = Some s2" using find_key_exists [of s ss ws_ID i] by blast
    then have "s2 = s" using find_key_SomeD [OF s2] s inj_onD [OF inj, of s2 s] by simp
    then show "fmlookup m i = Some s" using s2 l by simp
  qed
qed

section \<open>When the search succeeds\<close>

definition rank_ok :: "(string \<Rightarrow> nat) \<Rightarrow> step_map \<Rightarrow> bool" where
  "rank_ok r byID \<longleftrightarrow> (\<forall>i s. fmlookup byID i = Some s \<longrightarrow>
     (\<forall>d \<in> set (ws_DependsOn s). fmlookup byID d \<noteq> None \<and> r d < r i))"

lemma visit_complete:
  "rank_ok r byID \<Longrightarrow> fmlookup byID i \<noteq> None \<Longrightarrow> \<forall>x \<in> set visiting. r i < r x \<Longrightarrow> \<exists>st'. visit byID visiting st i = Inr st'"
  "rank_ok r byID \<Longrightarrow> \<forall>d \<in> set ds. fmlookup byID d \<noteq> None \<and> (\<forall>x \<in> set visiting. r d < r x) \<Longrightarrow>
     \<exists>st'. visit_deps byID visiting st j ds = Inr st'"
proof (induction byID visiting st i and byID visiting st j ds rule: visit_visit_deps.induct)
  case (1 byID visiting st i)
  show ?case
  proof (cases "i \<in> set (fst st)")
    case True
    then show ?thesis by (simp add: visit.simps)
  next
    case False
    have v: "i \<notin> set visiting" using "1.prems"(3) by auto
    obtain s where s: "fmlookup byID i = Some s" using "1.prems"(2) by auto
    have "\<forall>d \<in> set (ws_DependsOn s). fmlookup byID d \<noteq> None \<and> r d < r i"
      using "1.prems"(1) s by (simp add: rank_ok_def)
    then have "\<forall>d \<in> set (ws_DependsOn s). fmlookup byID d \<noteq> None \<and> (\<forall>x \<in> set (i # visiting). r d < r x)"
      using "1.prems"(3) by (auto intro: less_trans)
    from "1.IH" [OF False v s "1.prems"(1) this] obtain st1 where
      "visit_deps byID (i # visiting) st i (ws_DependsOn s) = Inr st1" by blast
    then show ?thesis using False v s by (simp add: visit.simps)
  qed
next
  case (3 byID visiting st j d ds)
  have d: "fmlookup byID d \<noteq> None" "\<forall>x \<in> set visiting. r d < r x" using "3.prems"(2) by auto
  from "3.IH"(1) [OF d(1) "3.prems"(1) d] obtain st1 where st1: "visit byID visiting st d = Inr st1" by blast
  have "\<exists>st'. visit_deps byID visiting st1 j ds = Inr st'"
    using "3.IH"(2) [OF d(1) "3.prems"(1), of st1] "3.prems"(2) by simp
  then show ?case using d(1) st1 by simp
qed simp

lemma visit_all_complete:
  "rank_ok r byID \<Longrightarrow> \<forall>s \<in> set ss. fmlookup byID (ws_ID s) \<noteq> None \<Longrightarrow> \<exists>st'. visit_all byID st ss = Inr st'"
proof (induction ss arbitrary: st)
  case (Cons s ss)
  obtain st1 where "visit byID [] st (ws_ID s) = Inr st1"
    using visit_complete(1) [OF Cons.prems(1), of "ws_ID s" "[]" st] Cons.prems(2) by auto
  with Cons show ?case by simp
qed simp

text \<open>The position in an order with dependencies first is a rank.\<close>

lemma deps_first_rank:
  assumes "deps_first p" "distinct (map ws_ID p)" "s \<in> set p" "d \<in> set (ws_DependsOn s)"
  shows "d \<in> ws_ID ` set p \<and>
    the (find_index (\<lambda>t. ws_ID t = d) p) < the (find_index (\<lambda>t. ws_ID t = ws_ID s) p)"
proof -
  obtain k where k: "find_index (\<lambda>t. ws_ID t = ws_ID s) p = Some k"
    using find_index_exists [OF assms(3), of "\<lambda>t. ws_ID t = ws_ID s"] by auto
  have k': "k < length p" "ws_ID (p ! k) = ws_ID s" using find_index_Some [OF k] by auto
  have "inj_on ws_ID (set p)" using assms(2) by (simp add: distinct_map)
  then have "p ! k = s" using inj_onD [of ws_ID "set p" "p ! k" s] assms(3) k' by simp
  then have "d \<in> ws_ID ` set (take k p)" using assms(1,4) k'(1) by (auto simp: deps_first_def)
  then obtain t where t: "t \<in> set (take k p)" "ws_ID t = d" by blast
  then obtain j where j: "j < k" "p ! j = t" using k'(1) by (auto simp: in_set_conv_nth)
  have "t \<in> set p" by (rule in_set_takeD [OF t(1)])
  then obtain i where i: "find_index (\<lambda>t. ws_ID t = d) p = Some i" 
    using find_index_exists [of t p "\<lambda>t. ws_ID t = d"] t(2) by auto
  have "i \<le> j"
  proof (rule ccontr)
    assume "\<not> i \<le> j"
    then have "take i p ! j = t" "j < length (take i p)" using j k'(1) by auto
    then have "t \<in> set (take i p)" using nth_mem by blast
    then show False using find_index_Some [OF i] t(2) by blast
  qed
  then show ?thesis using i k j(1) \<open>t \<in> set p\<close> t(2) by auto
qed

lemma validateAndOrder_sound:
  assumes "validateAndOrder steps = Inr ordered"
  shows "mset ordered = mset steps \<and> deps_first ordered \<and> distinct (map ws_ID ordered) \<and>
    (\<forall>s \<in> set steps. ws_ID s \<noteq> [] \<and> act_Name (ws_Action s) \<noteq> [])"
proof -
  from assms obtain byID st where i: "index_steps steps fmempty = Inr byID" "visit_all byID ([], []) steps = Inr st"
    "ordered = snd st" by (auto simp: validateAndOrder_def rbind_Inr_iff)
  note look = index_steps_lookup [OF i(1)]
  have k: "keyed byID" by (simp add: keyed_def look)
  have "dfs_inv byID [] ([], [])" by (simp add: dfs_inv_def)
  from visit_all_sound [OF k this i(2)] have st: "dfs_inv byID [] st" "ws_ID ` set steps \<subseteq> set (fst st)" by auto
  have sub: "set ordered \<subseteq> set steps" using st(1) i(3) by (auto simp: dfs_inv_def look)
  have "ws_ID ` set steps \<subseteq> ws_ID ` set ordered" using st i(3) by (simp add: dfs_inv_def)
  moreover have d: "distinct (map ws_ID steps)" using i(1) by (simp add: index_steps_Inr)
  ultimately have so: "set ordered = set steps"
    using sub inj_on_image_eq_iff [of ws_ID "set steps" "set ordered" "set steps"] by (auto simp: distinct_map)
  have o: "distinct (map ws_ID ordered)" "deps_first ordered" using st(1) i(3) by (simp_all add: dfs_inv_def)
  have "distinct ordered" "distinct steps" using o(1) d by (simp_all add: distinct_map)
  then have "mset ordered = mset steps" using so by (simp add: set_eq_iff_mset_eq_distinct)
  moreover have "\<forall>s \<in> set steps. ws_ID s \<noteq> [] \<and> act_Name (ws_Action s) \<noteq> []" using i(1) by (simp add: index_steps_Inr)
  ultimately show ?thesis using o by blast
qed

lemma index_steps_ok:
  "\<forall>s \<in> set ss. ws_ID s \<noteq> [] \<and> act_Name (ws_Action s) \<noteq> [] \<Longrightarrow> distinct (map ws_ID ss) \<Longrightarrow>
     \<forall>s \<in> set ss. fmlookup m (ws_ID s) = None \<Longrightarrow> \<exists>byID. index_steps ss m = Inr byID"
proof (induction ss arbitrary: m)
  case (Cons s ss)
  have ne: "ws_ID t \<noteq> ws_ID s" if "t \<in> set ss" for t using Cons.prems(2) that by (auto simp: image_iff)
  have "\<forall>t \<in> set ss. fmlookup (fmupd (ws_ID s) s m) (ws_ID t) = None"
  proof
    fix t assume "t \<in> set ss"
    then show "fmlookup (fmupd (ws_ID s) s m) (ws_ID t) = None" using ne [of t] Cons.prems(3) by simp
  qed
  then show ?case using Cons.IH [of "fmupd (ws_ID s) s m"] Cons.prems by simp
qed simp

lemma validateAndOrder_complete:
  assumes "\<forall>s \<in> set steps. ws_ID s \<noteq> [] \<and> act_Name (ws_Action s) \<noteq> []" "distinct (map ws_ID steps)"
    and p: "mset p = mset steps" "deps_first p"
  shows "\<exists>ordered. validateAndOrder steps = Inr ordered"
proof -
  define r where "r i = the (find_index (\<lambda>t. ws_ID t = i) p)" for i
  have sp: "set p = set steps" by (rule mset_eq_setD [OF p(1)])
  have "mset (map ws_ID p) = mset (map ws_ID steps)" using p(1) by simp
  then have dp: "distinct (map ws_ID p)" using assms(2) mset_eq_imp_distinct_iff by blast
  obtain byID where i: "index_steps steps fmempty = Inr byID" using index_steps_ok [OF assms(1,2), of fmempty] by auto
  note look = index_steps_lookup [OF i]
  have known: "fmlookup byID d \<noteq> None" if d: "d \<in> ws_ID ` set steps" for d
  proof -
    obtain s where "s \<in> set steps" "ws_ID s = d" using d by blast
    then have "fmlookup byID d = Some s" using look by simp
    then show ?thesis by simp
  qed
  have "rank_ok r byID"
    unfolding rank_ok_def r_def
  proof (intro allI impI ballI)
    fix i s d assume s: "fmlookup byID i = Some s" and d: "d \<in> set (ws_DependsOn s)"
    then have "s \<in> set p" "ws_ID s = i" using look sp by auto
    then show "fmlookup byID d \<noteq> None \<and>
        the (find_index (\<lambda>t. ws_ID t = d) p) < the (find_index (\<lambda>t. ws_ID t = i) p)"
      using deps_first_rank [OF p(2) dp _ d] known sp by auto
  qed
  moreover have "\<forall>s \<in> set steps. fmlookup byID (ws_ID s) \<noteq> None" using known by blast
  ultimately obtain st where "visit_all byID ([], []) steps = Inr st" using visit_all_complete by blast
  then show ?thesis using i by (simp add: validateAndOrder_def)
qed

text \<open>
  C21: a workflow definition is accepted exactly when every step has an identifier and an action,
  identifiers are distinct, every dependency names a step and the dependencies have no cycle; the
  order it then gets is an order of its steps in which every step comes after its dependencies. The
  search always ends.
\<close>

theorem validateAndOrder_correct:
  "case validateAndOrder steps of
     Inr ordered \<Rightarrow> mset ordered = mset steps \<and> deps_first ordered \<and> distinct (map ws_ID steps) \<and>
       (\<forall>s \<in> set steps. ws_ID s \<noteq> [] \<and> act_Name (ws_Action s) \<noteq> [])
   | Inl _ \<Rightarrow> \<not> ((\<forall>s \<in> set steps. ws_ID s \<noteq> [] \<and> act_Name (ws_Action s) \<noteq> []) \<and> distinct (map ws_ID steps) \<and>
       (\<exists>p. mset p = mset steps \<and> deps_first p))"
proof (cases "validateAndOrder steps")
  case (Inl e)
  then show ?thesis using validateAndOrder_complete [of steps] by fastforce
next
  case (Inr ordered)
  then have o: "mset ordered = mset steps \<and> deps_first ordered \<and> distinct (map ws_ID ordered) \<and>
    (\<forall>s \<in> set steps. ws_ID s \<noteq> [] \<and> act_Name (ws_Action s) \<noteq> [])" by (rule validateAndOrder_sound)
  then have "mset (map ws_ID ordered) = mset (map ws_ID steps)" by simp
  then have "distinct (map ws_ID steps)" using o mset_eq_imp_distinct_iff by blast
  then show ?thesis using o Inr by simp
qed

definition demo_wf_step :: "string \<Rightarrow> string list \<Rightarrow> wf_step" where
  "demo_wf_step i ds = \<lparr>ws_ID = i, ws_Action = \<lparr>act_Name = ''run'', act_Version = []\<rparr>, ws_Input = VNil, ws_InputMap = None,
     ws_InputTemplate = VNil, ws_DependsOn = ds,
     ws_When = \<lparr>cond_StepID = [], cond_Equals = VNil, cond_Exists = False, cond_Not = False\<rparr>,
     ws_Retry = \<lparr>retry_MaxAttempts = 0, retry_Backoff = 0\<rparr>, ws_Timeout = 0, ws_ErrorPolicy = StepErrorFail,
     ws_IdempotencyKey = []\<rparr>"

theorem validateAndOrder_correct_witness:
  "validateAndOrder [demo_wf_step ''a'' [''b''], demo_wf_step ''b'' []] = Inr [demo_wf_step ''b'' [], demo_wf_step ''a'' [''b'']] \<and>
   deps_first [demo_wf_step ''b'' [], demo_wf_step ''a'' [''b'']] \<and>
   validateAndOrder [demo_wf_step ''a'' [''b''], demo_wf_step ''b'' [''a'']] = Inl (WfCycleAt ''a'') \<and>
   \<not> (\<exists>p. mset p = mset [demo_wf_step ''a'' [''b''], demo_wf_step ''b'' [''a'']] \<and> deps_first p)"
proof -
  have 1: "validateAndOrder [demo_wf_step ''a'' [''b''], demo_wf_step ''b'' []] =
      Inr [demo_wf_step ''b'' [], demo_wf_step ''a'' [''b'']]" by code_simp
  have 2: "validateAndOrder [demo_wf_step ''a'' [''b''], demo_wf_step ''b'' [''a'']] = Inl (WfCycleAt ''a'')" by code_simp
  show ?thesis
    using validateAndOrder_correct [of "[demo_wf_step ''a'' [''b''], demo_wf_step ''b'' []]"]
      validateAndOrder_correct [of "[demo_wf_step ''a'' [''b''], demo_wf_step ''b'' [''a'']]"] 1 2
    by (simp add: demo_wf_step_def)
qed

end
