(* ===== verification/Workflow_Exec.thy ===== *)
theory Workflow_Exec
  imports Workflow_Order
begin

text \<open>
  Executing a workflow (\<^verbatim>\<open>Executor\<close> of \<^verbatim>\<open>src/workflow/workflow.go\<close>): one step with its retries, steps one
  after the other, rounds of concurrent steps, and a whole run.

  What the executor cannot see into is a record of functions over a world state: whether the context
  is done and what the clock shows at the moment of a call, which action a reference resolves to, what
  an action answers, how a wait ends. Every call may change the world, so that two looks at the
  context may differ. A goroutine of a concurrent round has a world of its own, and the order in
  which the events of a round reach the log and the handler is an argument. A step whose input never
  finishes rendering makes the run not return: the result is then \<^term>\<open>None\<close>.
\<close>

section \<open>Events\<close>

record run_metadata =
  rm_SessionID :: string
  rm_AgentName :: string
  rm_ThreadID :: string
  rm_BranchID :: string
  rm_Trigger :: string
  rm_CommandPath :: "string list"

text \<open>The fields \<^verbatim>\<open>Queued\<close> and \<^verbatim>\<open>Started\<close> share.\<close>

record run_opened =
  ro_RunID :: string
  ro_WorkflowName :: string
  ro_Metadata :: run_metadata
  ro_Input :: value_ref
  ro_DefinitionHash :: string
  ro_DefinitionVersion :: string
  ro_At :: time

text \<open>The fields all step events share, and those of the events that end a run.\<close>

record step_info =
  si_RunID :: string
  si_WorkflowName :: string
  si_StepID :: string
  si_ActionName :: string
  si_ActionVersion :: string
  si_IdempotencyKey :: string
  si_At :: time

record run_closed =
  rc_RunID :: string
  rc_WorkflowName :: string
  rc_At :: time

datatype wf_event =
    Queued run_opened
  | Started run_opened
  | StepStarted step_info int
  | StepCompleted step_info int value_ref
  | StepFailed step_info int string
  | StepSkipped step_info string
  | Completed run_closed value_ref
  | Failed run_closed string
  | Canceled run_closed string
  | PtrEvent
  | OtherEvent string

type_synonym wf_result = "wf_event action_result"

section \<open>The environment\<close>

text \<open>
  A schema either accepts a value or says why not: the value does not marshal, or it does not match.
  The context error an action sees when it returns is the second component of its answer.
\<close>

datatype schema_error = NotSerializable string | SchemaMismatch string

record 'w wf_action =
  wa_Input :: "(go_value \<Rightarrow> schema_error option) option"
  wa_Output :: "(go_value \<Rightarrow> schema_error option) option"
  wa_Execute :: "go_value \<Rightarrow> 'w \<Rightarrow> wf_result \<times> go_ctx \<times> 'w"

record 'w wf_env =
  we_ctx :: "'w \<Rightarrow> go_ctx \<times> 'w"
  we_now :: "'w \<Rightarrow> time \<times> 'w"
  we_wait :: "int \<Rightarrow> 'w \<Rightarrow> go_ctx \<times> 'w"
  we_resolve :: "action_ref \<Rightarrow> 'w \<Rightarrow> 'w wf_action option \<times> 'w"

text \<open>The world, the events of the result and the events the handler was given.\<close>

record 'w wf_state =
  wx_world :: 'w
  wx_events :: "wf_event list"
  wx_handled :: "wf_event list"

definition wf_emit :: "'w wf_env \<Rightarrow> (time \<Rightarrow> wf_event) \<Rightarrow> 'w wf_state \<Rightarrow> 'w wf_state" where
  "wf_emit env ev x =
     (case we_now env (wx_world x) of (t, w) \<Rightarrow>
        x\<lparr>wx_world := w, wx_events := wx_events x @ [ev t], wx_handled := wx_handled x @ [ev t]\<rparr>)"

definition look_ctx :: "'w wf_env \<Rightarrow> 'w wf_state \<Rightarrow> go_ctx \<times> 'w wf_state" where
  "look_ctx env x = (case we_ctx env (wx_world x) of (c, w) \<Rightarrow> (c, x\<lparr>wx_world := w\<rparr>))"

text \<open>\<^verbatim>\<open>\%q\<close> of a string of printable bytes.\<close>

definition go_quote :: "string \<Rightarrow> string" where
  "go_quote s = CHR 0x22 # concat (map (\<lambda>c. if c = CHR 0x22 \<or> c = CHR 0x5C then [CHR 0x5C, c] else [c]) s) @ [CHR 0x22]"

definition validateActionValue ::
  "(go_value \<Rightarrow> schema_error option) option \<Rightarrow> go_value \<Rightarrow> string \<Rightarrow> string option" where
  "validateActionValue schema v role =
     (case schema of None \<Rightarrow> None | Some check \<Rightarrow>
        (case check v of
           None \<Rightarrow> None
         | Some (NotSerializable e) \<Rightarrow> Some (role @ '' is not JSON serializable: '' @ e)
         | Some (SchemaMismatch e) \<Rightarrow> Some (role @ '' does not match schema: '' @ e)))"

section \<open>One step\<close>

definition info_of :: "string \<Rightarrow> string \<Rightarrow> wf_step \<Rightarrow> time \<Rightarrow> step_info" where
  "info_of run nm s t = \<lparr>si_RunID = run, si_WorkflowName = nm, si_StepID = ws_ID s,
     si_ActionName = act_Name (ws_Action s), si_ActionVersion = act_Version (ws_Action s),
     si_IdempotencyKey = ws_IdempotencyKey s, si_At = t\<rparr>"

definition step_text :: "string \<Rightarrow> wf_step \<Rightarrow> string" where
  "step_text nm s = ''workflow '' @ go_quote nm @ '' step '' @ go_quote (ws_ID s)"

text \<open>
  After \<^verbatim>\<open>cancel()\<close> the context of an attempt is done: its error is the one it already had, or that it
  was cancelled.
\<close>

definition canceled_err :: "go_ctx \<Rightarrow> string" where
  "canceled_err c = (case c of Some e \<Rightarrow> e | None \<Rightarrow> ''context canceled'')"

text \<open>The error of an attempt, in the order the code looks for one.\<close>

definition attempt_error :: "string \<Rightarrow> wf_step \<Rightarrow> 'w wf_action \<Rightarrow> wf_result \<Rightarrow> go_ctx \<Rightarrow> string option" where
  "attempt_error nm s a r c =
     (case ar_Error r of
        Some e \<Rightarrow> Some e
      | None \<Rightarrow>
          if 0 < ws_Timeout s then Some (canceled_err c)
          else map_option (\<lambda>e. step_text nm s @ '' invalid output: '' @ e)
                 (validateActionValue (wa_Output a) (ar_Data r) ''output''))"

text \<open>
  The attempts of a step: how many are left, the number of the next one and the error of the last.
  The outcome is the result, whether the step was skipped, and the error.
\<close>

type_synonym step_outcome = "wf_result \<times> bool \<times> string option"

fun attempt_loop ::
  "'w wf_env \<Rightarrow> string \<Rightarrow> string \<Rightarrow> wf_step \<Rightarrow> 'w wf_action \<Rightarrow> go_value \<Rightarrow> nat \<Rightarrow> int \<Rightarrow> wf_result \<times> string \<Rightarrow>
     'w wf_state \<Rightarrow> step_outcome \<times> 'w wf_state" where
  "attempt_loop env run nm s a inp 0 k prev x =
     ((fst prev, False, Some (step_text nm s @ '' failed: '' @ snd prev)), x)"
| "attempt_loop env run nm s a inp (Suc n) k prev x =
     (let x1 = wf_emit env (\<lambda>t. StepStarted (info_of run nm s t) k) x in
      case wa_Execute a inp (wx_world x1) of
        (r, c, w) \<Rightarrow>
          (let x2 = x1\<lparr>wx_world := w, wx_events := wx_events x1 @ ar_Events r\<rparr>;
               err = attempt_error nm s a r c;
               r' = r\<lparr>ar_Error := err\<rparr>
           in case err of
                None \<Rightarrow>
                  ((r', False, None),
                   wf_emit env (\<lambda>t. StepCompleted (info_of run nm s t) k (valueRefFor (ar_Data r))) x2)
              | Some e \<Rightarrow>
                  (case look_ctx env (wf_emit env (\<lambda>t. StepFailed (info_of run nm s t) k e) x2) of
                     (Some ce, x4) \<Rightarrow> ((r', False, Some ce), x4)
                   | (None, x4) \<Rightarrow>
                       if 0 < n \<and> 0 < retry_Backoff (ws_Retry s) then
                         (case we_wait env (retry_Backoff (ws_Retry s)) (wx_world x4) of
                            (Some ce, w') \<Rightarrow> ((r', False, Some ce), x4\<lparr>wx_world := w'\<rparr>)
                          | (None, w') \<Rightarrow> attempt_loop env run nm s a inp n (k + 1) (r', e) (x4\<lparr>wx_world := w'\<rparr>))
                       else attempt_loop env run nm s a inp n (k + 1) (r', e) x4)))"

definition failed_result :: "string \<Rightarrow> wf_result" where
  "failed_result e = no_action_result\<lparr>ar_Error := Some e\<rparr>"

definition max_attempts :: "wf_step \<Rightarrow> nat" where
  "max_attempts s = (if retry_MaxAttempts (ws_Retry s) \<le> 0 then 1 else nat (retry_MaxAttempts (ws_Retry s)))"

definition executeStep ::
  "'w wf_env \<Rightarrow> string \<Rightarrow> string \<Rightarrow> wf_step \<Rightarrow> go_value \<Rightarrow> wf_event wf_results \<Rightarrow> 'w wf_state \<Rightarrow>
     (step_outcome \<times> 'w wf_state) option" where
  "executeStep env run nm s initial results x =
     (case look_ctx env x of
        (Some e, x1) \<Rightarrow> Some ((failed_result e, False, Some e), x1)
      | (None, x1) \<Rightarrow>
          if \<not> conditionMatches (ws_When s) results then
            Some ((no_action_result, True, None),
              wf_emit env (\<lambda>t. StepSkipped (info_of run nm s t) ''condition false'') x1)
          else case we_resolve env (ws_Action s) (wx_world x1) of
            (None, w) \<Rightarrow>
              (let e = step_text nm s @ '' action '' @ go_quote (act_Name (ws_Action s)) @ '' not found''
               in Some ((failed_result e, False, Some e), x1\<lparr>wx_world := w\<rparr>))
          | (Some a, w) \<Rightarrow>
              (let x2 = x1\<lparr>wx_world := w\<rparr> in
               case stepInput s initial results of
                 None \<Rightarrow> None
               | Some inp \<Rightarrow>
                   (case validateActionValue (wa_Input a) inp ''input'' of
                      Some e0 \<Rightarrow>
                        (let e = step_text nm s @ '' invalid input: '' @ e0
                         in Some ((failed_result e, False, Some e),
                              wf_emit env (\<lambda>t. StepFailed (info_of run nm s t) 1 e) x2))
                    | None \<Rightarrow>
                        Some (attempt_loop env run nm s a inp (max_attempts s) 1 (no_action_result, []) x2))))"

section \<open>All steps\<close>

text \<open>The results so far, the data of the last step that ran, and the error.\<close>

type_synonym steps_outcome = "wf_event wf_results \<times> go_value \<times> string option"

fun executeSequential ::
  "'w wf_env \<Rightarrow> string \<Rightarrow> string \<Rightarrow> go_value \<Rightarrow> wf_step list \<Rightarrow> wf_event wf_results \<Rightarrow> go_value \<Rightarrow> 'w wf_state \<Rightarrow>
     (steps_outcome \<times> 'w wf_state) option" where
  "executeSequential env run nm initial [] results prev x = Some ((results, prev, None), x)"
| "executeSequential env run nm initial (s # ss) results prev x =
     (case executeStep env run nm s initial results x of
        None \<Rightarrow> None
      | Some ((r, skipped, err), x') \<Rightarrow>
          (let results' = fmupd (ws_ID s) r results in
           case err of
             Some e \<Rightarrow>
               if ws_ErrorPolicy s = StepErrorContinue
               then executeSequential env run nm initial ss results' prev x'
               else Some ((results', prev, Some e), x')
           | None \<Rightarrow>
               executeSequential env run nm initial ss results' (if skipped then prev else ar_Data r) x'))"

definition readySteps :: "wf_step list \<Rightarrow> string list \<Rightarrow> wf_step list" where
  "readySteps ordered finished =
     filter (\<lambda>s. ws_ID s \<notin> set finished \<and> (\<forall>d \<in> set (ws_DependsOn s). d \<in> set finished)) ordered"

text \<open>
  What the scheduler decides: the world each goroutine of a round starts in, the world after the
  round, and how the events of a round are interleaved.
\<close>

record 'w wf_schedule =
  sc_start :: "nat \<Rightarrow> nat \<Rightarrow> 'w"
  sc_after :: "nat \<Rightarrow> 'w"
  sc_events :: "nat \<Rightarrow> wf_event list list \<Rightarrow> wf_event list"
  sc_handled :: "nat \<Rightarrow> wf_event list list \<Rightarrow> wf_event list"

fun run_round ::
  "'w wf_env \<Rightarrow> string \<Rightarrow> string \<Rightarrow> go_value \<Rightarrow> wf_event wf_results \<Rightarrow> (nat \<Rightarrow> 'w) \<Rightarrow> nat \<Rightarrow> wf_step list \<Rightarrow>
     (wf_step \<times> step_outcome \<times> 'w wf_state) list option" where
  "run_round env run nm initial results start i [] = Some []"
| "run_round env run nm initial results start i (s # ss) =
     (case executeStep env run nm s initial results \<lparr>wx_world = start i, wx_events = [], wx_handled = []\<rparr> of
        None \<Rightarrow> None
      | Some (out, x) \<Rightarrow> map_option ((#) (s, out, x)) (run_round env run nm initial results start (Suc i) ss))"

text \<open>The loop over the outcomes of a round.\<close>

fun collect ::
  "(wf_step \<times> step_outcome \<times> 'w wf_state) list \<Rightarrow> wf_event wf_results \<Rightarrow> string list \<Rightarrow> go_value \<Rightarrow>
     wf_event wf_results \<times> string list \<times> go_value \<times> string option" where
  "collect [] results finished prev = (results, finished, prev, None)"
| "collect ((s, (r, skipped, err), x) # os) results finished prev =
     (let results' = fmupd (ws_ID s) r results; finished' = List.insert (ws_ID s) finished in
      case err of
        Some e \<Rightarrow>
          if ws_ErrorPolicy s \<noteq> StepErrorContinue then (results', finished', prev, Some e)
          else collect os results' finished' prev
      | None \<Rightarrow> collect os results' finished' (if skipped then prev else ar_Data r))"

definition no_runnable :: "string \<Rightarrow> string" where
  "no_runnable nm = ''workflow '' @ go_quote nm @ '' has no runnable steps; dependency state is incomplete''"

lemma collect_finished:
  assumes "collect os results finished prev = (results', finished', prev', None)"
  shows "finished' = fold List.insert (map (\<lambda>(s, _, _). ws_ID s) os) finished"
  using assms
proof (induction os arbitrary: results finished prev)
  case (Cons out os)
  obtain s r skipped err x where o: "out = (s, (r, skipped, err), x)" by (metis prod_cases3 prod.exhaust)
  with Cons show ?case by (auto simp: Let_def split: option.splits if_splits)
qed simp

lemma run_round_steps:
  "run_round env run nm initial results start i ss = Some os \<Longrightarrow> map fst os = ss"
  by (induction ss arbitrary: i os) (auto split: option.splits)

lemma fold_insert_set: "set (fold List.insert xs ys) = set xs \<union> set ys"
  by (induction xs arbitrary: ys) auto

text \<open>A round that ends without an error has marked every step it ran as done.\<close>

lemma round_finished:
  assumes "run_round env run nm initial results start i ss = Some os"
    and "collect os results finished prev = (results', finished', prev', None)"
  shows "set finished' = ws_ID ` set ss \<union> set finished"
proof -
  have "map (\<lambda>(s, _, _). ws_ID s) os = map ws_ID ss"
    using run_round_steps [OF assms(1)] by (auto split: prod.splits)
  then show ?thesis using collect_finished [OF assms(2)] by (simp add: fold_insert_set)
qed

text \<open>A step that is ready is not done, so a round of ready steps makes progress.\<close>

lemma ready_progress:
  assumes "take (max 1 limit) (readySteps ordered finished) \<noteq> []"
    and "set finished' = ws_ID ` set (take (max 1 limit) (readySteps ordered finished)) \<union> set finished"
  shows "length (remdups finished) < length (remdups finished')"
proof -
  obtain s where s: "s \<in> set (take (max 1 limit) (readySteps ordered finished))"
    using assms(1) by (meson list.set_sel(1))
  then have "ws_ID s \<notin> set finished" by (auto simp: readySteps_def dest: in_set_takeD)
  then have "set finished \<subset> set finished'" using s assms(2) by blast
  then show ?thesis by (metis List.finite_set length_remdups_card_conv psubset_card_mono)
qed

lemma round_progress:
  assumes "take (max 1 limit) (readySteps ordered finished) \<noteq> []"
    and "run_round env run nm initial results start i (take (max 1 limit) (readySteps ordered finished)) = Some os"
    and "(results', p) = collect os results finished prev" "(finished', q) = p" "(prev', None) = q"
  shows "length (remdups finished) < length (remdups finished')"
  using ready_progress [OF assms(1) round_finished [OF assms(2)]] assms(3-5) by metis

function parallel_loop ::
  "'w wf_env \<Rightarrow> 'w wf_schedule \<Rightarrow> string \<Rightarrow> string \<Rightarrow> go_value \<Rightarrow> nat \<Rightarrow> wf_step list \<Rightarrow> nat \<Rightarrow>
     wf_event wf_results \<Rightarrow> string list \<Rightarrow> go_value \<Rightarrow> 'w wf_state \<Rightarrow> (steps_outcome \<times> 'w wf_state) option" where
  "parallel_loop env sch run nm initial limit ordered rnd results finished prev x =
     (if \<not> length (remdups finished) < length ordered then Some ((results, prev, None), x)
      else case look_ctx env x of
        (Some e, x1) \<Rightarrow> Some ((results, prev, Some e), x1)
      | (None, x1) \<Rightarrow>
          (let ready = take (max 1 limit) (readySteps ordered finished) in
           if ready = [] then Some ((results, prev, Some (no_runnable nm)), x1)
           else case run_round env run nm initial results (sc_start sch rnd) 0 ready of
             None \<Rightarrow> None
           | Some os \<Rightarrow>
               (let x2 = \<lparr>wx_world = sc_after sch rnd,
                      wx_events = wx_events x1 @ sc_events sch rnd (map (\<lambda>(_, _, y). wx_events y) os),
                      wx_handled = wx_handled x1 @ sc_handled sch rnd (map (\<lambda>(_, _, y). wx_handled y) os)\<rparr>
                in case collect os results finished prev of
                     (results', finished', prev', Some e) \<Rightarrow> Some ((results', prev', Some e), x2)
                   | (results', finished', prev', None) \<Rightarrow>
                       parallel_loop env sch run nm initial limit ordered (Suc rnd) results' finished' prev' x2)))"
  by pat_completeness auto

termination
proof (relation "measure (\<lambda>(env, sch, run, nm, initial, limit, ordered, rnd, results, finished, prev, x).
    length ordered - length (remdups finished))", goal_cases)
  case (2 env sch run nm initial limit ordered rnd results finished prev x)
  note round_progress [OF 2(5,6) [unfolded 2(4)] 2(8,9) 2(10) [unfolded 2(11)]]
  with 2(1) show ?case by simp
qed auto

declare parallel_loop.simps [simp del]

section \<open>A run\<close>

record executor =
  ex_Resolver :: bool
  ex_RunID :: string
  ex_Metadata :: run_metadata
  ex_Input :: value_ref
  ex_DefinitionHash :: string
  ex_DefinitionVersion :: string
  ex_MaxConcurrency :: int

text \<open>\<^verbatim>\<open>Result\<close>, and the action result that carries it.\<close>

record run_output =
  ou_RunID :: string
  ou_StepResults :: "wf_event wf_results"
  ou_Data :: go_value

record run_result =
  rr_Data :: "run_output option"
  rr_Error :: "string option"
  rr_Events :: "wf_event list"

definition executor_runID :: "executor \<Rightarrow> string \<Rightarrow> string" where
  "executor_runID e fresh = (if ex_RunID e \<noteq> [] then ex_RunID e else fresh)"

fun order_text :: "order_error \<Rightarrow> string" where
  "order_text WfStepIDRequired = ''workflow step id is required''"
| "order_text (WfActionNameRequired i) = ''workflow step '' @ go_quote i @ '' action name is required''"
| "order_text (WfDuplicateStep i) = ''duplicate workflow step '' @ go_quote i"
| "order_text (WfCycleAt i) = ''workflow contains dependency cycle at step '' @ go_quote i"
| "order_text (WfStepMissing i) = ''workflow step '' @ go_quote i @ '' not found''"
| "order_text (WfUnknownDependency i d) = ''workflow step '' @ go_quote i @ '' depends on unknown step '' @ go_quote d"

definition executeParallel ::
  "'w wf_env \<Rightarrow> 'w wf_schedule \<Rightarrow> string \<Rightarrow> string \<Rightarrow> go_value \<Rightarrow> int \<Rightarrow> wf_step list \<Rightarrow> 'w wf_state \<Rightarrow>
     (steps_outcome \<times> 'w wf_state) option" where
  "executeParallel env sch run nm initial concurrency ordered x =
     parallel_loop env sch run nm initial (nat concurrency) ordered 0 fmempty [] initial x"

definition executeSteps ::
  "'w wf_env \<Rightarrow> 'w wf_schedule \<Rightarrow> string \<Rightarrow> string \<Rightarrow> go_value \<Rightarrow> int \<Rightarrow> wf_step list \<Rightarrow> 'w wf_state \<Rightarrow>
     (steps_outcome \<times> 'w wf_state) option" where
  "executeSteps env sch run nm initial concurrency ordered x =
     (if concurrency \<le> 1 then executeSequential env run nm initial ordered fmempty initial x
      else executeParallel env sch run nm initial concurrency ordered x)"

text \<open>The closures \<^verbatim>\<open>cancel\<close> and \<^verbatim>\<open>fail\<close>.\<close>

definition cancel_run ::
  "'w wf_env \<Rightarrow> string \<Rightarrow> string \<Rightarrow> string \<Rightarrow> run_output option \<Rightarrow> 'w wf_state \<Rightarrow> run_result \<times> 'w wf_state" where
  "cancel_run env run nm reason data x =
     (let x1 = wf_emit env (\<lambda>t. Canceled \<lparr>rc_RunID = run, rc_WorkflowName = nm, rc_At = t\<rparr> reason) x in
      case look_ctx env x1 of
        (c, x2) \<Rightarrow> (\<lparr>rr_Data = data, rr_Error = c, rr_Events = wx_events x2\<rparr>, x2))"

definition fail_run ::
  "'w wf_env \<Rightarrow> string \<Rightarrow> string \<Rightarrow> string \<Rightarrow> run_output option \<Rightarrow> 'w wf_state \<Rightarrow> run_result \<times> 'w wf_state" where
  "fail_run env run nm e data x =
     (let x1 = wf_emit env (\<lambda>t. Failed \<lparr>rc_RunID = run, rc_WorkflowName = nm, rc_At = t\<rparr> e) x in
      (\<lparr>rr_Data = data, rr_Error = Some e, rr_Events = wx_events x1\<rparr>, x1))"

text \<open>What follows the steps.\<close>

definition finish_run ::
  "'w wf_env \<Rightarrow> string \<Rightarrow> string \<Rightarrow> wf_event wf_results \<Rightarrow> go_value \<Rightarrow> string option \<Rightarrow> 'w wf_state \<Rightarrow>
     run_result \<times> 'w wf_state" where
  "finish_run env run nm results prev err x =
     (let out = \<lparr>ou_RunID = run, ou_StepResults = results, ou_Data = prev\<rparr> in
      case err of
        Some ee \<Rightarrow>
          (case look_ctx env x of
             (Some ce, x1) \<Rightarrow> cancel_run env run nm ce (Some out) x1
           | (None, x1) \<Rightarrow> fail_run env run nm ee (Some out) x1)
      | None \<Rightarrow>
          (let x1 = wf_emit env (\<lambda>t. Completed \<lparr>rc_RunID = run, rc_WorkflowName = nm, rc_At = t\<rparr> (valueRefFor prev)) x
           in (\<lparr>rr_Data = Some out, rr_Error = None, rr_Events = wx_events x1\<rparr>, x1)))"

text \<open>
  The hash of a definition and the fresh run identifier are arguments: the one is SHA-256, the other
  random.
\<close>

definition Execute ::
  "'w wf_env \<Rightarrow> 'w wf_schedule \<Rightarrow> executor \<Rightarrow> (wf_definition \<Rightarrow> string) \<Rightarrow> string \<Rightarrow> wf_definition \<Rightarrow> go_value \<Rightarrow>
     'w \<Rightarrow> (run_result \<times> 'w wf_state) option" where
  "Execute env sch e hash fresh def inp w =
     (let run = executor_runID e fresh; nm = wd_Name def in
      case look_ctx env \<lparr>wx_world = w, wx_events = [], wx_handled = []\<rparr> of
        (Some ce, x) \<Rightarrow> Some (cancel_run env run nm ce None x)
      | (None, x) \<Rightarrow>
          if \<not> ex_Resolver e then
            Some (fail_run env run nm (''workflow '' @ go_quote nm @ '' has no action resolver'') None x)
          else case validateAndOrder (wd_Steps def) of
            Inl oe \<Rightarrow> Some (fail_run env run nm (order_text oe) None x)
          | Inr ordered \<Rightarrow>
              (let h = (if ex_DefinitionHash e = [] then hash def else ex_DefinitionHash e);
                   v = (if ex_DefinitionVersion e = [] then wd_Version def else ex_DefinitionVersion e);
                   x1 = wf_emit env (\<lambda>t. Started \<lparr>ro_RunID = run, ro_WorkflowName = nm, ro_Metadata = ex_Metadata e,
                          ro_Input = ex_Input e, ro_DefinitionHash = h, ro_DefinitionVersion = v, ro_At = t\<rparr>) x
               in case executeSteps env sch run nm inp (ex_MaxConcurrency e) ordered x1 of
                    None \<Rightarrow> None
                  | Some ((results, prev, err), x2) \<Rightarrow> Some (finish_run env run nm results prev err x2)))"

section \<open>The events of a step\<close>

lemma wf_emit_handled: "\<exists>t. wx_handled (wf_emit env ev x) = wx_handled x @ [ev t]"
  by (auto simp: wf_emit_def split: prod.splits)

lemma look_ctx_logs:
  assumes "look_ctx env x = (c, x')"
  shows "wx_handled x' = wx_handled x" "wx_events x' = wx_events x" "c = fst (we_ctx env (wx_world x))"
  using assms by (auto simp: look_ctx_def split: prod.splits)

text \<open>
  The events the attempts of a step give the handler: each attempt is announced, then failed or
  completed; nothing follows a completed attempt, whose data is the last argument.
\<close>

inductive attempt_log ::
  "string \<Rightarrow> string \<Rightarrow> wf_step \<Rightarrow> int \<Rightarrow> nat \<Rightarrow> wf_event list \<Rightarrow> go_value option \<Rightarrow> bool" for run nm s where
  spent: "attempt_log run nm s k 0 [] None"
| completed: "attempt_log run nm s k (Suc n)
    [StepStarted (info_of run nm s t) k, StepCompleted (info_of run nm s u) k (valueRefFor d)] (Some d)"
| stopped: "attempt_log run nm s k (Suc n) [StepStarted (info_of run nm s t) k, StepFailed (info_of run nm s u) k e] None"
| again: "attempt_log run nm s (k + 1) n es d \<Longrightarrow>
    attempt_log run nm s k (Suc n) (StepStarted (info_of run nm s t) k # StepFailed (info_of run nm s u) k e # es) d"

fun attempts_of :: "wf_event list \<Rightarrow> int list" where
  "attempts_of [] = []"
| "attempts_of (StepStarted i k # es) = k # attempts_of es"
| "attempts_of (e # es) = attempts_of es"

definition completes :: "wf_event \<Rightarrow> bool" where
  "completes e = (case e of StepCompleted i k v \<Rightarrow> True | _ \<Rightarrow> False)"

lemma completes_simps [simp]:
  "completes (StepCompleted i k v)" "\<not> completes (StepStarted i k)" "\<not> completes (StepFailed i k e)"
  "\<not> completes (StepSkipped i e)"
  by (simp_all add: completes_def)

lemma attempt_log_numbers:
  "attempt_log run nm s k n es d \<Longrightarrow> \<exists>m \<le> n. attempts_of es = map (\<lambda>i. k + int i) [0..<m]"
proof (induction rule: attempt_log.induct)
  case (again k n es d t u e)
  then obtain m where m: "m \<le> n" "attempts_of es = map (\<lambda>i. k + 1 + int i) [0..<m]" by blast
  have "map (\<lambda>i. k + int i) [0..<Suc m] = k # map (\<lambda>i. k + 1 + int i) [0..<m]"
    by (subst upt_conv_Cons) (simp_all add: map_Suc_upt [symmetric] del: upt_Suc)
  with m show ?case by (intro exI [of _ "Suc m"]) auto
next
  case (completed k n t u d)
  then show ?case by (intro exI [of _ 1]) auto
next
  case (stopped k n t u e)
  then show ?case by (intro exI [of _ 1]) auto
qed simp

lemma attempt_log_completed:
  "attempt_log run nm s k n es d \<Longrightarrow>
   (case d of None \<Rightarrow> \<forall>e \<in> set es. \<not> completes e
    | Some v \<Rightarrow> attempts_of es \<noteq> [] \<and> es \<noteq> [] \<and> (\<forall>e \<in> set (butlast es). \<not> completes e) \<and>
        (\<exists>t. last es = StepCompleted (info_of run nm s t) (last (attempts_of es)) (valueRefFor v)))"
  by (induction rule: attempt_log.induct) (auto split: option.splits)

lemma attempt_loop_log:
  assumes "attempt_loop env run nm s a inp n k prev x = ((r, skipped, err), x')"
  shows "\<exists>es. wx_handled x' = wx_handled x @ es \<and> \<not> skipped \<and> (err = None \<longrightarrow> ar_Error r = None \<and> ws_Timeout s \<le> 0) \<and>
    attempt_log run nm s k n es (if err = None then Some (ar_Data r) else None)"
  using assms
proof (induction n arbitrary: k prev x)
  case 0
  then show ?case by (auto intro: attempt_log.spent)
next
  case (Suc n)
  let ?x1 = "wf_emit env (\<lambda>t. StepStarted (info_of run nm s t) k) x"
  obtain t where t: "wx_handled ?x1 = wx_handled x @ [StepStarted (info_of run nm s t) k]"
    using wf_emit_handled by blast
  obtain q c w where ex: "wa_Execute a inp (wx_world ?x1) = (q, c, w)" by (metis prod_cases3)
  let ?x2 = "?x1\<lparr>wx_world := w, wx_events := wx_events ?x1 @ ar_Events q\<rparr>"
  show ?case
  proof (cases "attempt_error nm s a q c")
    case None
    obtain u where "wx_handled (wf_emit env (\<lambda>t. StepCompleted (info_of run nm s t) k (valueRefFor (ar_Data q))) ?x2) =
        wx_handled ?x2 @ [StepCompleted (info_of run nm s u) k (valueRefFor (ar_Data q))]"
      using wf_emit_handled by blast
    moreover have "ws_Timeout s \<le> 0" using None by (auto simp: attempt_error_def split: option.splits if_splits)
    ultimately show ?thesis using Suc.prems None ex t attempt_log.completed [of run nm s k n t u "ar_Data q"]
      by (auto simp: Let_def)
  next
    case (Some e)
    let ?x3 = "wf_emit env (\<lambda>t. StepFailed (info_of run nm s t) k e) ?x2"
    obtain u where u: "wx_handled ?x3 = wx_handled ?x2 @ [StepFailed (info_of run nm s u) k e]"
      using wf_emit_handled by blast
    obtain ce x4 where c: "look_ctx env ?x3 = (ce, x4)" by fastforce
    have h: "wx_handled x4 = wx_handled x @ [StepStarted (info_of run nm s t) k, StepFailed (info_of run nm s u) k e]"
      using look_ctx_logs(1) [OF c] u t by simp
    have loop: ?thesis if "attempt_loop env run nm s a inp n (k + 1) p y = ((r, skipped, err), x')"
      "wx_handled y = wx_handled x4" for p y
    proof -
      from Suc.IH [OF that(1)] obtain es where "wx_handled x' = wx_handled y @ es" "\<not> skipped"
        "err = None \<longrightarrow> ar_Error r = None \<and> ws_Timeout s \<le> 0"
        "attempt_log run nm s (k + 1) n es (if err = None then Some (ar_Data r) else None)" by blast
      then show ?thesis using that(2) h attempt_log.again [of run nm s k n es _ t u e] by simp
    qed
    have stop: ?thesis if "err \<noteq> None" "\<not> skipped" "wx_handled x' = wx_handled x4"
      using that h attempt_log.stopped [of run nm s k n t u e] by auto
    show ?thesis using Suc.prems Some ex c loop stop
      by (auto simp: Let_def split: option.splits if_splits prod.splits)
  qed
qed

lemma executeStep_cases:
  assumes "executeStep env run nm s initial results x = Some ((r, skipped, err), x')"
  obtains (done_ctx) e where "err = Some e" "\<not> skipped" "wx_handled x' = wx_handled x"
    "fst (we_ctx env (wx_world x)) = Some e"
  | (skip) t where "err = None" skipped "r = no_action_result" "\<not> conditionMatches (ws_When s) results"
      "wx_handled x' = wx_handled x @ [StepSkipped (info_of run nm s t) ''condition false'']"
  | (missing) e where "err = Some e" "\<not> skipped" "wx_handled x' = wx_handled x"
  | (input) t e where "err = Some e" "\<not> skipped"
      "wx_handled x' = wx_handled x @ [StepFailed (info_of run nm s t) 1 e]"
  | (ran) es where "\<not> skipped" "wx_handled x' = wx_handled x @ es"
      "err = None \<longrightarrow> ar_Error r = None \<and> ws_Timeout s \<le> 0"
      "attempt_log run nm s 1 (max_attempts s) es (if err = None then Some (ar_Data r) else None)"
proof -
  obtain c x1 where c: "look_ctx env x = (c, x1)" by fastforce
  note l = look_ctx_logs [OF c]
  show thesis
  proof (cases "c = None \<and> conditionMatches (ws_When s) results")
    case False
    show ?thesis
    proof (cases c)
      case None
      with False show ?thesis
        using assms c l(1) wf_emit_handled [of env "\<lambda>t. StepSkipped (info_of run nm s t) ''condition false''" x1]
        by (auto simp: executeStep_def intro: skip)
    next
      case (Some e)
      then show ?thesis using assms c l by (intro done_ctx [of e]) (simp_all add: executeStep_def)
    qed
  next
    case True
    obtain ao w where a: "we_resolve env (ws_Action s) (wx_world x1) = (ao, w)" by fastforce
    show ?thesis
    proof (cases ao)
      case None
      then show ?thesis using assms c l True a by (auto simp: executeStep_def Let_def intro: missing)
    next
      case (Some act)
      then obtain inp where i: "stepInput s initial results = Some inp"
        using assms c True a by (auto simp: executeStep_def Let_def split: option.splits)
      show ?thesis
      proof (cases "validateActionValue (wa_Input act) inp ''input''")
        case None
        then have "attempt_loop env run nm s act inp (max_attempts s) 1 (no_action_result, []) (x1\<lparr>wx_world := w\<rparr>) =
            ((r, skipped, err), x')" using assms c True a Some i by (simp add: executeStep_def Let_def)
        from attempt_loop_log [OF this] l show ?thesis by (auto intro: ran)
      next
        case (Some e0)
        let ?e = "step_text nm s @ '' invalid input: '' @ e0"
        show ?thesis
          using assms c l True a i Some \<open>ao = Some act\<close>
            wf_emit_handled [of env "\<lambda>t. StepFailed (info_of run nm s t) 1 ?e" "x1\<lparr>wx_world := w\<rparr>"]
          by (auto simp: executeStep_def Let_def intro: input)
      qed
    qed
  qed
qed

section \<open>Which results a step sees\<close>

text \<open>
  A result is justified when it is what the step gave on a part of the results that held every
  dependency of the step; under the flag, the step gave no error or tolerates errors. An error is a
  step's fault when a step that does not tolerate errors gave it on such a part of the results.
\<close>

definition gave ::
  "'w wf_env \<Rightarrow> string \<Rightarrow> string \<Rightarrow> go_value \<Rightarrow> wf_event wf_results \<Rightarrow> wf_step \<Rightarrow> wf_result \<Rightarrow> string option \<Rightarrow> bool" where
  "gave env run nm initial results s r err \<longleftrightarrow>
     (\<exists>rs x skipped x'. fmsubset rs results \<and> set (ws_DependsOn s) \<subseteq> fmdom' rs \<and>
        executeStep env run nm s initial rs x = Some ((r, skipped, err), x'))"

definition justified ::
  "bool \<Rightarrow> 'w wf_env \<Rightarrow> string \<Rightarrow> string \<Rightarrow> go_value \<Rightarrow> wf_event wf_results \<Rightarrow> wf_step \<Rightarrow> bool" where
  "justified strict env run nm initial results s \<longleftrightarrow>
     (\<exists>r err. gave env run nm initial results s r err \<and> fmlookup results (ws_ID s) = Some r \<and>
        (strict \<longrightarrow> err = None \<or> ws_ErrorPolicy s = StepErrorContinue))"

definition dataflow ::
  "bool \<Rightarrow> 'w wf_env \<Rightarrow> string \<Rightarrow> string \<Rightarrow> go_value \<Rightarrow> wf_step list \<Rightarrow> wf_event wf_results \<Rightarrow> bool" where
  "dataflow strict env run nm initial ordered results \<longleftrightarrow> fmdom' results \<subseteq> ws_ID ` set ordered \<and>
     (\<forall>s \<in> set ordered. ws_ID s \<in> fmdom' results \<longrightarrow> justified strict env run nm initial results s)"

definition step_fault ::
  "'w wf_env \<Rightarrow> string \<Rightarrow> string \<Rightarrow> go_value \<Rightarrow> wf_step list \<Rightarrow> wf_event wf_results \<Rightarrow> string \<Rightarrow> bool" where
  "step_fault env run nm initial ordered results e \<longleftrightarrow>
     (\<exists>s \<in> set ordered. ws_ErrorPolicy s \<noteq> StepErrorContinue \<and> (\<exists>r. gave env run nm initial results s r (Some e)))"

lemma fmsubset_fmupd: "fmsubset rs m \<Longrightarrow> fmlookup m k = None \<Longrightarrow> fmsubset rs (fmupd k v m)"
  by (auto simp: fmsubset_alt_def fmpred_iff)

lemma fmsubset_same: "fmsubset m m"
  by (simp add: fmsubset.rep_eq)

lemma dataflow_empty: "dataflow strict env run nm initial ordered fmempty"
  by (simp add: dataflow_def)

lemma dataflow_weaken: "dataflow True env run nm initial ordered rs \<Longrightarrow> dataflow strict env run nm initial ordered rs"
  unfolding dataflow_def justified_def by blast

lemma gave_grows:
  assumes "gave env run nm initial results s r err" "fmlookup results k = None"
  shows "gave env run nm initial (fmupd k v results) s r err"
proof -
  from assms(1) obtain rs x skipped x' where "fmsubset rs results" "set (ws_DependsOn s) \<subseteq> fmdom' rs"
    "executeStep env run nm s initial rs x = Some ((r, skipped, err), x')" unfolding gave_def by blast
  with fmsubset_fmupd [OF this(1) assms(2)] show ?thesis unfolding gave_def by metis
qed

lemma gaveI:
  "executeStep env run nm s initial rs x = Some ((r, skipped, err), x') \<Longrightarrow> fmsubset rs results \<Longrightarrow>
   set (ws_DependsOn s) \<subseteq> fmdom' rs \<Longrightarrow> gave env run nm initial results s r err"
  unfolding gave_def by blast

lemma dataflow_add:
  assumes flow: "dataflow strict env run nm initial ordered results" "distinct (map ws_ID ordered)"
    and s: "s \<in> set ordered" "ws_ID s \<notin> fmdom' results" and r: "gave env run nm initial results s r err"
    and strict: "strict \<longrightarrow> err = None \<or> ws_ErrorPolicy s = StepErrorContinue"
  shows "dataflow strict env run nm initial ordered (fmupd (ws_ID s) r results)"
proof -
  have new: "fmlookup results (ws_ID s) = None" using s(2) by (simp add: fmdom'_notD)
  have "justified strict env run nm initial (fmupd (ws_ID s) r results) t"
    if t: "t \<in> set ordered" "ws_ID t \<in> fmdom' (fmupd (ws_ID s) r results)" for t
  proof (cases "t = s")
    case True
    show ?thesis unfolding True justified_def using gave_grows [OF r new] strict by auto
  next
    case False
    then have ne: "ws_ID t \<noteq> ws_ID s" using flow(2) s(1) t(1) by (auto simp: distinct_map dest: inj_onD)
    then have "justified strict env run nm initial results t" using flow(1) t by (simp add: dataflow_def)
    then obtain q er where "gave env run nm initial results t q er" "fmlookup results (ws_ID t) = Some q"
      "strict \<longrightarrow> er = None \<or> ws_ErrorPolicy t = StepErrorContinue" unfolding justified_def by blast
    then show ?thesis using ne gave_grows [OF _ new, of env run nm initial t q er r] unfolding justified_def by auto
  qed
  then show ?thesis using flow(1) s(1) by (auto simp: dataflow_def)
qed

text \<open>What the steps of a run leave: strict data flow to the end, or data flow and an error.\<close>

definition steps_post ::
  "'w wf_env \<Rightarrow> string \<Rightarrow> string \<Rightarrow> go_value \<Rightarrow> wf_step list \<Rightarrow> wf_event wf_results \<Rightarrow> string option \<Rightarrow> bool" where
  "steps_post env run nm initial ordered results err \<longleftrightarrow>
     (case err of
        None \<Rightarrow> dataflow True env run nm initial ordered results \<and> fmdom' results = ws_ID ` set ordered
      | Some e \<Rightarrow> dataflow False env run nm initial ordered results \<and>
          (step_fault env run nm initial ordered results e \<or> (\<exists>w. fst (we_ctx env w) = Some e)))"

lemma step_recorded:
  assumes "dataflow True env run nm initial ordered results" "distinct (map ws_ID ordered)"
    and "s \<in> set ordered" "ws_ID s \<notin> fmdom' results" and g: "gave env run nm initial results s r err"
  shows "err = None \<or> ws_ErrorPolicy s = StepErrorContinue \<Longrightarrow>
      dataflow True env run nm initial ordered (fmupd (ws_ID s) r results)"
    and "err = Some e \<Longrightarrow> ws_ErrorPolicy s \<noteq> StepErrorContinue \<Longrightarrow>
      steps_post env run nm initial ordered (fmupd (ws_ID s) r results) (Some e)"
proof -
  have new: "fmlookup results (ws_ID s) = None" using assms(4) by (simp add: fmdom'_notD)
  show "dataflow True env run nm initial ordered (fmupd (ws_ID s) r results)"
    if "err = None \<or> ws_ErrorPolicy s = StepErrorContinue"
    using dataflow_add [OF assms] that by blast
  show "steps_post env run nm initial ordered (fmupd (ws_ID s) r results) (Some e)"
    if "err = Some e" "ws_ErrorPolicy s \<noteq> StepErrorContinue"
    using dataflow_add [OF dataflow_weaken [OF assms(1)] assms(2-5)] gave_grows [OF g new] that assms(3)
    by (auto simp: steps_post_def step_fault_def)
qed

lemma executeSequential_flow:
  assumes "executeSequential env run nm initial ss results prev x = Some ((results', prev', err), x')"
    and "deps_first (pre @ ss)" "distinct (map ws_ID (pre @ ss))" "fmdom' results = ws_ID ` set pre"
    and "dataflow True env run nm initial (pre @ ss) results"
  shows "steps_post env run nm initial (pre @ ss) results' err"
  using assms
proof (induction ss arbitrary: pre results prev x)
  case Nil
  then show ?case by (simp add: steps_post_def)
next
  case (Cons s ss)
  obtain r skipped er x1 where st: "executeStep env run nm s initial results x = Some ((r, skipped, er), x1)"
    using Cons.prems(1) by (auto split: option.splits)
  have deps: "set (ws_DependsOn s) \<subseteq> fmdom' results"
    using Cons.prems(2) unfolding deps_first_def by (metis (no_types, lifting) Cons.prems(4) append_eq_conv_conj
        length_append length_Cons less_add_Suc1 add_Suc_right nth_append_length)
  have "ws_ID s \<notin> fmdom' results" using Cons.prems(3,4) by auto
  note rec = step_recorded [OF Cons.prems(5,3) _ this gaveI [OF st fmsubset_same deps]]
  have rest: ?case if "executeSequential env run nm initial ss (fmupd (ws_ID s) r results) p x1 =
      Some ((results', prev', err), x')" "er = None \<or> ws_ErrorPolicy s = StepErrorContinue" for p
    using Cons.IH [of "fmupd (ws_ID s) r results" p x1 "pre @ [s]"] that(1) rec(1) [OF _ that(2)] Cons.prems(2-4) by auto
  show ?case using Cons.prems(1) st rest rec(2) by (auto simp: Let_def split: option.splits if_splits)
qed

lemma run_round_outcomes:
  assumes "run_round env run nm initial results start i ss = Some os" "(s, out, y) \<in> set os"
  shows "s \<in> set ss \<and> (\<exists>x. executeStep env run nm s initial results x = Some (out, y))"
  using assms
proof (induction ss arbitrary: i os)
  case (Cons t ss)
  then obtain o1 y1 os1 where o: "executeStep env run nm t initial results \<lparr>wx_world = start i, wx_events = [], wx_handled = []\<rparr> =
      Some (o1, y1)" "run_round env run nm initial results start (Suc i) ss = Some os1" "os = (t, o1, y1) # os1"
    by (auto split: option.splits)
  show ?case
  proof (cases "(s, out, y) \<in> set os1")
    case True
    from Cons.IH [OF o(2) True] show ?thesis by simp
  next
    case False
    with Cons.prems(2) o(1,3) show ?thesis by auto
  qed
qed simp

lemma run_round_ids:
  assumes "run_round env run nm initial results start i ss = Some os"
  shows "map (\<lambda>(s, _, _). ws_ID s) os = map ws_ID ss"
  using run_round_steps [OF assms] by (auto simp: case_prod_beta)

lemma collect_flow:
  assumes "collect os results finished prev = (results', finished', prev', err)"
    and "\<forall>(s, out, y) \<in> set os. s \<in> set ordered \<and> set (ws_DependsOn s) \<subseteq> fmdom' rs \<and>
      (\<exists>x. executeStep env run nm s initial rs x = Some (out, y))"
    and "distinct (map (\<lambda>(s, _, _). ws_ID s) os)" "\<forall>(s, _, _) \<in> set os. ws_ID s \<notin> fmdom' results"
    and "fmsubset rs results" "fmdom' results = set finished" "distinct (map ws_ID ordered)"
    and "dataflow True env run nm initial ordered results"
  shows "case err of None \<Rightarrow> dataflow True env run nm initial ordered results' \<and> fmdom' results' = set finished'
    | Some e \<Rightarrow> steps_post env run nm initial ordered results' (Some e)"
  using assms
proof (induction os arbitrary: results finished prev)
  case Nil
  then show ?case by simp
next
  case (Cons out os)
  obtain s r skipped er y where o: "out = (s, (r, skipped, er), y)" by (metis prod_cases3 prod.exhaust)
  from Cons.prems(2) o obtain x where s: "s \<in> set ordered" "set (ws_DependsOn s) \<subseteq> fmdom' rs"
    and st: "executeStep env run nm s initial rs x = Some ((r, skipped, er), y)" by auto
  have new: "ws_ID s \<notin> fmdom' results" using Cons.prems(4) o by simp
  note rec = step_recorded [OF Cons.prems(8,7) s(1) new gaveI [OF st Cons.prems(5) s(2)]]
  have sub: "fmsubset rs (fmupd (ws_ID s) r results)"
    using Cons.prems(5) new by (intro fmsubset_fmupd) (simp_all add: fmdom'_notD)
  have dom: "fmdom' (fmupd (ws_ID s) r results) = set (List.insert (ws_ID s) finished)" using Cons.prems(6) by simp
  have fresh: "\<forall>(t, _, _) \<in> set os. ws_ID t \<notin> fmdom' (fmupd (ws_ID s) r results)"
    using Cons.prems(3,4) o by force
  have rest: ?case if "collect os (fmupd (ws_ID s) r results) (List.insert (ws_ID s) finished) p =
      (results', finished', prev', err)" "er = None \<or> ws_ErrorPolicy s = StepErrorContinue" for p
    using Cons.IH [OF that(1) _ _ fresh sub dom Cons.prems(7) rec(1) [OF that(2)]] Cons.prems(2,3) o by simp
  show ?case using Cons.prems(1) o rest rec(2) by (auto simp: Let_def split: option.splits if_splits)
qed

text \<open>While a step is left, one is ready: the first that is not done.\<close>

lemma ready_exists:
  assumes "deps_first ordered" "distinct (map ws_ID ordered)" "set finished \<subseteq> ws_ID ` set ordered"
    and "length (remdups finished) < length ordered"
  shows "readySteps ordered finished \<noteq> []"
proof -
  have "card (set finished) < card (ws_ID ` set ordered)"
    using assms(2,4) by (simp add: distinct_map card_image distinct_card length_remdups_card_conv)
  then have "\<not> ws_ID ` set ordered \<subseteq> set finished" by (metis List.finite_set card_mono not_le)
  then have ex: "\<exists>k < length ordered. ws_ID (ordered ! k) \<notin> set finished" by (metis imageE in_set_conv_nth subsetI)
  define k where "k = (LEAST k. k < length ordered \<and> ws_ID (ordered ! k) \<notin> set finished)"
  from LeastI_ex [OF ex] have k: "k < length ordered" "ws_ID (ordered ! k) \<notin> set finished" by (auto simp: k_def)
  have "ws_ID (ordered ! j) \<in> set finished" if "j < k" for j
    using not_less_Least [of j "\<lambda>k. k < length ordered \<and> ws_ID (ordered ! k) \<notin> set finished"] that k(1)
    by (auto simp: k_def)
  then have "ws_ID ` set (take k ordered) \<subseteq> set finished" using k(1) by (auto simp: in_set_conv_nth)
  moreover have "set (ws_DependsOn (ordered ! k)) \<subseteq> ws_ID ` set (take k ordered)"
    using assms(1) k(1) by (simp add: deps_first_def)
  ultimately have "ordered ! k \<in> set (readySteps ordered finished)" using k by (auto simp: readySteps_def)
  then show ?thesis by auto
qed

lemma parallel_loop_flow:
  assumes "parallel_loop env sch run nm initial limit ordered rnd results finished prev x = Some ((results', prev', err), x')"
    and "deps_first ordered" "distinct (map ws_ID ordered)" "fmdom' results = set finished"
    and "dataflow True env run nm initial ordered results"
  shows "steps_post env run nm initial ordered results' err"
  using assms
proof (induction env sch run nm initial limit ordered rnd results finished prev x rule: parallel_loop.induct)
  case (1 env sch run nm initial limit ordered rnd results finished prev x)
  have sub: "set finished \<subseteq> ws_ID ` set ordered" using 1(5,6) by (simp add: dataflow_def)
  obtain c x1 where c: "look_ctx env x = (c, x1)" by fastforce
  note cw = look_ctx_logs(3) [OF c]
  let ?ready = "take (max 1 limit) (readySteps ordered finished)"
  note unfold = parallel_loop.simps [of env sch run nm initial limit ordered rnd]
  show ?case
  proof (cases "length (remdups finished) < length ordered")
    case False
    have "card (ws_ID ` set ordered) \<le> card (set finished)"
      using False 1(4) by (simp add: distinct_map card_image distinct_card length_remdups_card_conv)
    then have "set finished = ws_ID ` set ordered" using sub by (metis List.finite_set card_seteq finite_imageI)
    then show ?thesis using 1(2) False 1(5,6) by (simp add: unfold steps_post_def)
  next
    case left: True
    show ?thesis
    proof (cases c)
      case (Some e)
      then have "\<exists>w. fst (we_ctx env w) = Some e" using cw by metis
      moreover have "results' = results" "err = Some e" using 1(2) left c Some by (simp_all add: unfold)
      ultimately show ?thesis using dataflow_weaken [OF 1(6), of False] by (simp add: steps_post_def)
    next
      case None
      have ready: "?ready \<noteq> []" using ready_exists [OF 1(3,4) sub left] by simp
      with 1(2) left c None obtain os where os: "run_round env run nm initial results (sc_start sch rnd) 0 ?ready = Some os"
        by (auto simp: unfold Let_def split: option.splits)
      obtain rs2 fin2 p2 er where co: "collect os results finished prev = (rs2, fin2, p2, er)" by (metis prod_cases4)
      have new: "\<forall>(s, out, y) \<in> set os. s \<in> set ordered \<and> set (ws_DependsOn s) \<subseteq> fmdom' results \<and> ws_ID s \<notin> fmdom' results \<and>
          (\<exists>x. executeStep env run nm s initial results x = Some (out, y))"
        using run_round_outcomes [OF os] 1(5) by (fastforce simp: readySteps_def dest: in_set_takeD)
      have "distinct (map ws_ID (readySteps ordered finished))"
        using 1(4) by (simp add: readySteps_def distinct_map_filter)
      then have "distinct (map (\<lambda>(s, _, _). ws_ID s) os)"
        unfolding run_round_ids [OF os] take_map [symmetric] by (rule distinct_take)
      with new have f: "case er of None \<Rightarrow> dataflow True env run nm initial ordered rs2 \<and> fmdom' rs2 = set fin2
          | Some e \<Rightarrow> steps_post env run nm initial ordered rs2 (Some e)"
        using collect_flow [OF co, of ordered results env run nm initial] fmsubset_same 1(4,5,6) by fast
      show ?thesis
      proof (cases er)
        case (Some e)
        then show ?thesis using 1(2) left c None ready os co f by (auto simp: unfold Let_def)
      next
        case none: None
        note IH = 1(1) [OF _ c [symmetric] None refl ready os refl co [symmetric] refl refl none]
        show ?thesis using 1(2,3,4) left c None ready os co f none IH by (auto simp: unfold Let_def)
      qed
    qed
  qed
qed

lemma executeSteps_flow:
  assumes "validateAndOrder steps = Inr ordered"
    and "executeSteps env sch run nm initial c ordered x = Some ((results, prev, err), x')"
  shows "steps_post env run nm initial ordered results err"
proof -
  note o = validateAndOrder_sound [OF assms(1)]
  show ?thesis
  proof (cases "c \<le> 1")
    case True
    with assms(2) executeSequential_flow [of env run nm initial ordered fmempty initial x results prev err x' "[]"] o
    show ?thesis by (simp add: executeSteps_def dataflow_empty)
  next
    case False
    with assms(2) o show ?thesis
      by (auto simp: executeSteps_def executeParallel_def dataflow_empty intro: parallel_loop_flow)
  qed
qed

section \<open>Execution returns\<close>

lemma executeStep_returns:
  "stepInput s initial results \<noteq> None \<Longrightarrow> executeStep env run nm s initial results x \<noteq> None"
  by (auto simp: executeStep_def Let_def simp del: not_None_eq split: prod.splits option.splits)

lemma executeSequential_returns:
  "(\<And>s rs. s \<in> set ss \<Longrightarrow> stepInput s initial (rs :: wf_event wf_results) \<noteq> None) \<Longrightarrow>
   executeSequential env run nm initial ss results prev x \<noteq> None"
proof (induction ss arbitrary: results prev x)
  case (Cons s ss)
  obtain r skipped er x1 where "executeStep env run nm s initial results x = Some ((r, skipped, er), x1)"
    using executeStep_returns [of s initial results env run nm x] Cons.prems [of s results] by (auto)
  with Cons show ?case by (auto simp: Let_def split: option.splits)
qed simp

lemma run_round_returns:
  "(\<And>s. s \<in> set ss \<Longrightarrow> stepInput s initial results \<noteq> None) \<Longrightarrow>
   run_round env run nm initial results start i ss \<noteq> None"
proof (induction ss arbitrary: i)
  case (Cons s ss)
  then show ?case
    using executeStep_returns [of s initial results env run nm "\<lparr>wx_world = start i, wx_events = [], wx_handled = []\<rparr>"]
    by (auto split: option.splits)
qed simp

lemma parallel_loop_returns:
  assumes "\<And>s rs. s \<in> set ordered \<Longrightarrow> stepInput s initial (rs :: wf_event wf_results) \<noteq> None"
  shows "parallel_loop env sch run nm initial limit ordered rnd results finished prev x \<noteq> None"
  using assms
proof (induction env sch run nm initial limit ordered rnd results finished prev x rule: parallel_loop.induct)
  case (1 env sch run nm initial limit ordered rnd results finished prev x)
  let ?ready = "take (max 1 limit) (readySteps ordered finished)"
  have "run_round env run nm initial results (sc_start sch rnd) 0 ?ready \<noteq> None"
    by (intro run_round_returns 1(2)) (auto simp: readySteps_def dest: in_set_takeD)
  then obtain os where os: "run_round env run nm initial results (sc_start sch rnd) 0 ?ready = Some os" by blast
  obtain c x1 where c: "look_ctx env x = (c, x1)" by fastforce
  obtain rs2 fin2 p2 er where co: "collect os results finished prev = (rs2, fin2, p2, er)" by (metis prod_cases4)
  show ?case
  proof (cases "length (remdups finished) < length ordered \<and> c = None \<and> ?ready \<noteq> [] \<and> er = None")
    case True
    then have k: "\<not> \<not> length (remdups finished) < length ordered" "c = None" "?ready \<noteq> []" "er = None" by simp_all
    show ?thesis
      using 1(1) [OF k(1) c [symmetric] k(2) refl k(3) os refl co [symmetric] refl refl k(4)] 1(2) k os co c
      by (simp add: parallel_loop.simps [of env sch run nm initial limit ordered rnd] Let_def)
  next
    case False
    with os co c show ?thesis
      by (auto simp: parallel_loop.simps [of env sch run nm initial limit ordered rnd] Let_def split: option.splits)
  qed
qed

lemma executeSteps_returns:
  assumes "\<And>s rs. s \<in> set ordered \<Longrightarrow> stepInput s initial (rs :: wf_event wf_results) \<noteq> None"
  shows "executeSteps env sch run nm initial c ordered x \<noteq> None"
  using executeSequential_returns [of ordered initial env run nm fmempty initial x]
    parallel_loop_returns [of ordered initial env sch run nm "nat c" 0 fmempty "[]" initial x] assms
  unfolding executeSteps_def executeParallel_def by presburger

end
