(* ===== verification/Workflow_Schedule.thy ===== *)
theory Workflow_Schedule
  imports Workflow_Exec
begin

text \<open>
  When a workflow's result does not depend on how its steps are scheduled: over a pure environment and
  steps that read only their dependencies, a run that succeeds under one schedule succeeds under every
  schedule, with the same step results.
\<close>

section \<open>Independence of the schedule\<close>

text \<open>
  A pure environment: the context stays live, a reference always resolves to the same action, and what
  an action answers depends on its input only. A step is plain when it reads nothing but the results
  of its dependencies.
\<close>

definition pure_env :: "'w wf_env \<Rightarrow> bool" where
  "pure_env env \<longleftrightarrow>
     (\<forall>w. fst (we_ctx env w) = None) \<and> (\<forall>n w. fst (we_wait env n w) = None) \<and>
     (\<forall>ref w w'. fst (we_resolve env ref w) = fst (we_resolve env ref w')) \<and>
     (\<forall>ref w a inp v v'. fst (we_resolve env ref w) = Some a \<longrightarrow>
        fst (wa_Execute a inp v) = fst (wa_Execute a inp v') \<and> fst (snd (wa_Execute a inp v)) = None)"

definition plain_step :: "wf_step \<Rightarrow> bool" where
  "plain_step s \<longleftrightarrow> (cond_StepID (ws_When s) = [] \<or> cond_StepID (ws_When s) \<in> set (ws_DependsOn s)) \<and>
     ws_InputMap s = None \<and> ws_InputTemplate s = VNil \<and> ws_Input s = VNil"

lemma attempt_loop_pure:
  assumes "\<And>w. fst (we_ctx env w) = None" "\<And>n w. fst (we_wait env n w) = None"
    and "\<And>v v'. fst (wa_Execute a inp v) = fst (wa_Execute a inp v') \<and> fst (snd (wa_Execute a inp v)) = None"
  shows "fst (attempt_loop env run nm s a inp n k prev x) = fst (attempt_loop env run nm s a inp n k prev y)"
proof (induction n arbitrary: k prev x y)
  case (Suc n)
  let ?e = "\<lambda>x. wf_emit env (\<lambda>t. StepStarted (info_of run nm s t) k) x"
  obtain r w w' where r: "wa_Execute a inp (wx_world (?e x)) = (r, None, w)" "wa_Execute a inp (wx_world (?e y)) = (r, None, w')"
    using assms(3) [of "wx_world (?e x)" "wx_world (?e y)"] assms(3) [of "wx_world (?e y)"] by (metis prod.collapse)
  have c: "\<exists>x'. look_ctx env x = (None, x')" for x using assms(1) [of "wx_world x"] by (auto simp: look_ctx_def split: prod.splits)
  have wt: "\<exists>w'. we_wait env n w = (None, w')" for n w using assms(2) by (metis prod.collapse)
  show ?case
  proof (cases "attempt_error nm s a r None")
    case None
    with r show ?thesis by (simp add: Let_def)
  next
    case (Some e)
    let ?f = "\<lambda>x w. wf_emit env (\<lambda>t. StepFailed (info_of run nm s t) k e)
      (?e x\<lparr>wx_world := w, wx_events := wx_events (?e x) @ ar_Events r\<rparr>)"
    obtain x4 y4 where l: "look_ctx env (?f x w) = (None, x4)" "look_ctx env (?f y w') = (None, y4)" using c by meson
    obtain w1 w2 where "we_wait env (retry_Backoff (ws_Retry s)) (wx_world x4) = (None, w1)"
      "we_wait env (retry_Backoff (ws_Retry s)) (wx_world y4) = (None, w2)" using wt by meson
    with r Some l show ?thesis by (simp add: Let_def Suc)
  qed
qed simp

lemma plain_step_inputs:
  assumes "plain_step s" "\<And>d. d \<in> set (ws_DependsOn s) \<Longrightarrow> fmlookup rs1 d = fmlookup rs2 d"
  shows "stepInput s initial rs1 = stepInput s initial rs2"
    and "conditionMatches (ws_When s) rs1 = conditionMatches (ws_When s) rs2"
proof -
  have eq: "result_at rs1 d = result_at rs2 d" if "d \<in> set (ws_DependsOn s)" for d
    using assms(2) [OF that] by (simp add: result_at_def)
  have "fold (\<lambda>d. map_put d (ar_Data (result_at rs1 d))) (ws_DependsOn s) [] =
      fold (\<lambda>d. map_put d (ar_Data (result_at rs2 d))) (ws_DependsOn s) []"
    using eq by (intro fold_cong) auto
  then show "stepInput s initial rs1 = stepInput s initial rs2"
    using assms(1) eq
    by (cases "ws_DependsOn s" rule: remdups_adj.cases) (simp_all add: stepInput_def plain_step_def del: fold_simps fold.simps)
  show "conditionMatches (ws_When s) rs1 = conditionMatches (ws_When s) rs2"
  proof (cases "cond_StepID (ws_When s) = []")
    case False
    then have d: "cond_StepID (ws_When s) \<in> set (ws_DependsOn s)" using assms(1) by (simp add: plain_step_def)
    show ?thesis unfolding conditionMatches_def eq [OF d] assms(2) [OF d] ..
  qed (simp add: conditionMatches_def)
qed

lemma executeStep_pure:
  assumes "pure_env env" "plain_step s" "\<And>d. d \<in> set (ws_DependsOn s) \<Longrightarrow> fmlookup rs1 d = fmlookup rs2 d"
  shows "map_option fst (executeStep env run nm s initial rs1 x) = map_option fst (executeStep env run nm s initial rs2 y)"
proof -
  have c: "\<exists>x'. look_ctx env x = (None, x')" for x
    using assms(1) by (auto simp: look_ctx_def pure_env_def split: prod.splits) (metis fst_conv)
  obtain x1 y1 where xy: "look_ctx env x = (None, x1)" "look_ctx env y = (None, y1)" using c by meson
  obtain ao w1 w2 where r: "we_resolve env (ws_Action s) (wx_world x1) = (ao, w1)"
    "we_resolve env (ws_Action s) (wx_world y1) = (ao, w2)"
    using assms(1) unfolding pure_env_def by (metis prod.collapse)
  have loop: "fst (attempt_loop env run nm s a inp n k p x) = fst (attempt_loop env run nm s a inp n k p y)"
    if "ao = Some a" for a inp n k p x y
    using assms(1) that r(1) unfolding pure_env_def by (intro attempt_loop_pure) (metis fst_conv)+
  show ?thesis
    using xy r plain_step_inputs [OF assms(2,3)] loop
    by (auto simp: executeStep_def Let_def split: option.splits)
qed

lemma gave_pure:
  assumes "pure_env env" "plain_step s" "gave env run nm initial rs1 s r1 e1" "gave env run nm initial rs2 s r2 e2"
    and "\<And>d. d \<in> set (ws_DependsOn s) \<Longrightarrow> d \<in> fmdom' rs2 \<Longrightarrow> fmlookup rs1 d = fmlookup rs2 d"
  shows "r1 = r2 \<and> e1 = e2"
proof -
  from assms(3) obtain ra xa sa ya where a: "fmsubset ra rs1" "set (ws_DependsOn s) \<subseteq> fmdom' ra"
    "executeStep env run nm s initial ra xa = Some ((r1, sa, e1), ya)" unfolding gave_def by blast
  from assms(4) obtain rb xb sb yb where b: "fmsubset rb rs2" "set (ws_DependsOn s) \<subseteq> fmdom' rb"
    "executeStep env run nm s initial rb xb = Some ((r2, sb, e2), yb)" unfolding gave_def by blast
  have part: "fmlookup r d = fmlookup rs d \<and> d \<in> fmdom' rs" if "fmsubset r rs" "d \<in> fmdom' r" for r rs and d
    using that by (auto simp: fmsubset_alt_def fmpred_iff fmlookup_dom'_iff)
  have "fmlookup ra d = fmlookup rb d" if d: "d \<in> set (ws_DependsOn s)" for d
    using part [OF a(1) subsetD [OF a(2) d]] part [OF b(1) subsetD [OF b(2) d]] assms(5) [OF d] by simp
  from executeStep_pure [OF assms(1,2) this, of run nm initial xa xb] a(3) b(3) show ?thesis by simp
qed

text \<open>Whatever a run records, every strict run that recorded all steps recorded too.\<close>

lemma dataflow_unique:
  assumes "pure_env env" "\<forall>s \<in> set ordered. plain_step s" "deps_first ordered"
    and full: "dataflow True env run nm initial ordered full" "fmdom' full = ws_ID ` set ordered"
    and part: "dataflow False env run nm initial ordered part"
    and k: "k < length ordered" "ws_ID (ordered ! k) \<in> fmdom' part"
  shows "fmlookup full (ws_ID (ordered ! k)) = fmlookup part (ws_ID (ordered ! k))"
  using k
proof (induction k rule: less_induct)
  case (less k)
  let ?s = "ordered ! k"
  have s: "?s \<in> set ordered" using less.prems(1) by simp
  have "justified True env run nm initial full ?s" "justified False env run nm initial part ?s"
    using full part s less.prems(2) by (auto simp: dataflow_def)
  then obtain r1 e1 r2 e2 where g: "gave env run nm initial full ?s r1 e1" "fmlookup full (ws_ID ?s) = Some r1"
    "gave env run nm initial part ?s r2 e2" "fmlookup part (ws_ID ?s) = Some r2" unfolding justified_def by blast
  have "fmlookup full d = fmlookup part d" if d: "d \<in> set (ws_DependsOn ?s)" "d \<in> fmdom' part" for d
  proof -
    have "d \<in> ws_ID ` set (take k ordered)" using assms(3) less.prems(1) d(1) by (auto simp: deps_first_def)
    then obtain j where j: "j < k" "d = ws_ID (ordered ! j)" using less.prems(1) by (auto simp: in_set_conv_nth)
    with less.IH [OF j(1)] less.prems(1) d(2) show ?thesis by simp
  qed
  from gave_pure [OF assms(1) bspec [OF assms(2) s] g(1,3) this] g(2,4) show ?case by simp
qed

lemma strict_run_unique:
  assumes "pure_env env" "\<forall>s \<in> set ordered. plain_step s" "deps_first ordered"
    and full: "steps_post env run nm initial ordered full None"
    and part: "steps_post env run nm initial ordered part err"
  shows "err = None \<and> part = full"
proof -
  have flow: "dataflow True env run nm initial ordered full" "fmdom' full = ws_ID ` set ordered"
    "dataflow False env run nm initial ordered part"
    using full part dataflow_weaken [of env run nm initial ordered part False]
    by (auto simp: steps_post_def split: option.splits)
  have eq: "fmlookup full i = fmlookup part i" if "i \<in> fmdom' part" for i
  proof -
    have "i \<in> ws_ID ` set ordered" using flow(3) that by (auto simp: dataflow_def)
    then obtain k where "k < length ordered" "i = ws_ID (ordered ! k)" by (auto simp: in_set_conv_nth)
    with dataflow_unique [OF assms(1-3) flow] that show ?thesis by simp
  qed
  have "err = None"
  proof (rule ccontr)
    assume "err \<noteq> None"
    then obtain e where "err = Some e" by blast
    moreover have "fst (we_ctx env w) = None" for w using assms(1) by (simp add: pure_env_def)
    ultimately obtain s r where s: "s \<in> set ordered" "ws_ErrorPolicy s \<noteq> StepErrorContinue"
      "gave env run nm initial part s r (Some e)" using part by (auto simp: steps_post_def step_fault_def)
    then have "justified True env run nm initial full s" using flow(1,2) by (auto simp: dataflow_def)
    then obtain r1 e1 where g: "gave env run nm initial full s r1 e1" "e1 = None" using s(2) by (auto simp: justified_def)
    from gave_pure [OF assms(1) bspec [OF assms(2) s(1)] g(1) s(3) eq] g(2) show False by simp
  qed
  moreover from this have "fmdom' part = ws_ID ` set ordered" using part by (simp add: steps_post_def)
  then have "fmlookup part i = fmlookup full i" for i using eq flow(2) by (metis fmdom'_notD)
  then have "part = full" by (simp add: fmap_ext)
  ultimately show ?thesis by simp
qed

end
