(* ===== verification/Workflow_Laws.thy ===== *)
theory Workflow_Laws
  imports Workflow_Schedule
begin

text \<open>
  What executing a workflow promises: the attempts of a step, the data flow between steps, the
  outcome of a run, and its independence of the schedule.
\<close>

section \<open>An example environment\<close>

text \<open>The world counts the actions run; an action gives its input back; the context stays live.\<close>

definition demo_wf_action :: "nat wf_action" where
  "demo_wf_action = \<lparr>wa_Input = None, wa_Output = None,
     wa_Execute = (\<lambda>v w. (\<lparr>ar_Data = v, ar_Error = None, ar_Events = []\<rparr>, None, Suc w))\<rparr>"

definition demo_env :: "nat wf_env" where
  "demo_env = \<lparr>we_ctx = Pair None, we_now = (\<lambda>w. (int w, w)), we_wait = (\<lambda>_. Pair None),
     we_resolve = (\<lambda>_. Pair (Some demo_wf_action))\<rparr>"

definition demo_schedule :: "nat wf_schedule" where
  "demo_schedule = \<lparr>sc_start = (\<lambda>r i. r), sc_after = Suc, sc_events = (\<lambda>_. concat), sc_handled = (\<lambda>_. concat)\<rparr>"

definition demo_state :: "nat wf_state" where
  "demo_state = \<lparr>wx_world = 0, wx_events = [], wx_handled = []\<rparr>"

lemmas wf_demo_defs = demo_wf_action_def demo_env_def demo_schedule_def demo_state_def

section \<open>What a step does\<close>

text \<open>
  C22: a step is attempted at most as often as its retry policy allows, the attempts are numbered from
  one, and it completes exactly when it returns neither skipped nor with an error: then its last event
  is the completion of its last attempt, with the data it returns.
\<close>

theorem executeStep_attempts:
  assumes "executeStep env run nm s initial results x = Some ((r, skipped, err), x')"
  shows "\<exists>es m. wx_handled x' = wx_handled x @ es \<and> m \<le> max_attempts s \<and>
    attempts_of es = map (\<lambda>i. 1 + int i) [0..<m] \<and>
    (list_ex completes es \<longleftrightarrow> \<not> skipped \<and> err = None) \<and>
    (\<not> skipped \<and> err = None \<longrightarrow> ar_Error r = None \<and> 0 < m \<and>
      (\<exists>t. last es = StepCompleted (info_of run nm s t) (int m) (valueRefFor (ar_Data r))))"
  using assms
proof (cases rule: executeStep_cases)
  case (ran es)
  obtain m where m: "m \<le> max_attempts s" "attempts_of es = map (\<lambda>i. 1 + int i) [0..<m]"
    using attempt_log_numbers [OF ran(4)] by blast
  have l: "last (attempts_of es) = int m" if "m \<noteq> 0" using that m(2) by (cases m) (simp_all add: last_map)
  show ?thesis
  proof (cases err)
    case None
    with attempt_log_completed [OF ran(4)] have c: "attempts_of es \<noteq> []" "es \<noteq> []"
      "\<exists>t. last es = StepCompleted (info_of run nm s t) (last (attempts_of es)) (valueRefFor (ar_Data r))" by simp_all
    then have "m \<noteq> 0" using m(2) by auto
    moreover have "list_ex completes es" using c by (metis completes_simps(1) last_in_set list_ex_iff)
    ultimately show ?thesis using ran(1-3) m None c(3) l by auto
  next
    case (Some e)
    with attempt_log_completed [OF ran(4)] have "\<not> list_ex completes es" by (simp add: list_ex_iff)
    with Some ran(1,2) m show ?thesis by auto
  qed
qed auto

theorem executeStep_attempts_witness:
  "\<exists>r x'. executeStep demo_env ''r'' ''w'' (demo_wf_step ''a'' []) (VInt 7) fmempty demo_state = Some ((r, False, None), x') \<and>
     (\<exists>es m. wx_handled x' = wx_handled demo_state @ es \<and> m \<le> max_attempts (demo_wf_step ''a'' []) \<and> 0 < m \<and> list_ex completes es)"
proof -
  have "map_option (snd \<circ> fst) (executeStep demo_env ''r'' ''w'' (demo_wf_step ''a'' []) (VInt 7) fmempty demo_state) =
      Some (False, None)" by code_simp
  then obtain r x' where r: "executeStep demo_env ''r'' ''w'' (demo_wf_step ''a'' []) (VInt 7) fmempty demo_state =
      Some ((r, False, None), x')" by auto
  from executeStep_attempts [OF this] r show ?thesis by blast
qed

text \<open>
  C23: a step with a timeout never completes. The context of an attempt is cancelled as soon as the
  action has returned and asked for its error after that, so an action that succeeds in time is
  recorded as failed: unless the step is skipped it returns an error, and no completion is emitted.
\<close>

theorem timeout_never_completes:
  assumes "0 < ws_Timeout s" "executeStep env run nm s initial results x = Some ((r, skipped, err), x')"
  shows "(skipped \<or> err \<noteq> None) \<and> (\<exists>es. wx_handled x' = wx_handled x @ es \<and> \<not> list_ex completes es)"
  using assms(2)
proof (cases rule: executeStep_cases)
  case (ran es)
  then have "err \<noteq> None" using assms(1) by auto
  with attempt_log_completed [OF ran(4)] ran(1,2) show ?thesis by (auto simp: list_ex_iff)
qed auto

theorem timeout_never_completes_witness:
  "\<exists>r x'. executeStep demo_env ''r'' ''w'' (demo_wf_step ''a'' []\<lparr>ws_Timeout := 5\<rparr>) (VInt 7) fmempty demo_state =
       Some ((r, False, Some (''workflow \"w\" step \"a\" failed: context canceled'')), x') \<and>
     (\<exists>es. wx_handled x' = wx_handled demo_state @ es \<and> \<not> list_ex completes es)"
proof -
  let ?s = "demo_wf_step ''a'' []\<lparr>ws_Timeout := 5\<rparr>"
  have "map_option (snd \<circ> fst) (executeStep demo_env ''r'' ''w'' ?s (VInt 7) fmempty demo_state) =
      Some (False, Some (''workflow \"w\" step \"a\" failed: context canceled''))" by code_simp
  then obtain r x' where r: "executeStep demo_env ''r'' ''w'' ?s (VInt 7) fmempty demo_state =
      Some ((r, False, Some (''workflow \"w\" step \"a\" failed: context canceled'')), x')" by auto
  have "0 < ws_Timeout ?s" by simp
  from timeout_never_completes [OF this r] r show ?thesis by blast
qed

section \<open>What the steps of a run leave\<close>

text \<open>
  C24: whichever way the steps of a checked workflow run, one after the other or in concurrent rounds,
  every recorded result is what the step gave on recorded results that include all its dependencies.
  Without an error all steps are recorded and none failed that does not tolerate failure; an error
  comes from a step that does not tolerate it or from the context, never from a lack of ready steps.
\<close>

theorem executeSteps_dataflow:
  assumes "validateAndOrder steps = Inr ordered"
    and "executeSteps env sch run nm initial c ordered x = Some ((results, prev, err), x')"
  shows "(\<forall>s \<in> set steps. ws_ID s \<in> fmdom' results \<longrightarrow>
      (\<exists>r e. fmlookup results (ws_ID s) = Some r \<and> gave env run nm initial results s r e \<and>
        (err = None \<longrightarrow> e = None \<or> ws_ErrorPolicy s = StepErrorContinue))) \<and>
    (err = None \<longrightarrow> fmdom' results = ws_ID ` set steps) \<and>
    (\<forall>e. err = Some e \<longrightarrow> step_fault env run nm initial steps results e \<or> (\<exists>w. fst (we_ctx env w) = Some e))"
proof -
  have set: "set ordered = set steps" using validateAndOrder_sound [OF assms(1)] by (metis mset_eq_setD)
  show ?thesis using executeSteps_flow [OF assms]
    unfolding steps_post_def dataflow_def justified_def step_fault_def set
    by (cases err) (auto, metis+)
qed

lemma demo_two_steps:
  "validateAndOrder [demo_wf_step ''b'' [''a''], demo_wf_step ''a'' []] = Inr [demo_wf_step ''a'' [], demo_wf_step ''b'' [''a'']]"
  by code_simp

lemma demo_run:
  "map_option (snd \<circ> snd \<circ> fst) (executeSteps demo_env demo_schedule ''r'' ''w'' (VInt 7) 2
     [demo_wf_step ''a'' [], demo_wf_step ''b'' [''a'']] demo_state) = Some None"
  by code_simp

theorem executeSteps_dataflow_witness:
  "\<exists>results prev x'. executeSteps demo_env demo_schedule ''r'' ''w'' (VInt 7) 2
       [demo_wf_step ''a'' [], demo_wf_step ''b'' [''a'']] demo_state = Some ((results, prev, None), x') \<and>
     fmdom' results = {''a'', ''b''}"
proof -
  obtain results prev x' where r: "executeSteps demo_env demo_schedule ''r'' ''w'' (VInt 7) 2
      [demo_wf_step ''a'' [], demo_wf_step ''b'' [''a'']] demo_state = Some ((results, prev, None), x')"
    using demo_run by auto
  from executeSteps_dataflow [OF demo_two_steps this] r show ?thesis by (auto simp: demo_wf_step_def)
qed

text \<open>
  C25: over a pure environment, and for steps that read nothing but the results of their dependencies,
  the schedule does not matter: when the steps succeed under one degree of concurrency and one
  schedule, they return and succeed under every other, with the same step results.
\<close>

theorem schedule_independent:
  assumes "pure_env env" "\<forall>s \<in> set steps. plain_step s" "validateAndOrder steps = Inr ordered"
    and "executeSteps env sch run nm initial c ordered x = Some ((results, prev, None), x')"
  shows "\<exists>prev2 y'. executeSteps env sch2 run nm initial c2 ordered y = Some ((results, prev2, None), y')"
proof -
  note o = validateAndOrder_sound [OF assms(3)]
  have plain: "\<forall>s \<in> set ordered. plain_step s" using assms(2) o by (metis mset_eq_setD)
  have "stepInput s initial rs \<noteq> None" if "s \<in> set ordered" for s and rs :: "wf_event wf_results"
    using plain that by (auto simp: stepInput_def plain_step_def split: list.splits)
  then have "executeSteps env sch2 run nm initial c2 ordered y \<noteq> None" by (rule executeSteps_returns)
  then obtain results2 prev2 err y' where e:
    "executeSteps env sch2 run nm initial c2 ordered y = Some ((results2, prev2, err), y')" by auto
  from strict_run_unique [OF assms(1) plain _ executeSteps_flow [OF assms(3,4)] executeSteps_flow [OF assms(3) e]] o e
  show ?thesis by auto
qed

theorem schedule_independent_witness:
  "\<exists>results prev prev2 x' y'.
     executeSteps demo_env demo_schedule ''r'' ''w'' (VInt 7) 2
       [demo_wf_step ''a'' [], demo_wf_step ''b'' [''a'']] demo_state = Some ((results, prev, None), x') \<and>
     executeSteps demo_env demo_schedule ''r'' ''w'' (VInt 7) 1
       [demo_wf_step ''a'' [], demo_wf_step ''b'' [''a'']] demo_state = Some ((results, prev2, None), y')"
proof -
  obtain results prev x' where r: "executeSteps demo_env demo_schedule ''r'' ''w'' (VInt 7) 2
      [demo_wf_step ''a'' [], demo_wf_step ''b'' [''a'']] demo_state = Some ((results, prev, None), x')"
    using demo_run by auto
  have "pure_env demo_env" by (simp add: pure_env_def wf_demo_defs)
  moreover have "\<forall>s \<in> set [demo_wf_step ''b'' [''a''], demo_wf_step ''a'' []]. plain_step s"
    by (simp add: plain_step_def demo_wf_step_def)
  ultimately show ?thesis
    using schedule_independent [OF _ _ demo_two_steps r, of demo_schedule 1 demo_state] r by blast
qed

section \<open>The outcome of a run\<close>

text \<open>
  A step's events carry the run and are neither the opening nor a closing event of the run. The
  scheduler only interleaves events. A context that is done stays done, with the same error.
\<close>

fun step_event :: "string \<Rightarrow> wf_event \<Rightarrow> bool" where
  "step_event run (StepStarted i k) = (si_RunID i = run)"
| "step_event run (StepCompleted i k v) = (si_RunID i = run)"
| "step_event run (StepFailed i k e) = (si_RunID i = run)"
| "step_event run (StepSkipped i r) = (si_RunID i = run)"
| "step_event run e = False"

definition interleaves :: "'w wf_schedule \<Rightarrow> bool" where
  "interleaves sch \<longleftrightarrow> (\<forall>r ess. mset (sc_handled sch r ess) = mset (concat ess))"

definition sticky_ctx :: "'w wf_env \<Rightarrow> bool" where
  "sticky_ctx env \<longleftrightarrow> (\<forall>w e. fst (we_ctx env w) = Some e \<longrightarrow>
     fst (we_ctx env (snd (we_ctx env w))) = Some e \<and> fst (we_ctx env (snd (we_now env w))) = Some e)"

lemma attempt_log_step_events: "attempt_log run nm s k n es d \<Longrightarrow> list_all (step_event run) es"
  by (induction rule: attempt_log.induct) (auto simp: info_of_def)

lemma executeStep_step_events:
  assumes "executeStep env run nm s initial results x = Some ((r, skipped, err), x')"
  shows "\<exists>es. wx_handled x' = wx_handled x @ es \<and> list_all (step_event run) es"
  using assms by (cases rule: executeStep_cases) (auto simp: info_of_def dest: attempt_log_step_events)

lemma executeSequential_step_events:
  assumes "executeSequential env run nm initial ss results prev x = Some (out, x')"
  shows "\<exists>es. wx_handled x' = wx_handled x @ es \<and> list_all (step_event run) es"
  using assms
proof (induction ss arbitrary: results prev x)
  case (Cons s ss)
  obtain r skipped er x1 where st: "executeStep env run nm s initial results x = Some ((r, skipped, er), x1)"
    using Cons.prems by (auto split: option.splits)
  from executeStep_step_events [OF st] obtain es where es: "wx_handled x1 = wx_handled x @ es" "list_all (step_event run) es"
    by blast
  have ?case if "executeSequential env run nm initial ss rs p x1 = Some (out, x')" for rs p
    using Cons.IH [OF that] es by auto
  then show ?case using Cons.prems st es by (auto simp: Let_def split: option.splits if_splits)
qed simp

lemma run_round_step_events:
  assumes "run_round env run nm initial results start i ss = Some os"
  shows "list_all (step_event run) (concat (map (\<lambda>(_, _, y). wx_handled y) os))"
  using assms
proof (induction ss arbitrary: i os)
  case (Cons s ss)
  then obtain o1 y1 os1 where o: "executeStep env run nm s initial results \<lparr>wx_world = start i, wx_events = [], wx_handled = []\<rparr> =
      Some (o1, y1)" "run_round env run nm initial results start (Suc i) ss = Some os1" "os = (s, o1, y1) # os1"
    by (auto split: option.splits)
  moreover have "list_all (step_event run) (wx_handled y1)"
    using o(1) executeStep_step_events [of env run nm s initial results _ "fst o1" "fst (snd o1)" "snd (snd o1)" y1] by force
  ultimately show ?case using Cons.IH by simp
qed simp

lemma parallel_loop_step_events:
  assumes "interleaves sch"
    and "parallel_loop env sch run nm initial limit ordered rnd results finished prev x = Some (out, x')"
  shows "\<exists>es. wx_handled x' = wx_handled x @ es \<and> list_all (step_event run) es"
  using assms
proof (induction env sch run nm initial limit ordered rnd results finished prev x rule: parallel_loop.induct)
  case (1 env sch run nm initial limit ordered rnd results finished prev x)
  let ?ready = "take (max 1 limit) (readySteps ordered finished)"
  note unfold = parallel_loop.simps [of env sch run nm initial limit ordered rnd]
  obtain c x1 where c: "look_ctx env x = (c, x1)" by fastforce
  note h = look_ctx_logs(1) [OF c]
  show ?case
  proof (cases "length (remdups finished) < length ordered \<and> c = None \<and> ?ready \<noteq> []")
    case False
    then show ?thesis using 1(3) c h by (auto simp: unfold Let_def split: option.splits if_splits)
  next
    case True
    then have k: "\<not> \<not> length (remdups finished) < length ordered" "c = None" "?ready \<noteq> []" by simp_all
    with 1(3) c obtain os where os: "run_round env run nm initial results (sc_start sch rnd) 0 ?ready = Some os"
      by (auto simp: unfold Let_def split: option.splits)
    obtain rs2 fin2 p2 er where co: "collect os results finished prev = (rs2, fin2, p2, er)" by (metis prod_cases4)
    let ?es = "sc_handled sch rnd (map (\<lambda>(_, _, y). wx_handled y) os)"
    have es: "list_all (step_event run) ?es"
      using run_round_step_events [OF os] 1(2) unfolding interleaves_def list_all_iff by (metis mset_eq_setD)
    show ?thesis
    proof (cases er)
      case (Some e)
      then show ?thesis using 1(3) k c h os co es by (auto simp: unfold Let_def)
    next
      case None
      note IH = 1(1) [OF k(1) c [symmetric] k(2) refl k(3) os refl co [symmetric] refl refl None 1(2)]
      show ?thesis using 1(3) k c h os co es None IH by (force simp: unfold Let_def)
    qed
  qed
qed

lemma executeSteps_step_events:
  assumes "interleaves sch" "executeSteps env sch run nm initial c ordered x = Some (out, x')"
  shows "\<exists>es. wx_handled x' = wx_handled x @ es \<and> list_all (step_event run) es"
  using assms executeSequential_step_events [of env run nm initial ordered fmempty initial x out x']
    parallel_loop_step_events [OF assms(1), of env run nm initial "nat c" ordered 0 fmempty "[]" initial x out x']
  by (auto simp: executeSteps_def executeParallel_def split: if_splits)

text \<open>How the closing event of a run fits its result.\<close>

fun closes :: "string \<Rightarrow> wf_definition \<Rightarrow> run_result \<Rightarrow> wf_event \<Rightarrow> bool" where
  "closes run def res (Completed c v) = (rc_RunID c = run \<and> rr_Error res = None \<and>
     (case rr_Data res of None \<Rightarrow> False
      | Some out \<Rightarrow> ou_RunID out = run \<and> v = valueRefFor (ou_Data out) \<and> fmdom' (ou_StepResults out) = ws_ID ` set (wd_Steps def)))"
| "closes run def res (Failed c e) = (rc_RunID c = run \<and> rr_Error res = Some e)"
| "closes run def res (Canceled c e) = (rc_RunID c = run \<and> rr_Error res = Some e)"
| "closes run def res ev = False"

lemma fail_run_closes:
  "fail_run env run nm e data x = (res, x') \<Longrightarrow>
   \<exists>fin. wx_handled x' = wx_handled x @ [fin] \<and> closes run def res fin"
  by (auto simp: fail_run_def wf_emit_def Let_def split: prod.splits)

lemma cancel_run_closes:
  assumes "sticky_ctx env" "look_ctx env x0 = (Some e, x)" "cancel_run env run nm e data x = (res, x')"
  shows "\<exists>fin. wx_handled x' = wx_handled x0 @ [fin] \<and> closes run def res fin"
proof -
  obtain w where w: "we_ctx env (wx_world x0) = (Some e, w)" "x = x0\<lparr>wx_world := w\<rparr>"
    using assms(2) by (auto simp: look_ctx_def split: prod.splits)
  obtain t w2 where n: "we_now env w = (t, w2)" by fastforce
  have "fst (we_ctx env w) = Some e" using assms(1) w(1) unfolding sticky_ctx_def by (metis fst_conv snd_conv)
  then have "fst (we_ctx env w2) = Some e" using assms(1) n unfolding sticky_ctx_def by (metis snd_conv)
  with assms(3) w n show ?thesis by (auto simp: cancel_run_def wf_emit_def look_ctx_def Let_def split: prod.splits)
qed

lemma finish_run_closes:
  assumes "sticky_ctx env" "finish_run env run nm results prev err x = (res, x')"
    and "err = None \<Longrightarrow> fmdom' results = ws_ID ` set (wd_Steps def)"
  shows "\<exists>fin. wx_handled x' = wx_handled x @ [fin] \<and> closes run def res fin"
proof (cases err)
  case None
  with assms(2,3) show ?thesis by (auto simp: finish_run_def wf_emit_def Let_def split: prod.splits)
next
  case (Some ee)
  let ?out = "Some \<lparr>ou_RunID = run, ou_StepResults = results, ou_Data = prev\<rparr>"
  obtain c x1 where l: "look_ctx env x = (c, x1)" by fastforce
  show ?thesis
  proof (cases c)
    case None
    then have "fail_run env run nm ee ?out x1 = (res, x')" using assms(2) Some l by (simp add: finish_run_def)
    from fail_run_closes [OF this] look_ctx_logs(1) [OF l] show ?thesis by simp
  next
    case (Some ce)
    then have "cancel_run env run nm ce ?out x1 = (res, x')" using assms(2) \<open>err = Some ee\<close> l by (simp add: finish_run_def)
    from cancel_run_closes [OF assms(1) l [unfolded Some] this] show ?thesis .
  qed
qed

lemma Execute_closing:
  assumes "interleaves sch" "sticky_ctx env" "Execute env sch e hash fresh def inp w = Some (res, x')"
  shows "\<exists>pre fin. wx_handled x' = pre @ [fin] \<and> closes (executor_runID e fresh) def res fin \<and>
    (pre = [] \<or> (\<exists>o1 es. pre = Started o1 # es \<and> ro_RunID o1 = executor_runID e fresh \<and>
       list_all (step_event (executor_runID e fresh)) es))"
proof -
  let ?run = "executor_runID e fresh" and ?x0 = "\<lparr>wx_world = w, wx_events = [], wx_handled = []\<rparr>"
  obtain c x where c: "look_ctx env ?x0 = (c, x)" by fastforce
  have hx: "wx_handled x = []" using look_ctx_logs(1) [OF c] by simp
  note E = assms(3) [unfolded Execute_def Let_def c]
  have early: ?thesis if "fail_run env ?run (wd_Name def) m None x = (res, x')" for m
    using fail_run_closes [OF that, of def] hx by auto
  show ?thesis
  proof (cases "\<exists>ordered. c = None \<and> ex_Resolver e \<and> validateAndOrder (wd_Steps def) = Inr ordered")
    case False
    then show ?thesis
      using E early c cancel_run_closes [OF assms(2), of ?x0 _ x ?run "wd_Name def" None res x' def]
      by (auto split: option.splits if_splits sum.splits)
  next
    case True
    then obtain ordered where o: "c = None" "ex_Resolver e" "validateAndOrder (wd_Steps def) = Inr ordered" by blast
    let ?st = "\<lambda>t. \<lparr>ro_RunID = ?run, ro_WorkflowName = wd_Name def, ro_Metadata = ex_Metadata e,
      ro_Input = ex_Input e, ro_DefinitionHash = (if ex_DefinitionHash e = [] then hash def else ex_DefinitionHash e),
      ro_DefinitionVersion = (if ex_DefinitionVersion e = [] then wd_Version def else ex_DefinitionVersion e), ro_At = t\<rparr>"
    let ?x1 = "wf_emit env (\<lambda>t. Started (?st t)) x"
    obtain t where t: "wx_handled ?x1 = [Started (?st t)]" using wf_emit_handled [of env "\<lambda>t. Started (?st t)" x] hx by auto
    obtain results prev err x2 where r: "executeSteps env sch ?run (wd_Name def) inp (ex_MaxConcurrency e) ordered ?x1 =
        Some ((results, prev, err), x2)" using E o by (auto split: option.splits)
    from executeSteps_step_events [OF assms(1) r] t obtain es where es: "wx_handled x2 = Started (?st t) # es"
      "list_all (step_event ?run) es" by auto
    have dom: "fmdom' results = ws_ID ` set (wd_Steps def)" if "err = None"
      using executeSteps_flow [OF o(3) r] validateAndOrder_sound [OF o(3)] that
      by (auto simp: steps_post_def dest: mset_eq_setD)
    have "finish_run env ?run (wd_Name def) results prev err x2 = (res, x')" using E o r by simp
    from finish_run_closes [OF assms(2) this dom] obtain fin where
      "wx_handled x' = wx_handled x2 @ [fin]" "closes ?run def res fin" by metis
    with es show ?thesis by (intro exI [of _ "wx_handled x2"] exI [of _ fin]) simp
  qed
qed

text \<open>
  C26: a run that returns has given the handler exactly one closing event, as the last one, after at
  most one opening event and the events of its steps, all of them with its run identifier. The closing
  event fits the result: completed exactly with the output and the results of all steps and no error,
  failed or cancelled with the error of the result.
\<close>

theorem Execute_outcome:
  assumes "interleaves sch" "sticky_ctx env" "Execute env sch e hash fresh def inp w = Some (res, x')"
  shows "\<exists>pre fin. wx_handled x' = pre @ [fin] \<and> closes (executor_runID e fresh) def res fin \<and>
    (pre = [] \<or> (\<exists>o1 es. pre = Started o1 # es \<and> ro_RunID o1 = executor_runID e fresh \<and>
       list_all (step_event (executor_runID e fresh)) es))"
  by (rule Execute_closing [OF assms])

definition demo_executor :: executor where
  "demo_executor = \<lparr>ex_Resolver = True, ex_RunID = ''r'', ex_Metadata = \<lparr>rm_SessionID = [], rm_AgentName = [], rm_ThreadID = [],
     rm_BranchID = [], rm_Trigger = [], rm_CommandPath = []\<rparr>, ex_Input = valueRefFor (VStr ''x''), ex_DefinitionHash = [],
     ex_DefinitionVersion = [], ex_MaxConcurrency = 2\<rparr>"

definition demo_definition :: wf_definition where
  "demo_definition = \<lparr>wd_Name = ''w'', wd_Description = [], wd_Version = [],
     wd_Steps = [demo_wf_step ''b'' [''a''], demo_wf_step ''a'' []]\<rparr>"

theorem Execute_outcome_witness:
  "\<exists>res x' fin. Execute demo_env demo_schedule demo_executor wd_Name [] demo_definition (VStr ''x'') 0 = Some (res, x') \<and>
     last (wx_handled x') = fin \<and> rr_Error res = None \<and> closes ''r'' demo_definition res fin"
proof -
  have "map_option (rr_Error \<circ> fst) (Execute demo_env demo_schedule demo_executor wd_Name [] demo_definition (VStr ''x'') 0) = Some None"
    by code_simp
  then obtain res x' where r: "Execute demo_env demo_schedule demo_executor wd_Name [] demo_definition (VStr ''x'') 0 = Some (res, x')"
    "rr_Error res = None" by auto
  have "interleaves demo_schedule" "sticky_ctx demo_env" by (simp_all add: interleaves_def sticky_ctx_def wf_demo_defs)
  from Execute_outcome [OF this r(1)] obtain fin where "last (wx_handled x') = fin"
    "closes (executor_runID demo_executor []) demo_definition res fin" by auto
  then show ?thesis using r by (auto simp: executor_runID_def demo_executor_def)
qed

end
