(* ===== verification/Workflow_Run.thy ===== *)
theory Workflow_Run
  imports Workflow_Laws
begin

text \<open>
  The state of a run as its events tell it (\<^verbatim>\<open>src/workflow/run.go\<close>) and the store that keeps events in
  memory (\<^verbatim>\<open>src/workflow/runstore.go\<close>). A status of the empty string, which a state has before any
  event set it, is a constructor of its own.
\<close>

section \<open>States\<close>

datatype run_status = RunUnset | RunQueued | RunRunning | RunSucceeded | RunFailed | RunCanceled

datatype wf_step_status =
  StepUnset | StepQueued | StepRunning | StepSucceeded | StepFailedStatus | StepCanceled | StepSkippedStatus

record attempt_state =
  at_Attempt :: int
  at_Status :: wf_step_status
  at_Output :: value_ref
  at_Error :: string

record step_state =
  sst_ID :: string
  sst_ActionName :: string
  sst_ActionVersion :: string
  sst_IdempotencyKey :: string
  sst_Status :: wf_step_status
  sst_Attempt :: int
  sst_Attempts :: "attempt_state list"
  sst_Output :: value_ref
  sst_Error :: string

record run_state =
  rst_ID :: string
  rst_WorkflowName :: string
  rst_Status :: run_status
  rst_StartedAt :: time
  rst_CompletedAt :: time
  rst_Duration :: int
  rst_Steps :: "(string, step_state) fmap"
  rst_Output :: value_ref
  rst_Error :: string
  rst_Metadata :: run_metadata
  rst_Input :: value_ref
  rst_DefinitionHash :: string
  rst_DefinitionVersion :: string

definition no_metadata :: run_metadata where
  "no_metadata = \<lparr>rm_SessionID = [], rm_AgentName = [], rm_ThreadID = [], rm_BranchID = [], rm_Trigger = [], rm_CommandPath = []\<rparr>"

definition no_step_state :: step_state where
  "no_step_state = \<lparr>sst_ID = [], sst_ActionName = [], sst_ActionVersion = [], sst_IdempotencyKey = [],
     sst_Status = StepUnset, sst_Attempt = 0, sst_Attempts = [], sst_Output = no_ref, sst_Error = []\<rparr>"

definition no_run_state :: run_state where
  "no_run_state = \<lparr>rst_ID = [], rst_WorkflowName = [], rst_Status = RunUnset, rst_StartedAt = zero_time,
     rst_CompletedAt = zero_time, rst_Duration = 0, rst_Steps = fmempty, rst_Output = no_ref, rst_Error = [],
     rst_Metadata = no_metadata, rst_Input = no_ref, rst_DefinitionHash = [], rst_DefinitionVersion = []\<rparr>"

definition RunMetadata_IsZero :: "run_metadata \<Rightarrow> bool" where
  "RunMetadata_IsZero m \<longleftrightarrow> rm_SessionID m = [] \<and> rm_AgentName m = [] \<and> rm_ThreadID m = [] \<and> rm_BranchID m = [] \<and>
     rm_Trigger m = [] \<and> rm_CommandPath m = []"

text \<open>\<^verbatim>\<open>Time.Sub\<close> saturates at the largest \<^verbatim>\<open>time.Duration\<close>, a 64 bit count of nanoseconds.\<close>

definition runDuration :: "time \<Rightarrow> time \<Rightarrow> int" where
  "runDuration startedAt completedAt =
     (if startedAt = zero_time \<or> completedAt = zero_time \<or> completedAt < startedAt then 0
      else min (completedAt - startedAt) (2 ^ 63 - 1))"

definition normalizeAttempt :: "int \<Rightarrow> int" where
  "normalizeAttempt k = (if k \<le> 0 then 1 else k)"

fun put_attempt :: "attempt_state \<Rightarrow> attempt_state list \<Rightarrow> attempt_state list" where
  "put_attempt a [] = [a]"
| "put_attempt a (b # bs) = (if at_Attempt b = at_Attempt a then a # bs else b # put_attempt a bs)"

definition upsertAttempt :: "step_state \<Rightarrow> attempt_state \<Rightarrow> step_state" where
  "upsertAttempt s a =
     s\<lparr>sst_Attempts := put_attempt (a\<lparr>at_Attempt := normalizeAttempt (at_Attempt a)\<rparr>) (sst_Attempts s)\<rparr>"

definition stateFor :: "(string, run_state) fmap \<Rightarrow> string \<Rightarrow> run_state" where
  "stateFor m r = (case fmlookup m r of None \<Rightarrow> no_run_state | Some st \<Rightarrow> st)"

section \<open>Projection\<close>

text \<open>The fields every step event copies, and the step of a state it changes.\<close>

definition step_header :: "step_info \<Rightarrow> step_state \<Rightarrow> step_state" where
  "step_header i s = s\<lparr>sst_ID := si_StepID i, sst_ActionName := si_ActionName i,
     sst_ActionVersion := si_ActionVersion i, sst_IdempotencyKey := si_IdempotencyKey i\<rparr>"

definition on_step :: "step_info \<Rightarrow> (step_state \<Rightarrow> step_state) \<Rightarrow> run_state \<Rightarrow> run_state" where
  "on_step i f st =
     (let s = (case fmlookup (rst_Steps st) (si_StepID i) of None \<Rightarrow> no_step_state | Some s \<Rightarrow> s)
      in st\<lparr>rst_Steps := fmupd (si_StepID i) (f (step_header i s)) (rst_Steps st)\<rparr>)"

definition attempted :: "int \<Rightarrow> wf_step_status \<Rightarrow> value_ref \<Rightarrow> string \<Rightarrow> step_state \<Rightarrow> step_state" where
  "attempted k status out err s =
     upsertAttempt (s\<lparr>sst_Status := status, sst_Attempt := normalizeAttempt k, sst_Error := err\<rparr>)
       \<lparr>at_Attempt = normalizeAttempt k, at_Status = status, at_Output = out, at_Error = err\<rparr>"

definition closed_state :: "run_closed \<Rightarrow> run_status \<Rightarrow> string \<Rightarrow> run_state \<Rightarrow> run_state" where
  "closed_state c status err st =
     st\<lparr>rst_ID := rc_RunID c, rst_WorkflowName := rc_WorkflowName c, rst_Status := status, rst_CompletedAt := rc_At c,
        rst_Duration := runDuration (rst_StartedAt st) (rc_At c), rst_Error := err\<rparr>"

text \<open>What an event does to the state of its run; the empty identifier for what is not a run event.\<close>

fun run_update :: "wf_event \<Rightarrow> run_state \<Rightarrow> run_state" where
  "run_update (Queued q) st =
     st\<lparr>rst_ID := ro_RunID q, rst_WorkflowName := ro_WorkflowName q, rst_Status := RunQueued, rst_Metadata := ro_Metadata q,
        rst_Input := ro_Input q, rst_DefinitionHash := ro_DefinitionHash q, rst_DefinitionVersion := ro_DefinitionVersion q,
        rst_StartedAt := zero_time, rst_CompletedAt := zero_time, rst_Duration := 0\<rparr>"
| "run_update (Started q) st =
     st\<lparr>rst_ID := ro_RunID q, rst_WorkflowName := ro_WorkflowName q, rst_Status := RunRunning, rst_StartedAt := ro_At q,
        rst_CompletedAt := zero_time, rst_Duration := 0,
        rst_Metadata := (if RunMetadata_IsZero (ro_Metadata q) then rst_Metadata st else ro_Metadata q),
        rst_Input := (if emptyValueRef (ro_Input q) then rst_Input st else ro_Input q),
        rst_DefinitionHash := (if ro_DefinitionHash q = [] then rst_DefinitionHash st else ro_DefinitionHash q),
        rst_DefinitionVersion := (if ro_DefinitionVersion q = [] then rst_DefinitionVersion st else ro_DefinitionVersion q)\<rparr>"
| "run_update (StepStarted i k) st = on_step i (attempted k StepRunning no_ref []) st"
| "run_update (StepCompleted i k v) st = on_step i (\<lambda>s. attempted k StepSucceeded v [] (s\<lparr>sst_Output := v\<rparr>)) st"
| "run_update (StepFailed i k e) st = on_step i (attempted k StepFailedStatus no_ref e) st"
| "run_update (StepSkipped i e) st = on_step i (\<lambda>s. s\<lparr>sst_Status := StepSkippedStatus, sst_Error := e\<rparr>) st"
| "run_update (Completed c v) st = (closed_state c RunSucceeded [] st)\<lparr>rst_Output := v\<rparr>"
| "run_update (Failed c e) st = closed_state c RunFailed e st"
| "run_update (Canceled c e) st = closed_state c RunCanceled e st"
| "run_update PtrEvent st = st"
| "run_update (OtherEvent k) st = st"

fun workflowEventRunID :: "wf_event \<Rightarrow> string" where
  "workflowEventRunID (Queued q) = ro_RunID q"
| "workflowEventRunID (Started q) = ro_RunID q"
| "workflowEventRunID (StepStarted i k) = si_RunID i"
| "workflowEventRunID (StepCompleted i k v) = si_RunID i"
| "workflowEventRunID (StepFailed i k e) = si_RunID i"
| "workflowEventRunID (StepSkipped i e) = si_RunID i"
| "workflowEventRunID (Completed c v) = rc_RunID c"
| "workflowEventRunID (Failed c e) = rc_RunID c"
| "workflowEventRunID (Canceled c e) = rc_RunID c"
| "workflowEventRunID _ = []"

text \<open>Whether \<^verbatim>\<open>workflowThreadEventPayload\<close> knows the event.\<close>

fun is_workflow :: "wf_event \<Rightarrow> bool" where
  "is_workflow PtrEvent = False"
| "is_workflow (OtherEvent k) = False"
| "is_workflow _ = True"

datatype run_error = PointerEvents | RunCtxErr string

definition applyEvent :: "(string, run_state) fmap \<Rightarrow> wf_event \<Rightarrow> (run_error, (string, run_state) fmap) result" where
  "applyEvent states e =
     (if e = PtrEvent then Inl PointerEvents
      else if \<not> is_workflow e then Inr states
      else let r = workflowEventRunID e in Inr (fmupd r (run_update e (stateFor states r)) states))"

definition Project :: "wf_event list \<Rightarrow> (run_error, (string, run_state) fmap) result" where
  "Project events = rfold applyEvent fmempty events"

definition ProjectRun :: "wf_event list \<Rightarrow> string \<Rightarrow> (run_error, run_state option) result" where
  "ProjectRun events r = rbind (Project events) (\<lambda>states. Inr (fmlookup states r))"

section \<open>The store in memory\<close>

type_synonym run_store = "(string, wf_event list) fmap"

definition MemoryRunStore_Append :: "go_ctx \<Rightarrow> string \<Rightarrow> wf_event list \<Rightarrow> run_store \<Rightarrow> (run_error, unit) result \<times> run_store" where
  "MemoryRunStore_Append ctx r es m =
     (case ctx of Some e \<Rightarrow> (Inl (RunCtxErr e), m) | None \<Rightarrow>
        if es = [] then (Inr (), m)
        else (Inr (), fmupd r ((case fmlookup m r of None \<Rightarrow> [] | Some old \<Rightarrow> old) @ es) m))"

definition MemoryRunStore_Events :: "go_ctx \<Rightarrow> string \<Rightarrow> run_store \<Rightarrow> (run_error, wf_event list option) result" where
  "MemoryRunStore_Events ctx r m = (case ctx of Some e \<Rightarrow> Inl (RunCtxErr e) | None \<Rightarrow> Inr (fmlookup m r))"

definition MemoryRunStore_State :: "go_ctx \<Rightarrow> string \<Rightarrow> run_store \<Rightarrow> (run_error, run_state option) result" where
  "MemoryRunStore_State ctx r m =
     rbind (MemoryRunStore_Events ctx r m) (\<lambda>es. case es of None \<Rightarrow> Inr None | Some es \<Rightarrow> ProjectRun es r)"

section \<open>Runs do not mix\<close>

definition run_events :: "string \<Rightarrow> wf_event list \<Rightarrow> wf_event list" where
  "run_events r es = filter (\<lambda>e. is_workflow e \<and> workflowEventRunID e = r) es"

definition run_of :: "wf_event list \<Rightarrow> run_state option" where
  "run_of es = (if es = [] then None else Some (fold run_update es no_run_state))"

lemma run_of_snoc: "run_of (es @ [e]) = Some (run_update e (case run_of es of None \<Rightarrow> no_run_state | Some st \<Rightarrow> st))"
  by (simp add: run_of_def)

lemma Project_lookup:
  assumes "PtrEvent \<notin> set es"
  shows "\<exists>m. Project es = Inr m \<and> (\<forall>r. fmlookup m r = run_of (run_events r es))"
  using assms
proof (induction es rule: rev_induct)
  case Nil
  then show ?case by (simp add: Project_def run_of_def run_events_def)
next
  case (snoc e es)
  then obtain m where m: "Project es = Inr m" "\<And>r. fmlookup m r = run_of (run_events r es)" by auto
  have "Project (es @ [e]) = applyEvent m e" using m(1) by (cases "applyEvent m e") (simp_all add: Project_def rfold_append)
  then show ?case
    using m(2) snoc.prems
    by (auto simp: applyEvent_def run_events_def run_of_snoc stateFor_def Let_def)
qed

lemma ProjectRun_eq: "PtrEvent \<notin> set es \<Longrightarrow> ProjectRun es r = Inr (run_of (run_events r es))"
  using Project_lookup [of es] by (auto simp: ProjectRun_def)


definition demo_closed :: "string \<Rightarrow> run_closed" where
  "demo_closed r = \<lparr>rc_RunID = r, rc_WorkflowName = ''w'', rc_At = 5\<rparr>"


section \<open>The state of an executed run\<close>

lemma Execute_projects:
  assumes "interleaves sch" "sticky_ctx env" "Execute env sch e hash fresh def inp w = Some (res, x')"
  shows "list_all (\<lambda>ev. is_workflow ev \<and> workflowEventRunID ev = executor_runID e fresh) (wx_handled x') \<and>
    (\<exists>st. run_of (wx_handled x') = Some st \<and> rst_ID st = executor_runID e fresh \<and>
      (case rr_Error res of
         None \<Rightarrow> rst_Status st = RunSucceeded \<and> (\<exists>out. rr_Data res = Some out \<and> rst_Output st = valueRefFor (ou_Data out))
       | Some err \<Rightarrow> rst_Status st \<in> {RunFailed, RunCanceled} \<and> rst_Error st = err))"
proof -
  let ?run = "executor_runID e fresh"
  from Execute_closing [OF assms] obtain pre fin where f: "wx_handled x' = pre @ [fin]" "closes ?run def res fin"
    "pre = [] \<or> (\<exists>o1 es. pre = Started o1 # es \<and> ro_RunID o1 = ?run \<and> list_all (step_event ?run) es)" by metis
  have step: "step_event r ev \<Longrightarrow> is_workflow ev \<and> workflowEventRunID ev = r" for r ev
    by (cases ev) auto
  have "list_all (\<lambda>ev. is_workflow ev \<and> workflowEventRunID ev = ?run) pre"
    using f(3) step [of ?run] unfolding list_all_iff by fastforce
  moreover have "is_workflow fin \<and> workflowEventRunID fin = ?run" using f(2) by (cases fin) auto
  ultimately have "list_all (\<lambda>ev. is_workflow ev \<and> workflowEventRunID ev = ?run) (wx_handled x')" using f(1) by simp
  then show ?thesis
    using f(2) unfolding f(1) run_of_snoc by (cases fin) (auto simp: closed_state_def split: option.splits)
qed

end
