(* ===== verification/Workflow_Thread.thy ===== *)
theory Workflow_Thread
  imports Workflow_Run Memory_Store "HOL-Library.Product_Lexorder"
begin

text \<open>
  Workflow runs kept in a thread: the JSON form of workflow events, the recorder that appends them to
  a live thread (\<^verbatim>\<open>src/workflow/threadrecorder.go\<close>) and the run store that reads them back from a branch
  (\<^verbatim>\<open>src/workflow/threadrunstore.go\<close>).

  How a struct an action returned marshals depends on its Go type, and how a number reads back into a
  value of type \<^verbatim>\<open>any\<close> on the printing of floats: both are fields of a record of functions. Values that
  are built from strings, booleans, floats, lists and string maps need neither.
\<close>

section \<open>Values as JSON\<close>

record value_json =
  vj_struct :: "(string \<times> go_value) list \<Rightarrow> json option"
  vj_float :: "int \<Rightarrow> string"
  vj_time :: "time \<Rightarrow> string"

fun enc_value :: "value_json \<Rightarrow> go_value \<Rightarrow> json option" where
  "enc_value vj VNil = Some JNull"
| "enc_value vj (VBool b) = Some (JBool b)"
| "enc_value vj (VInt n) = Some (JNum n)"
| "enc_value vj (VFloat t) = (if t \<in> {''NaN'', ''+Inf'', ''-Inf''} then None else Some (JFrac t))"
| "enc_value vj (VStr s) = Some (JStr s)"
| "enc_value vj (VList vs) = map_option JArr (those (map (enc_value vj) vs))"
| "enc_value vj (VMap m) = map_option JObj (those (map (\<lambda>(k, v). map_option (Pair k) (enc_value vj v)) m))"
| "enc_value vj (VStrMap m) = Some (JObj (map (\<lambda>(k, s). (k, JStr s)) m))"
| "enc_value vj (VStruct fs) = vj_struct vj fs"
| "enc_value vj (VRef i m v u r) =
     map_option (\<lambda>j. JObj (omit_str ''id'' i @ omit_str ''media_type'' m @ (if v = VNil then [] else fld ''inline'' j) @
       omit_str ''external_uri'' u @ omit_bool ''redacted'' r)) (enc_value vj v)"

fun dec_value :: "value_json \<Rightarrow> json \<Rightarrow> go_value" where
  "dec_value vj JNull = VNil"
| "dec_value vj (JBool b) = VBool b"
| "dec_value vj (JNum n) = VFloat (vj_float vj n)"
| "dec_value vj (JFrac t) = VFloat t"
| "dec_value vj (JStr s) = VStr s"
| "dec_value vj (JTime t) = VStr (vj_time vj t)"
| "dec_value vj (JArr js) = VList (map (dec_value vj) js)"
| "dec_value vj (JObj kvs) = VMap (fold (\<lambda>(k, v). map_put k v) (map (\<lambda>(k, j). (k, dec_value vj j)) kvs) [])"

text \<open>The values that read back as they were written.\<close>

fun native :: "go_value \<Rightarrow> bool" where
  "native (VFloat t) = (t \<notin> {''NaN'', ''+Inf'', ''-Inf''})"
| "native (VList vs) = (\<forall>v \<in> set vs. native v)"
| "native (VMap m) = (sorted_wrt (<) (map fst m) \<and> (\<forall>kv \<in> set m. native (snd kv)))"
| "native VNil = True"
| "native (VBool b) = True"
| "native (VStr s) = True"
| "native _ = False"

lemma map_put_last: "\<forall>l \<in> set (map fst m). l < k \<Longrightarrow> map_put k v m = m @ [(k, v)]"
  by (induction m) auto

lemma fold_map_put:
  "sorted_wrt (<) (map fst (n @ m)) \<Longrightarrow> fold (\<lambda>(k, v). map_put k v) m n = n @ m"
proof (induction m arbitrary: n)
  case (Cons e m)
  obtain k v where e: "e = (k, v)" by (cases e)
  have "map_put k v n = n @ [(k, v)]" using Cons.prems e by (intro map_put_last) (auto simp: sorted_wrt_append)
  with Cons.IH [of "n @ [(k, v)]"] Cons.prems e show ?case by simp
qed simp

lemma those_map: "(\<And>x. x \<in> set xs \<Longrightarrow> f x = Some (g x)) \<Longrightarrow> those (map f xs) = Some (map g xs)"
  by (induction xs) auto

lemma dec_enc_value: "native v \<Longrightarrow> \<exists>j. enc_value vj v = Some j \<and> dec_value vj j = v"
proof (induction v)
  case (VList vs)
  then obtain g where g: "\<And>v. v \<in> set vs \<Longrightarrow> enc_value vj v = Some (g v) \<and> dec_value vj (g v) = v"
    by (metis native.simps(2))
  then have "those (map (enc_value vj) vs) = Some (map g vs)" by (intro those_map) auto
  moreover have "map (dec_value vj \<circ> g) vs = vs" using g by (intro map_idI) auto
  ultimately show ?case by simp
next
  case (VMap m)
  have "\<exists>j. enc_value vj (snd kv) = Some j \<and> dec_value vj j = snd kv" if "kv \<in> set m" for kv
    using VMap that by (cases kv) (auto simp: snds.simps)
  then obtain g where g: "\<And>kv. kv \<in> set m \<Longrightarrow> enc_value vj (snd kv) = Some (g kv) \<and> dec_value vj (g kv) = snd kv"
    by metis
  have "those (map (\<lambda>(k, v). map_option (Pair k) (enc_value vj v)) m) = Some (map (\<lambda>kv. (fst kv, g kv)) m)"
    using g by (intro those_map) (auto split: prod.splits)
  moreover have "map (\<lambda>(k, j). (k, dec_value vj j)) (map (\<lambda>kv. (fst kv, g kv)) m) = m"
    using g by (induction m) auto
  ultimately show ?case using VMap.prems fold_map_put [of "[]" m] by (simp add: comp_def)
qed auto

section \<open>Payloads\<close>

definition ref_handlers :: "value_json \<Rightarrow> value_ref handler list" where
  "ref_handlers vj =
     [(''id'', at_field dec_string vr_ID (\<lambda>v r. r\<lparr>vr_ID := v\<rparr>)),
      (''media_type'', at_field dec_string vr_MediaType (\<lambda>v r. r\<lparr>vr_MediaType := v\<rparr>)),
      (''inline'', (\<lambda>j r. Inr (r\<lparr>vr_Inline := dec_value vj j\<rparr>))),
      (''external_uri'', at_field dec_string vr_ExternalURI (\<lambda>v r. r\<lparr>vr_ExternalURI := v\<rparr>)),
      (''redacted'', at_field dec_bool vr_Redacted (\<lambda>v r. r\<lparr>vr_Redacted := v\<rparr>))]"

definition enc_ref :: "value_json \<Rightarrow> value_ref \<Rightarrow> json option" where
  "enc_ref vj r = enc_value vj (VRef (vr_ID r) (vr_MediaType r) (vr_Inline r) (vr_ExternalURI r) (vr_Redacted r))"

definition metadata_handlers :: "run_metadata handler list" where
  "metadata_handlers =
     [(''session_id'', at_field dec_string rm_SessionID (\<lambda>v m. m\<lparr>rm_SessionID := v\<rparr>)),
      (''agent_name'', at_field dec_string rm_AgentName (\<lambda>v m. m\<lparr>rm_AgentName := v\<rparr>)),
      (''thread_id'', at_field dec_string rm_ThreadID (\<lambda>v m. m\<lparr>rm_ThreadID := v\<rparr>)),
      (''branch_id'', at_field dec_string rm_BranchID (\<lambda>v m. m\<lparr>rm_BranchID := v\<rparr>)),
      (''trigger'', at_field dec_string rm_Trigger (\<lambda>v m. m\<lparr>rm_Trigger := v\<rparr>)),
      (''command_path'', at_field (dec_list dec_string []) rm_CommandPath (\<lambda>v m. m\<lparr>rm_CommandPath := v\<rparr>))]"

definition enc_metadata :: "run_metadata \<Rightarrow> json" where
  "enc_metadata m = JObj (omit_str ''session_id'' (rm_SessionID m) @ omit_str ''agent_name'' (rm_AgentName m) @
     omit_str ''thread_id'' (rm_ThreadID m) @ omit_str ''branch_id'' (rm_BranchID m) @ omit_str ''trigger'' (rm_Trigger m) @
     omit_strs ''command_path'' (rm_CommandPath m))"

text \<open>
  The nine payload structs share their fields: one record has all of them, and a payload type is the
  list of the fields it decodes.
\<close>

record wf_payload =
  pl_RunID :: string
  pl_WorkflowName :: string
  pl_Metadata :: run_metadata
  pl_Input :: value_ref
  pl_DefinitionHash :: string
  pl_DefinitionVersion :: string
  pl_StepID :: string
  pl_ActionName :: string
  pl_ActionVersion :: string
  pl_Attempt :: int
  pl_IdempotencyKey :: string
  pl_Output :: value_ref
  pl_Error :: string
  pl_Reason :: string
  pl_At :: time

definition no_payload :: wf_payload where
  "no_payload = \<lparr>pl_RunID = [], pl_WorkflowName = [], pl_Metadata = no_metadata, pl_Input = no_ref, pl_DefinitionHash = [],
     pl_DefinitionVersion = [], pl_StepID = [], pl_ActionName = [], pl_ActionVersion = [], pl_Attempt = 0,
     pl_IdempotencyKey = [], pl_Output = no_ref, pl_Error = [], pl_Reason = [], pl_At = zero_time\<rparr>"

definition f_run_id :: "wf_payload handler" where
  "f_run_id = (''run_id'', at_field dec_string pl_RunID (\<lambda>v p. p\<lparr>pl_RunID := v\<rparr>))"
definition f_workflow_name :: "wf_payload handler" where
  "f_workflow_name = (''workflow_name'', at_field dec_string pl_WorkflowName (\<lambda>v p. p\<lparr>pl_WorkflowName := v\<rparr>))"
definition f_definition_hash :: "wf_payload handler" where
  "f_definition_hash = (''definition_hash'', at_field dec_string pl_DefinitionHash (\<lambda>v p. p\<lparr>pl_DefinitionHash := v\<rparr>))"
definition f_definition_version :: "wf_payload handler" where
  "f_definition_version = (''definition_version'', at_field dec_string pl_DefinitionVersion (\<lambda>v p. p\<lparr>pl_DefinitionVersion := v\<rparr>))"
definition f_step_id :: "wf_payload handler" where
  "f_step_id = (''step_id'', at_field dec_string pl_StepID (\<lambda>v p. p\<lparr>pl_StepID := v\<rparr>))"
definition f_action_name :: "wf_payload handler" where
  "f_action_name = (''action_name'', at_field dec_string pl_ActionName (\<lambda>v p. p\<lparr>pl_ActionName := v\<rparr>))"
definition f_action_version :: "wf_payload handler" where
  "f_action_version = (''action_version'', at_field dec_string pl_ActionVersion (\<lambda>v p. p\<lparr>pl_ActionVersion := v\<rparr>))"
definition f_idempotency_key :: "wf_payload handler" where
  "f_idempotency_key = (''idempotency_key'', at_field dec_string pl_IdempotencyKey (\<lambda>v p. p\<lparr>pl_IdempotencyKey := v\<rparr>))"
definition f_error :: "wf_payload handler" where
  "f_error = (''error'', at_field dec_string pl_Error (\<lambda>v p. p\<lparr>pl_Error := v\<rparr>))"
definition f_reason :: "wf_payload handler" where
  "f_reason = (''reason'', at_field dec_string pl_Reason (\<lambda>v p. p\<lparr>pl_Reason := v\<rparr>))"
definition f_metadata :: "wf_payload handler" where
  "f_metadata = (''metadata'', at_field (dec_struct metadata_handlers) pl_Metadata (\<lambda>v p. p\<lparr>pl_Metadata := v\<rparr>))"
definition f_input :: "value_json \<Rightarrow> wf_payload handler" where
  "f_input vj = (''input'', at_field (dec_struct (ref_handlers vj)) pl_Input (\<lambda>v p. p\<lparr>pl_Input := v\<rparr>))"
definition f_output :: "value_json \<Rightarrow> wf_payload handler" where
  "f_output vj = (''output'', at_field (dec_struct (ref_handlers vj)) pl_Output (\<lambda>v p. p\<lparr>pl_Output := v\<rparr>))"
definition f_attempt :: "wf_payload handler" where
  "f_attempt = (''attempt'', at_field dec_int pl_Attempt (\<lambda>v p. p\<lparr>pl_Attempt := v\<rparr>))"
definition f_at :: "wf_payload handler" where
  "f_at = (''at'', at_field dec_time pl_At (\<lambda>v p. p\<lparr>pl_At := v\<rparr>))"

lemmas payload_fields = f_run_id_def f_workflow_name_def f_definition_hash_def f_definition_version_def f_step_id_def f_action_name_def f_action_version_def f_idempotency_key_def f_error_def f_reason_def f_metadata_def f_input_def
  f_output_def f_attempt_def f_at_def

definition opened_fields :: "value_json \<Rightarrow> wf_payload handler list" where
  "opened_fields vj = [f_run_id, f_workflow_name, f_metadata, f_input vj, f_definition_hash, f_definition_version, f_at]"
definition step_fields :: "wf_payload handler list \<Rightarrow> wf_payload handler list" where
  "step_fields extra = [f_run_id, f_workflow_name, f_step_id, f_action_name, f_action_version] @ extra @ [f_idempotency_key, f_at]"
definition closed_fields :: "wf_payload handler \<Rightarrow> wf_payload handler list" where
  "closed_fields h = [f_run_id, f_workflow_name, h, f_at]"

definition EventQueued :: string where "EventQueued = ''workflow.queued''"
definition EventStarted :: string where "EventStarted = ''workflow.started''"
definition EventStepStarted :: string where "EventStepStarted = ''workflow.step_started''"
definition EventStepCompleted :: string where "EventStepCompleted = ''workflow.step_completed''"
definition EventStepFailed :: string where "EventStepFailed = ''workflow.step_failed''"
definition EventStepSkipped :: string where "EventStepSkipped = ''workflow.step_skipped''"
definition EventCompleted :: string where "EventCompleted = ''workflow.completed''"
definition EventFailed :: string where "EventFailed = ''workflow.failed''"
definition EventCanceled :: string where "EventCanceled = ''workflow.canceled''"

lemmas workflow_kind_defs = EventQueued_def EventStarted_def EventStepStarted_def EventStepCompleted_def EventStepFailed_def EventStepSkipped_def EventCompleted_def EventFailed_def EventCanceled_def

section \<open>Events in a thread\<close>

datatype thread_run_error =
    RunErr run_error
  | MarshalEvent string
  | EventPayloadRequired string
  | DecodeEvent string
  | RecorderLiveNil
  | StoreLiveNil
  | StoreNil
  | StoreThreadIDRequired
  | RunIDMismatch string string
  | RunThreadErr thread_error

definition enc_at :: "time \<Rightarrow> (string \<times> json) list option" where
  "enc_at t = (if time_json_range t then Some (fld ''at'' (JTime t)) else None)"

definition enc_opened :: "value_json \<Rightarrow> run_opened \<Rightarrow> json option" where
  "enc_opened vj q =
     (case (enc_ref vj (ro_Input q), enc_at (ro_At q)) of
        (Some j, Some a) \<Rightarrow> Some (JObj (fld ''run_id'' (JStr (ro_RunID q)) @ fld ''workflow_name'' (JStr (ro_WorkflowName q)) @
          fld ''metadata'' (enc_metadata (ro_Metadata q)) @ fld ''input'' j @
          omit_str ''definition_hash'' (ro_DefinitionHash q) @ omit_str ''definition_version'' (ro_DefinitionVersion q) @ a))
      | _ \<Rightarrow> None)"

definition enc_step_event :: "step_info \<Rightarrow> (string \<times> json) list option \<Rightarrow> json option" where
  "enc_step_event i extra =
     (case (extra, enc_at (si_At i)) of
        (Some m, Some a) \<Rightarrow> Some (JObj (fld ''run_id'' (JStr (si_RunID i)) @ fld ''workflow_name'' (JStr (si_WorkflowName i)) @
          fld ''step_id'' (JStr (si_StepID i)) @ fld ''action_name'' (JStr (si_ActionName i)) @
          omit_str ''action_version'' (si_ActionVersion i) @ m @ omit_str ''idempotency_key'' (si_IdempotencyKey i) @ a))
      | _ \<Rightarrow> None)"

definition enc_closed :: "run_closed \<Rightarrow> (string \<times> json) list option \<Rightarrow> json option" where
  "enc_closed c extra =
     (case (extra, enc_at (rc_At c)) of
        (Some m, Some a) \<Rightarrow> Some (JObj (fld ''run_id'' (JStr (rc_RunID c)) @ fld ''workflow_name'' (JStr (rc_WorkflowName c)) @ m @ a))
      | _ \<Rightarrow> None)"

fun workflowThreadEventPayload :: "value_json \<Rightarrow> wf_event \<Rightarrow> (string \<times> json option) option" where
  "workflowThreadEventPayload vj (Queued q) = Some (EventQueued, enc_opened vj q)"
| "workflowThreadEventPayload vj (Started q) = Some (EventStarted, enc_opened vj q)"
| "workflowThreadEventPayload vj (StepStarted i k) =
     Some (EventStepStarted, enc_step_event i (Some (fld ''attempt'' (JNum k))))"
| "workflowThreadEventPayload vj (StepCompleted i k v) =
     Some (EventStepCompleted, enc_step_event i (map_option (\<lambda>j. fld ''attempt'' (JNum k) @ fld ''output'' j) (enc_ref vj v)))"
| "workflowThreadEventPayload vj (StepFailed i k e) =
     Some (EventStepFailed, enc_step_event i (Some (fld ''attempt'' (JNum k) @ fld ''error'' (JStr e))))"
| "workflowThreadEventPayload vj (StepSkipped i r) = Some (EventStepSkipped, enc_step_event i (Some (omit_str ''reason'' r)))"
| "workflowThreadEventPayload vj (Completed c v) =
     Some (EventCompleted, enc_closed c (map_option (fld ''output'') (enc_ref vj v)))"
| "workflowThreadEventPayload vj (Failed c e) = Some (EventFailed, enc_closed c (Some (fld ''error'' (JStr e))))"
| "workflowThreadEventPayload vj (Canceled c r) = Some (EventCanceled, enc_closed c (Some (omit_str ''reason'' r)))"
| "workflowThreadEventPayload vj _ = None"

definition ThreadEventForWorkflowEvent :: "value_json \<Rightarrow> wf_event \<Rightarrow> (thread_run_error, event option) result" where
  "ThreadEventForWorkflowEvent vj e =
     (case workflowThreadEventPayload vj e of
        None \<Rightarrow> Inr None
      | Some (kind, None) \<Rightarrow> Inl (MarshalEvent kind)
      | Some (kind, Some j) \<Rightarrow> Inr (Some (no_event\<lparr>ev_Kind := kind, ev_Payload := Doc j\<rparr>)))"

definition decodeWorkflowThreadEvent ::
  "event \<Rightarrow> wf_payload handler list \<Rightarrow> (thread_run_error, wf_payload) result" where
  "decodeWorkflowThreadEvent ev hs =
     (if ev_Payload ev = NoBytes then Inl (EventPayloadRequired (ev_Kind ev))
      else case Unmarshal (dec_struct hs) (ev_Payload ev) no_payload of
        Inl _ \<Rightarrow> Inl (DecodeEvent (ev_Kind ev)) | Inr p \<Rightarrow> Inr p)"

definition opened_of :: "wf_payload \<Rightarrow> run_opened" where
  "opened_of p = \<lparr>ro_RunID = pl_RunID p, ro_WorkflowName = pl_WorkflowName p, ro_Metadata = pl_Metadata p, ro_Input = pl_Input p,
     ro_DefinitionHash = pl_DefinitionHash p, ro_DefinitionVersion = pl_DefinitionVersion p, ro_At = pl_At p\<rparr>"

definition info_from :: "wf_payload \<Rightarrow> step_info" where
  "info_from p = \<lparr>si_RunID = pl_RunID p, si_WorkflowName = pl_WorkflowName p, si_StepID = pl_StepID p,
     si_ActionName = pl_ActionName p, si_ActionVersion = pl_ActionVersion p, si_IdempotencyKey = pl_IdempotencyKey p, si_At = pl_At p\<rparr>"

definition closed_of :: "wf_payload \<Rightarrow> run_closed" where
  "closed_of p = \<lparr>rc_RunID = pl_RunID p, rc_WorkflowName = pl_WorkflowName p, rc_At = pl_At p\<rparr>"

definition WorkflowEventForThreadEvent :: "value_json \<Rightarrow> event \<Rightarrow> (thread_run_error, wf_event option) result" where
  "WorkflowEventForThreadEvent vj ev =
     (let as = (\<lambda>hs f. rbind (decodeWorkflowThreadEvent ev hs) (\<lambda>p. Inr (Some (f p)))); k = ev_Kind ev in
      if k = EventQueued then as (opened_fields vj) (\<lambda>p. Queued (opened_of p))
      else if k = EventStarted then as (opened_fields vj) (\<lambda>p. Started (opened_of p))
      else if k = EventStepStarted then as (step_fields [f_attempt]) (\<lambda>p. StepStarted (info_from p) (pl_Attempt p))
      else if k = EventStepCompleted then
        as (step_fields [f_attempt, f_output vj]) (\<lambda>p. StepCompleted (info_from p) (pl_Attempt p) (pl_Output p))
      else if k = EventStepFailed then
        as (step_fields [f_attempt, f_error]) (\<lambda>p. StepFailed (info_from p) (pl_Attempt p) (pl_Error p))
      else if k = EventStepSkipped then as (step_fields [f_reason]) (\<lambda>p. StepSkipped (info_from p) (pl_Reason p))
      else if k = EventCompleted then as (closed_fields (f_output vj)) (\<lambda>p. Completed (closed_of p) (pl_Output p))
      else if k = EventFailed then as (closed_fields f_error) (\<lambda>p. Failed (closed_of p) (pl_Error p))
      else if k = EventCanceled then as (closed_fields f_reason) (\<lambda>p. Canceled (closed_of p) (pl_Reason p))
      else Inr None)"

section \<open>Round trips\<close>

lemma workflow_names [simp]:
  "fold_name ''id'' = ''id''"
  "fold_name ''media_type'' = ''media_type''"
  "fold_name ''inline'' = ''inline''"
  "fold_name ''external_uri'' = ''external_uri''"
  "fold_name ''redacted'' = ''redacted''"
  "fold_name ''session_id'' = ''session_id''"
  "fold_name ''agent_name'' = ''agent_name''"
  "fold_name ''thread_id'' = ''thread_id''"
  "fold_name ''branch_id'' = ''branch_id''"
  "fold_name ''trigger'' = ''trigger''"
  "fold_name ''command_path'' = ''command_path''"
  "fold_name ''run_id'' = ''run_id''"
  "fold_name ''workflow_name'' = ''workflow_name''"
  "fold_name ''metadata'' = ''metadata''"
  "fold_name ''input'' = ''input''"
  "fold_name ''definition_hash'' = ''definition_hash''"
  "fold_name ''definition_version'' = ''definition_version''"
  "fold_name ''step_id'' = ''step_id''"
  "fold_name ''action_name'' = ''action_name''"
  "fold_name ''action_version'' = ''action_version''"
  "fold_name ''attempt'' = ''attempt''"
  "fold_name ''idempotency_key'' = ''idempotency_key''"
  "fold_name ''output'' = ''output''"
  "fold_name ''error'' = ''error''"
  "fold_name ''reason'' = ''reason''"
  "fold_name ''at'' = ''at''"
  by code_simp+

lemma dec_enc_ref:
  assumes "native (vr_Inline r)"
  shows "\<exists>j. enc_ref vj r = Some j \<and> dec_struct (ref_handlers vj) j no_ref = Inr r"
proof -
  obtain j where j: "enc_value vj (vr_Inline r) = Some j" "dec_value vj j = vr_Inline r" using dec_enc_value [OF assms] by blast
  have "dec_struct (ref_handlers vj) (JObj (omit_str ''id'' (vr_ID r) @ omit_str ''media_type'' (vr_MediaType r) @
      (if vr_Inline r = VNil then [] else fld ''inline'' j) @ omit_str ''external_uri'' (vr_ExternalURI r) @
      omit_bool ''redacted'' (vr_Redacted r))) no_ref = Inr r"
    using j(2) by (simp add: dec_fields_append dec_fields_omit_str dec_fields_omit_bool ref_handlers_def no_ref_def)
  then show ?thesis using j(1) by (simp add: enc_ref_def)
qed

lemma dec_enc_metadata: "dec_struct metadata_handlers (enc_metadata m) no_metadata = Inr m"
  by (simp add: enc_metadata_def dec_fields_append dec_fields_omit_str dec_fields_omit_strs metadata_handlers_def no_metadata_def)

interpretation metadata_codec: codec enc_metadata "dec_struct metadata_handlers" no_metadata "\<lambda>_. True"
  by unfold_locales (rule dec_enc_metadata)

text \<open>The events whose thread form reads back as the event.\<close>

fun storable :: "wf_event \<Rightarrow> bool" where
  "storable (Queued q) = (native (vr_Inline (ro_Input q)) \<and> time_json_range (ro_At q))"
| "storable (Started q) = (native (vr_Inline (ro_Input q)) \<and> time_json_range (ro_At q))"
| "storable (StepStarted i k) = (int64_range k \<and> time_json_range (si_At i))"
| "storable (StepCompleted i k v) = (int64_range k \<and> native (vr_Inline v) \<and> time_json_range (si_At i))"
| "storable (StepFailed i k e) = (int64_range k \<and> time_json_range (si_At i))"
| "storable (StepSkipped i r) = time_json_range (si_At i)"
| "storable (Completed c v) = (native (vr_Inline v) \<and> time_json_range (rc_At c))"
| "storable (Failed c e) = time_json_range (rc_At c)"
| "storable (Canceled c r) = time_json_range (rc_At c)"
| "storable PtrEvent = True"
| "storable (OtherEvent k) = True"

lemmas payload_simps = dec_fields_append dec_fields_omit_str at_field_apply payload_fields no_payload_def enc_at_def

lemma dec_opened:
  assumes "native (vr_Inline (ro_Input q))" "time_json_range (ro_At q)"
  shows "\<exists>j p. enc_opened vj q = Some j \<and> dec_struct (opened_fields vj) j no_payload = Inr p \<and> opened_of p = q"
proof -
  obtain j where "enc_ref vj (ro_Input q) = Some j" "dec_struct (ref_handlers vj) j no_ref = Inr (ro_Input q)"
    using dec_enc_ref [OF assms(1)] by blast
  then show ?thesis using assms(2)
    by (simp add: enc_opened_def opened_fields_def opened_of_def dec_enc_metadata payload_simps)
qed

lemma dec_step_started:
  assumes "int64_range k" "time_json_range (si_At i)"
  shows "\<exists>j p. enc_step_event i (Some (fld ''attempt'' (JNum k))) = Some j \<and>
    dec_struct (step_fields [f_attempt]) j no_payload = Inr p \<and> info_from p = i \<and> pl_Attempt p = k"
  using assms by (simp add: enc_step_event_def step_fields_def info_from_def payload_simps)

lemma dec_step_completed:
  assumes "int64_range k" "time_json_range (si_At i)" "native (vr_Inline v)"
  shows "\<exists>j p. enc_step_event i (map_option (\<lambda>j. fld ''attempt'' (JNum k) @ fld ''output'' j) (enc_ref vj v)) = Some j \<and>
    dec_struct (step_fields [f_attempt, f_output vj]) j no_payload = Inr p \<and> info_from p = i \<and> pl_Attempt p = k \<and> pl_Output p = v"
proof -
  obtain j where "enc_ref vj v = Some j" "dec_struct (ref_handlers vj) j no_ref = Inr v" using dec_enc_ref [OF assms(3)] by blast
  then show ?thesis using assms(1,2) by (simp add: enc_step_event_def step_fields_def info_from_def payload_simps)
qed

lemma dec_step_failed:
  assumes "int64_range k" "time_json_range (si_At i)"
  shows "\<exists>j p. enc_step_event i (Some (fld ''attempt'' (JNum k) @ fld ''error'' (JStr e))) = Some j \<and>
    dec_struct (step_fields [f_attempt, f_error]) j no_payload = Inr p \<and> info_from p = i \<and> pl_Attempt p = k \<and> pl_Error p = e"
  using assms by (simp add: enc_step_event_def step_fields_def info_from_def payload_simps)

lemma dec_step_skipped:
  assumes "time_json_range (si_At i)"
  shows "\<exists>j p. enc_step_event i (Some (omit_str ''reason'' r)) = Some j \<and>
    dec_struct (step_fields [f_reason]) j no_payload = Inr p \<and> info_from p = i \<and> pl_Reason p = r"
  using assms by (simp add: enc_step_event_def step_fields_def info_from_def payload_simps)

lemma dec_closed:
  assumes "time_json_range (rc_At c)"
  shows "native (vr_Inline v) \<Longrightarrow> \<exists>j p. enc_closed c (map_option (fld ''output'') (enc_ref vj v)) = Some j \<and>
      dec_struct (closed_fields (f_output vj)) j no_payload = Inr p \<and> closed_of p = c \<and> pl_Output p = v"
    and "\<exists>j p. enc_closed c (Some (fld ''error'' (JStr e))) = Some j \<and>
      dec_struct (closed_fields f_error) j no_payload = Inr p \<and> closed_of p = c \<and> pl_Error p = e"
    and "\<exists>j p. enc_closed c (Some (omit_str ''reason'' e)) = Some j \<and>
      dec_struct (closed_fields f_reason) j no_payload = Inr p \<and> closed_of p = c \<and> pl_Reason p = e"
  using assms dec_enc_ref [of v vj] by (auto simp: enc_closed_def closed_fields_def closed_of_def payload_simps)

lemma thread_event_other: "\<not> is_workflow e \<Longrightarrow> ThreadEventForWorkflowEvent vj e = Inr None"
  by (cases e) (simp_all add: ThreadEventForWorkflowEvent_def)

lemma decode_stored:
  assumes "enc = Some j" "dec_struct hs j no_payload = Inr p" "ev_Payload ev = Doc j"
  shows "decodeWorkflowThreadEvent ev hs = Inr p"
  using assms by (simp add: decodeWorkflowThreadEvent_def)

lemmas thread_decode = WorkflowEventForThreadEvent_def decode_stored workflow_kind_defs

text \<open>An event in its thread form, and any stored event of the same kind and payload, decodes to it.\<close>

lemma thread_event_decodes:
  assumes "is_workflow e" "storable e"
  shows "\<exists>kind j. workflowThreadEventPayload vj e = Some (kind, Some j) \<and>
    (\<forall>ev. ev_Kind ev = kind \<and> ev_Payload ev = Doc j \<longrightarrow> WorkflowEventForThreadEvent vj ev = Inr (Some e))"
proof (cases e)
  case (Queued q)
  with assms dec_opened [of q vj] show ?thesis
    by (fastforce simp: thread_decode)
next
  case (Started q)
  with assms dec_opened [of q vj] show ?thesis
    by (fastforce simp: thread_decode)
next
  case (StepStarted i k)
  with assms dec_step_started [of k i] show ?thesis
    by (fastforce simp: thread_decode)
next
  case (StepCompleted i k v)
  with assms dec_step_completed [of k i v vj] show ?thesis
    by (fastforce simp: thread_decode)
next
  case (StepFailed i k m)
  with assms dec_step_failed [of k i m] show ?thesis
    by (fastforce simp: thread_decode)
next
  case (StepSkipped i r)
  with assms dec_step_skipped [of i r] show ?thesis
    by (fastforce simp: thread_decode)
next
  case (Completed c v)
  with assms dec_closed(1) [of c v vj] show ?thesis
    by (fastforce simp: thread_decode)
next
  case (Failed c m)
  with assms dec_closed(2) [of c m] show ?thesis
    by (fastforce simp: thread_decode)
next
  case (Canceled c m)
  with assms dec_closed(3) [of c m] show ?thesis
    by (fastforce simp: thread_decode)
qed (use assms in simp_all)

section \<open>The recorder\<close>

record thread_recorder =
  rec_Live :: "memory_live option"
  rec_err :: "thread_run_error list"

definition ThreadRecorder_Record ::
  "value_json \<Rightarrow> go_ctx \<Rightarrow> gen \<Rightarrow> thread_recorder \<Rightarrow> wf_event \<Rightarrow> memory_store \<Rightarrow> (thread_run_error, unit) result \<times> memory_store" where
  "ThreadRecorder_Record vj ctx g r e s =
     (case ThreadEventForWorkflowEvent vj e of
        Inl err \<Rightarrow> (Inl err, s)
      | Inr None \<Rightarrow> (Inr (), s)
      | Inr (Some ev) \<Rightarrow>
          (case rec_Live r of
             None \<Rightarrow> (Inl RecorderLiveNil, s)
           | Some l \<Rightarrow> (case memoryLive_Append ctx g l [ev] s of
               (Inl err, s') \<Rightarrow> (Inl (RunThreadErr err), s') | (Inr _, s') \<Rightarrow> (Inr (), s'))))"

definition ThreadRecorder_OnEvent ::
  "value_json \<Rightarrow> go_ctx \<Rightarrow> gen \<Rightarrow> thread_recorder \<Rightarrow> wf_event \<Rightarrow> memory_store \<Rightarrow> thread_recorder \<times> memory_store" where
  "ThreadRecorder_OnEvent vj ctx g r e s =
     (case ThreadRecorder_Record vj ctx g r e s of
        (Inl err, s') \<Rightarrow> (r\<lparr>rec_err := rec_err r @ [err]\<rparr>, s') | (Inr _, s') \<Rightarrow> (r, s'))"

section \<open>The run store\<close>

record thread_run_store =
  trs_Store :: bool
  trs_Live :: "memory_live option"
  trs_ThreadID :: string
  trs_BranchID :: string

fun run_batch :: "value_json \<Rightarrow> string \<Rightarrow> wf_event list \<Rightarrow> (thread_run_error, event list) result" where
  "run_batch vj run [] = Inr []"
| "run_batch vj run (e # es) =
     (if workflowEventRunID e \<noteq> [] \<and> workflowEventRunID e \<noteq> run then Inl (RunIDMismatch (workflowEventRunID e) run)
      else rbind (ThreadEventForWorkflowEvent vj e) (\<lambda>ev.
        rbind (run_batch vj run es) (\<lambda>evs. Inr (case ev of None \<Rightarrow> evs | Some ev \<Rightarrow> ev # evs))))"

definition ThreadRunStore_Append ::
  "value_json \<Rightarrow> go_ctx \<Rightarrow> gen \<Rightarrow> thread_run_store \<Rightarrow> string \<Rightarrow> wf_event list \<Rightarrow> memory_store \<Rightarrow>
     (thread_run_error, unit) result \<times> memory_store" where
  "ThreadRunStore_Append vj ctx g ts run es s =
     (case ctx of Some err \<Rightarrow> (Inl (RunErr (RunCtxErr err)), s) | None \<Rightarrow>
        if es = [] then (Inr (), s)
        else case trs_Live ts of
          None \<Rightarrow> (Inl StoreLiveNil, s)
        | Some l \<Rightarrow>
            (case run_batch vj run es of
               Inl err \<Rightarrow> (Inl err, s)
             | Inr evs \<Rightarrow>
                 if evs = [] then (Inr (), s)
                 else (case memoryLive_Append ctx g l evs s of
                   (Inl err, s') \<Rightarrow> (Inl (RunThreadErr err), s') | (Inr _, s') \<Rightarrow> (Inr (), s'))))"

definition trs_thread :: "thread_run_store \<Rightarrow> string" where
  "trs_thread ts = (if trs_ThreadID ts = [] then (case trs_Live ts of None \<Rightarrow> [] | Some l \<Rightarrow> ml_threadID l) else trs_ThreadID ts)"

fun decode_thread :: "value_json \<Rightarrow> event list \<Rightarrow> (thread_run_error, wf_event list) result" where
  "decode_thread vj [] = Inr []"
| "decode_thread vj (ev # evs) =
     rbind (WorkflowEventForThreadEvent vj ev) (\<lambda>e. rbind (decode_thread vj evs) (\<lambda>es.
       Inr (case e of None \<Rightarrow> es | Some e \<Rightarrow> e # es)))"

text \<open>Reading a branch that does not return makes these operations not return.\<close>

definition ThreadRunStore_allEvents ::
  "value_json \<Rightarrow> go_ctx \<Rightarrow> thread_run_store \<Rightarrow> memory_store \<Rightarrow> (thread_run_error, wf_event list) result option" where
  "ThreadRunStore_allEvents vj ctx ts s =
     (case ctx of Some err \<Rightarrow> Some (Inl (RunErr (RunCtxErr err))) | None \<Rightarrow>
        if \<not> trs_Store ts then Some (Inl StoreNil)
        else if trs_thread ts = [] then Some (Inl StoreThreadIDRequired)
        else case MemoryStore_Read ctx (trs_thread ts) s of
          Inl err \<Rightarrow> Some (Inl (RunThreadErr err))
        | Inr st \<Rightarrow>
            (case EventsForBranch st (trs_BranchID ts) of
               None \<Rightarrow> None
             | Some (Inl err) \<Rightarrow> Some (Inl (RunThreadErr err))
             | Some (Inr evs) \<Rightarrow> Some (decode_thread vj evs)))"

definition ThreadRunStore_Events ::
  "value_json \<Rightarrow> go_ctx \<Rightarrow> thread_run_store \<Rightarrow> string \<Rightarrow> memory_store \<Rightarrow> (thread_run_error, wf_event list option) result option" where
  "ThreadRunStore_Events vj ctx ts run s =
     map_option (\<lambda>r. rbind r (\<lambda>es.
       let out = filter (\<lambda>e. workflowEventRunID e = run) es in Inr (if out = [] then None else Some out)))
     (ThreadRunStore_allEvents vj ctx ts s)"

definition ThreadRunStore_State ::
  "value_json \<Rightarrow> go_ctx \<Rightarrow> thread_run_store \<Rightarrow> string \<Rightarrow> memory_store \<Rightarrow> (thread_run_error, run_state option) result option" where
  "ThreadRunStore_State vj ctx ts run s =
     map_option (\<lambda>r. rbind r (\<lambda>es. case es of None \<Rightarrow> Inr None | Some es \<Rightarrow> map_sum RunErr id (ProjectRun es run)))
     (ThreadRunStore_Events vj ctx ts run s)"

record run_summary =
  su_ID :: string
  su_WorkflowName :: string
  su_Status :: run_status
  su_StartedAt :: time
  su_CompletedAt :: time
  su_Duration :: int
  su_Error :: string
  su_Metadata :: run_metadata
  su_Input :: value_ref
  su_DefinitionHash :: string
  su_DefinitionVersion :: string

definition summary_of :: "run_state \<Rightarrow> run_summary" where
  "summary_of st = \<lparr>su_ID = rst_ID st, su_WorkflowName = rst_WorkflowName st, su_Status = rst_Status st,
     su_StartedAt = rst_StartedAt st, su_CompletedAt = rst_CompletedAt st, su_Duration = rst_Duration st,
     su_Error = rst_Error st, su_Metadata = rst_Metadata st, su_Input = rst_Input st,
     su_DefinitionHash = rst_DefinitionHash st, su_DefinitionVersion = rst_DefinitionVersion st\<rparr>"

text \<open>
  The order of summaries: those that never started last, then by start, then by identifier. The map of
  states is visited in the order \<^verbatim>\<open>iter\<close> lists its keys.
\<close>

definition summary_key :: "run_summary \<Rightarrow> bool \<times> int \<times> string" where
  "summary_key su = (su_StartedAt su = zero_time, su_StartedAt su, su_ID su)"

definition ThreadRunStore_Runs ::
  "value_json \<Rightarrow> go_ctx \<Rightarrow> string list \<Rightarrow> thread_run_store \<Rightarrow> memory_store \<Rightarrow> (thread_run_error, run_summary list) result option" where
  "ThreadRunStore_Runs vj ctx iter ts s =
     map_option (\<lambda>r. rbind r (\<lambda>es. rbind (map_sum RunErr id (Project es)) (\<lambda>states.
       Inr (sort_key summary_key (map summary_of (List.map_filter (fmlookup states) iter))))))
     (ThreadRunStore_allEvents vj ctx ts s)"

section \<open>What is appended is read back\<close>

lemma decode_thread_append:
  "decode_thread vj (xs @ ys) = rbind (decode_thread vj xs) (\<lambda>es. rbind (decode_thread vj ys) (\<lambda>fs. Inr (es @ fs)))"
proof (induction xs)
  case Nil
  then show ?case by (cases "decode_thread vj ys") simp_all
next
  case (Cons x xs)
  then show ?case
    by (cases "WorkflowEventForThreadEvent vj x"; cases "decode_thread vj xs"; cases "decode_thread vj ys")
      (auto split: option.splits)
qed

lemma decoded_workflow: "WorkflowEventForThreadEvent vj ev = Inr (Some e) \<Longrightarrow> is_workflow e"
  by (auto simp: WorkflowEventForThreadEvent_def Let_def rbind_Inr_iff split: if_splits)

lemma decode_thread_workflow: "decode_thread vj evs = Inr es \<Longrightarrow> filter is_workflow es = es"
  by (induction evs arbitrary: es) (auto simp: rbind_Inr_iff split: option.splits dest: decoded_workflow)

lemma run_batch_decodes:
  assumes "run_batch vj run es = Inr evs" "\<forall>e \<in> set es. storable e"
    and "map (\<lambda>e. (ev_Kind e, ev_Payload e)) new = map (\<lambda>e. (ev_Kind e, ev_Payload e)) evs"
  shows "decode_thread vj new = Inr (filter is_workflow es)"
  using assms
proof (induction es arbitrary: evs new)
  case (Cons e es)
  obtain ev evs1 where ev: "ThreadEventForWorkflowEvent vj e = Inr ev" "run_batch vj run es = Inr evs1"
    "evs = (case ev of None \<Rightarrow> evs1 | Some x \<Rightarrow> x # evs1)" using Cons.prems(1) by (auto simp: rbind_Inr_iff split: if_splits)
  show ?case
  proof (cases "is_workflow e")
    case False
    then have "evs = evs1" using ev thread_event_other [OF False, of vj] by simp
    then show ?thesis using Cons.IH [OF ev(2)] Cons.prems(2,3) False by simp
  next
    case True
    obtain kind j where k: "workflowThreadEventPayload vj e = Some (kind, Some j)"
      "\<And>ev. ev_Kind ev = kind \<and> ev_Payload ev = Doc j \<Longrightarrow> WorkflowEventForThreadEvent vj ev = Inr (Some e)"
      using thread_event_decodes [OF True, of vj] Cons.prems(2) by auto
    then have "evs = no_event\<lparr>ev_Kind := kind, ev_Payload := Doc j\<rparr> # evs1"
      using ev by (auto simp: ThreadEventForWorkflowEvent_def)
    then obtain n new1 where n: "new = n # new1" "ev_Kind n = kind \<and> ev_Payload n = Doc j"
      "map (\<lambda>e. (ev_Kind e, ev_Payload e)) new1 = map (\<lambda>e. (ev_Kind e, ev_Payload e)) evs1"
      using Cons.prems(3) by (cases new) auto
    then show ?thesis using Cons.IH [OF ev(2) _ n(3)] Cons.prems(2) k(2) [OF n(2)] True by simp
  qed
qed simp

lemma run_batch_branch: "run_batch vj run es = Inr evs \<Longrightarrow> \<forall>ev \<in> set evs. ev_BranchID ev = []"
  by (induction es arbitrary: evs)
    (auto simp: rbind_Inr_iff ThreadEventForWorkflowEvent_def no_event_def split: if_splits option.splits prod.splits)

lemma run_batch_ids: "run_batch vj run es = Inr evs \<Longrightarrow> e \<in> set es \<Longrightarrow> workflowEventRunID e \<in> {[], run}"
  by (induction es arbitrary: evs) (auto simp: rbind_Inr_iff split: if_splits)

text \<open>A run store that reads the branch its live handle appends to.\<close>

definition store_ok :: "thread_run_store \<Rightarrow> memory_live \<Rightarrow> bool" where
  "store_ok ts l \<longleftrightarrow> trs_Store ts \<and> trs_Live ts = Some l \<and> trs_thread ts = ml_threadID l \<and> ml_threadID l \<noteq> [] \<and>
     trs_BranchID ts = ml_branchID l \<and> ml_branchID l \<noteq> []"

lemma allEvents_view:
  assumes "store_ok ts l" "store_inv s" "ThreadRunStore_allEvents vj None ts s = Some (Inr old)"
  obtains t br view where "fmlookup (ms_threads s) (ml_threadID l) = Some t" "fmlookup (mt_branches t) (ml_branchID l) = Some br"
    "EventsForBranch (snapshot t) (ml_branchID l) = Some (Inr view)" "decode_thread vj view = Inr old"
proof -
  obtain t view where t: "fmlookup (ms_threads s) (ml_threadID l) = Some t"
    "EventsForBranch (snapshot t) (ml_branchID l) = Some (Inr view)" "decode_thread vj view = Inr old"
    using assms(1,3) by (auto simp: store_ok_def ThreadRunStore_allEvents_def MemoryStore_Read_def split: option.splits sum.splits)
  moreover have "mt_branches t \<noteq> fmempty" using store_invD [OF assms(2) t(1)] by (auto simp: thread_inv_def)
  then have "fmlookup (mt_branches t) (ml_branchID l) \<noteq> None"
    using t(2) EventsForBranch_missing [of "ml_branchID l" "snapshot t"] assms(1) by (auto simp: store_ok_def)
  ultimately show thesis using that by blast
qed

lemma allEvents_eq:
  assumes "store_ok ts l" "fmlookup (ms_threads s) (ml_threadID l) = Some t"
    and "EventsForBranch (snapshot t) (ml_branchID l) = Some (Inr view)" "decode_thread vj view = Inr es"
  shows "ThreadRunStore_allEvents vj None ts s = Some (Inr es)"
  using assms by (simp add: store_ok_def ThreadRunStore_allEvents_def MemoryStore_Read_def)

lemma thread_append:
  assumes ok: "store_ok ts l" "store_inv s" "ThreadRunStore_allEvents vj None ts s = Some (Inr old)"
    and app: "ThreadRunStore_Append vj None g ts run es s = (Inr (), s')" "\<forall>e \<in> set es. storable e"
  shows "ThreadRunStore_allEvents vj None ts s' = Some (Inr (old @ filter is_workflow es))" "store_inv s'"
    and "e \<in> set es \<Longrightarrow> workflowEventRunID e \<in> {[], run}"
proof -
  have "ThreadRunStore_allEvents vj None ts s' = Some (Inr (old @ filter is_workflow es)) \<and> store_inv s' \<and>
      (\<forall>e \<in> set es. workflowEventRunID e \<in> {[], run})"
  proof (cases "es = []")
    case True
    then show ?thesis using ok app by (simp add: ThreadRunStore_Append_def)
  next
    case False
    obtain evs where evs: "run_batch vj run es = Inr evs" and s': "evs = [] \<and> s' = s \<or> memoryLive_Append None g l evs s = (Inr (), s')"
      using app(1) ok(1) False by (auto simp: ThreadRunStore_Append_def store_ok_def split: sum.splits if_splits prod.splits)
    from allEvents_view [OF ok] obtain t br view where v: "fmlookup (ms_threads s) (ml_threadID l) = Some t"
      "fmlookup (mt_branches t) (ml_branchID l) = Some br" "EventsForBranch (snapshot t) (ml_branchID l) = Some (Inr view)"
      "decode_thread vj view = Inr old" .
    have a: "memoryLive_Append None g l evs s = (Inr (), s')"
      using s' by (elim disjE conjE) (simp_all add: memoryLive_Append_def)
    have lb: "ml_branchID l \<noteq> []" using ok(1) by (simp add: store_ok_def)
    obtain t' new where n: "fmlookup (ms_threads s') (ml_threadID l) = Some t'"
      "EventsForBranch (snapshot t') (ml_branchID l) = Some (Inr (view @ new))"
      "map (\<lambda>e. (ev_Kind e, ev_Payload e)) new = map (\<lambda>e. (ev_Kind e, ev_Payload e)) evs"
      by (rule append_own_branch [OF ok(2) a lb v(1,2) run_batch_branch [OF evs]]) (use v(3) in simp)
    from run_batch_decodes [OF evs app(2) n(3)] v(4)
    have "decode_thread vj (view @ new) = Inr (old @ filter is_workflow es)" by (simp add: decode_thread_append)
    from allEvents_eq [OF ok(1) n(1,2) this] Append_inv [OF ok(2) a] run_batch_ids [OF evs] show ?thesis by blast
  qed
  then show "ThreadRunStore_allEvents vj None ts s' = Some (Inr (old @ filter is_workflow es))" "store_inv s'"
    "e \<in> set es \<Longrightarrow> workflowEventRunID e \<in> {[], run}" by blast+
qed

section \<open>The thread store implements the run store\<close>

lemma ThreadRunStore_State_eq:
  assumes "ThreadRunStore_allEvents vj None ts s = Some (Inr es)" "filter is_workflow es = es"
  shows "ThreadRunStore_State vj None ts r s = Some (Inr (run_of (run_events r es)))"
proof -
  have f: "filter (\<lambda>e. workflowEventRunID e = r) es = run_events r es"
    unfolding run_events_def by (subst assms(2) [symmetric]) (simp only: filter_filter)
  have "PtrEvent \<notin> set es" using assms(2) by (metis filter_id_conv is_workflow.simps(1))
  then have "PtrEvent \<notin> set (run_events r es)" "run_events r (run_events r es) = run_events r es"
    by (auto simp: run_events_def)
  then show ?thesis
    using assms(1) f by (simp add: ThreadRunStore_State_def ThreadRunStore_Events_def Let_def ProjectRun_eq run_of_def)
qed

definition stored_events :: "run_store \<Rightarrow> string \<Rightarrow> wf_event list" where
  "stored_events m r = (case fmlookup m r of None \<Rightarrow> [] | Some es \<Rightarrow> es)"

definition run_rel :: "value_json \<Rightarrow> thread_run_store \<Rightarrow> run_store \<Rightarrow> memory_store \<Rightarrow> bool" where
  "run_rel vj ts m s \<longleftrightarrow> store_inv s \<and> (\<forall>r. PtrEvent \<notin> set (stored_events m r)) \<and>
     (\<exists>es. ThreadRunStore_allEvents vj None ts s = Some (Inr es) \<and>
        (\<forall>r. r \<noteq> [] \<longrightarrow> run_events r es = run_events r (stored_events m r)))"

lemma MemoryRunStore_State_eq:
  "PtrEvent \<notin> set (stored_events m r) \<Longrightarrow> MemoryRunStore_State None r m = Inr (run_of (run_events r (stored_events m r)))"
  by (auto simp: MemoryRunStore_State_def MemoryRunStore_Events_def stored_events_def ProjectRun_eq run_events_def run_of_def
      split: option.splits)

lemma allEvents_workflow:
  "ThreadRunStore_allEvents vj None ts s = Some (Inr es) \<Longrightarrow> filter is_workflow es = es"
  by (auto simp: ThreadRunStore_allEvents_def split: if_splits sum.splits option.splits dest: decode_thread_workflow)

lemma run_rel_State:
  assumes "run_rel vj ts m s" "r \<noteq> []"
  shows "\<exists>st. MemoryRunStore_State None r m = Inr st \<and> ThreadRunStore_State vj None ts r s = Some (Inr st)"
proof -
  obtain es where e: "ThreadRunStore_allEvents vj None ts s = Some (Inr es)" "run_events r es = run_events r (stored_events m r)"
    using assms unfolding run_rel_def by metis
  have "PtrEvent \<notin> set (stored_events m r)" using assms(1) by (simp add: run_rel_def)
  from MemoryRunStore_State_eq [OF this] ThreadRunStore_State_eq [OF e(1) allEvents_workflow [OF e(1)], of r] e(2)
  show ?thesis by simp
qed


section \<open>A recorded run\<close>

text \<open>The handler given every event of a run in turn, with the identifiers and the clock of each moment.\<close>

fun record_all ::
  "value_json \<Rightarrow> (nat \<Rightarrow> gen) \<Rightarrow> nat \<Rightarrow> thread_recorder \<times> memory_store \<Rightarrow> wf_event list \<Rightarrow> thread_recorder \<times> memory_store" where
  "record_all vj g n (r, s) [] = (r, s)"
| "record_all vj g n (r, s) (e # es) = record_all vj g (Suc n) (ThreadRecorder_OnEvent vj None (g n) r e s) es"

lemma OnEvent_err: "length (rec_err r) \<le> length (rec_err (fst (ThreadRecorder_OnEvent vj ctx g r e s)))"
  by (auto simp: ThreadRecorder_OnEvent_def split: prod.splits sum.splits)

lemma record_all_err: "length (rec_err (fst p)) \<le> length (rec_err (fst (record_all vj g n p es)))"
proof (induction es arbitrary: n p)
  case Nil
  then show ?case by (cases p) simp
next
  case (Cons e es)
  obtain r s where p: "p = (r, s)" by (cases p)
  show ?case using Cons [of "ThreadRecorder_OnEvent vj None (g n) r e s" "Suc n"] OnEvent_err [of r vj None "g n" e s] p by simp
qed

lemma Record_appends:
  assumes "ThreadRecorder_Record vj None g r e s = (Inr (), s')" "rec_Live r = Some l" "trs_Live ts = Some l"
  shows "ThreadRunStore_Append vj None g ts (workflowEventRunID e) [e] s = (Inr (), s')"
  using assms by (auto simp: ThreadRecorder_Record_def ThreadRunStore_Append_def split: sum.splits option.splits prod.splits)

lemma record_all_reads:
  assumes "store_ok ts l" "store_inv s" "ThreadRunStore_allEvents vj None ts s = Some (Inr old)"
    and "rec_Live r = Some l" "\<forall>e \<in> set es. storable e" "record_all vj g n (r, s) es = (r', s')" "rec_err r' = []"
  shows "ThreadRunStore_allEvents vj None ts s' = Some (Inr (old @ filter is_workflow es))"
  using assms
proof (induction es arbitrary: n r s old)
  case (Cons e es)
  obtain out s1 where o: "ThreadRecorder_Record vj None (g n) r e s = (out, s1)" by fastforce
  have "out = Inr ()"
  proof (cases out)
    case (Inl err)
    then show ?thesis using record_all_err [of "(r\<lparr>rec_err := rec_err r @ [err]\<rparr>, s1)" vj g "Suc n" es] Cons.prems(6,7) o
      by (simp add: ThreadRecorder_OnEvent_def)
  qed simp
  with o have rec: "ThreadRecorder_Record vj None (g n) r e s = (Inr (), s1)" by simp
  have "trs_Live ts = Some l" using Cons.prems(1) by (simp add: store_ok_def)
  note app = thread_append [OF Cons.prems(1-3) Record_appends [OF rec Cons.prems(4) this]]
  have "record_all vj g (Suc n) (r, s1) es = (r', s')" using Cons.prems(6) rec by (simp add: ThreadRecorder_OnEvent_def)
  from Cons.IH [OF Cons.prems(1) app(2,1) Cons.prems(4) _ this Cons.prems(7)] Cons.prems(5) show ?case by simp
qed simp


section \<open>Examples\<close>

definition demo_json :: value_json where
  "demo_json = \<lparr>vj_struct = (\<lambda>_. None), vj_float = (\<lambda>_. []), vj_time = (\<lambda>_. [])\<rparr>"

definition demo_run_store :: thread_run_store where
  "demo_run_store = \<lparr>trs_Store = True, trs_Live = Some demo_live, trs_ThreadID = [], trs_BranchID = ''main''\<rparr>"

lemma demo_run_store_ok: "store_ok demo_run_store demo_live"
  by (simp add: store_ok_def demo_run_store_def demo_live_def trs_thread_def)

lemma decode_thread_other:
  "(\<And>ev. ev \<in> set evs \<Longrightarrow> WorkflowEventForThreadEvent vj ev = Inr None) \<Longrightarrow> decode_thread vj evs = Inr []"
  by (induction evs) auto

lemma demo_run_store_empty: "ThreadRunStore_allEvents demo_json None demo_run_store demo_store = Some (Inr [])"
proof -
  have "thread_inv demo_thread" using store_invD [OF demo_store_inv demo_lookup] by simp
  then obtain view where v: "EventsForBranch (snapshot demo_thread) ''main'' = Some (Inr view)"
    using view_exists demo_main by blast
  have "set view \<subseteq> set (mt_events demo_thread)"
    using v by (auto simp: EventsForBranch_def Let_def rbind_Inr_iff split: if_splits)
  then have "\<forall>ev \<in> set view. ev_Kind ev = EventThreadCreated"
    by (auto simp: demo_thread_def created_event_def)
  then have "decode_thread demo_json view = Inr []"
    by (intro decode_thread_other)
      (simp add: WorkflowEventForThreadEvent_def workflow_kind_defs EventThreadCreated_def Let_def)
  with v show ?thesis
    using demo_lookup by (intro allEvents_eq [OF demo_run_store_ok]) (simp_all add: demo_live_def)
qed

lemma demo_run_rel: "run_rel demo_json demo_run_store fmempty demo_store"
  using demo_run_store_empty demo_store_inv by (simp add: run_rel_def stored_events_def run_events_def)


definition demo_executed :: "(run_result \<times> nat wf_state) option" where
  "demo_executed = Execute demo_env demo_schedule demo_executor wd_Name [] (demo_definition\<lparr>wd_Steps := [demo_wf_step ''a'' []]\<rparr>) (VStr ''x'') 0"

lemma demo_executed_ok:
  "(case demo_executed of None \<Rightarrow> False | Some (res, x) \<Rightarrow> rr_Error res = None \<and> list_all storable (wx_handled x) \<and>
     rec_err (fst (record_all demo_json (\<lambda>_. demo_gen) 0 (\<lparr>rec_Live = Some demo_live, rec_err = []\<rparr>, demo_store) (wx_handled x))) = [])"
  by code_simp


end
