(* ===== verification/Text_Edit.thy ===== *)
theory Text_Edit
  imports Prelude "HOL-Library.Product_Lexorder"
begin

text \<open>
  The edits of the \<^verbatim>\<open>file_edit\<close> tool (\<^verbatim>\<open>src/tools/filesystem/edit_impl.go\<close>): replace, insert, remove and
  append operations resolved against the original content, the conflict check, and applying the
  resolved edits. A file's content is a byte string, an offset a natural number, a line number an
  integer counted from one.
\<close>

section \<open>Operations and edits\<close>

record replace_op =
  rp_OldString :: string
  rp_NewString :: string
  rp_ReplaceAll :: bool
  rp_IfMissing :: string

record insert_op =
  in_Line :: int
  in_Content :: string
  in_Indent :: string

text \<open>The embedded pointers of \<^verbatim>\<open>RemoveOp\<close>.\<close>

record remove_op =
  rv_ByString :: "string option"
  rv_ByLines :: "int list option"

record operation =
  op_Replace :: "replace_op option"
  op_Insert :: "insert_op option"
  op_Remove :: "remove_op option"
  op_Append :: "string option"
  op_Patch :: "string option"

definition operation_valid :: "operation \<Rightarrow> bool" where
  "operation_valid o1 \<longleftrightarrow>
     (if op_Replace o1 \<noteq> None then 1 else 0) + (if op_Insert o1 \<noteq> None then 1 else 0) +
     (if op_Remove o1 \<noteq> None then 1 else 0) + (if op_Append o1 \<noteq> None then 1 else 0) +
     (if op_Patch o1 \<noteq> None then 1 else (0 :: nat)) = 1"

record resolved_edit =
  re_opIndex :: nat
  re_kind :: string
  re_start :: nat
  re_end :: nat
  re_startLine :: int
  re_endLine :: int
  re_newText :: string

datatype edit_conflict = InsertInside int int | BothModify int int

datatype patch_error =
    EmptyRange
  | EmptyInteger
  | InvalidInteger string
  | InvalidHeader string
  | InvalidOrig patch_error
  | InvalidNew patch_error

datatype edit_error =
    OldStringRequired
  | OldStringNotFound
  | MultipleMatches nat
  | LineTooSmall
  | RemoveUnspecified
  | RemoveLinesShape
  | InvalidLineRange
  | InvalidLineNumber
  | PatchRequired
  | PatchParse nat patch_error
  | NoHunks
  | HunkOverlaps nat
  | HunkPastEnd nat int nat
  | HunkLineMissing nat string
  | HunkMismatch nat nat string string
  | UnsupportedPrefix char
  | UnknownOperation
  | OverlappingApply
  | InvalidRange
  | ConflictErr nat nat edit_conflict
  | OpError nat edit_error

section \<open>Lines\<close>

abbreviation NL :: char where "NL \<equiv> CHR 0x0A"

definition splitLinesPreserveShape :: "string \<Rightarrow> string list" where
  "splitLinesPreserveShape content =
     (let ls = Split content NL in if last ls = [] then butlast ls else ls)"

text \<open>The loop of \<^verbatim>\<open>byteOffsetForLine\<close>: the position, the current line and what is left to scan.\<close>

fun offset_scan :: "nat \<Rightarrow> int \<Rightarrow> int \<Rightarrow> string \<Rightarrow> nat" where
  "offset_scan i cur line [] = i"
| "offset_scan i cur line (c # cs) =
     (if cur = line then i
      else if c = NL then (if cur + 1 = line then i + 1 else offset_scan (i + 1) (cur + 1) line cs)
      else offset_scan (i + 1) cur line cs)"

definition byteOffsetForLine :: "string \<Rightarrow> int \<Rightarrow> nat" where
  "byteOffsetForLine content line = (if line \<le> 1 then 0 else offset_scan 0 1 line content)"

definition lineNumberForOffset :: "string \<Rightarrow> nat \<Rightarrow> int" where
  "lineNumberForOffset content offset = 1 + int (length (filter (\<lambda>c. c = NL) (take offset content)))"

definition getIndent :: "string \<Rightarrow> string" where
  "getIndent line = takeWhile (\<lambda>c. c = CHR '' '' \<or> c = CHR 0x09) line"

fun join_nl :: "string list \<Rightarrow> string" where
  "join_nl [] = []"
| "join_nl [s] = s"
| "join_nl (s # ss) = s @ [NL] @ join_nl ss"

definition indentInsertedContent :: "string \<Rightarrow> string \<Rightarrow> string" where
  "indentInsertedContent content indent =
     (let parts = Split content NL in
      if last parts = [] then join_nl (map ((@) indent) (butlast parts)) @ [NL]
      else join_nl (map ((@) indent) parts))"

section \<open>Resolving\<close>

text \<open>The matches of \<^verbatim>\<open>findAllStringMatches\<close>, from a search position on.\<close>

function match_from :: "string \<Rightarrow> nat \<Rightarrow> string \<Rightarrow> (nat \<times> nat) list" where
  "match_from needle search rest =
     (if needle = [] then []
      else case Index rest needle of
        None \<Rightarrow> []
      | Some idx \<Rightarrow>
          (search + idx, search + idx + length needle) #
          match_from needle (search + idx + length needle) (drop (idx + length needle) rest))"
  by auto
termination
  by (relation "measure (\<lambda>(needle, search, rest). length rest)") (auto simp: Index_drop_less)

declare match_from.simps [simp del]

definition findAllStringMatches :: "string \<Rightarrow> string \<Rightarrow> (nat \<times> nat) list" where
  "findAllStringMatches content needle = match_from needle 0 content"

definition insert_edit :: "nat \<Rightarrow> string \<Rightarrow> nat \<Rightarrow> string \<Rightarrow> resolved_edit" where
  "insert_edit opIndex content offset text =
     (let line = lineNumberForOffset content offset in
      \<lparr>re_opIndex = opIndex, re_kind = ''insert'', re_start = offset, re_end = offset,
       re_startLine = line, re_endLine = line, re_newText = text\<rparr>)"

definition replace_edit :: "nat \<Rightarrow> string \<Rightarrow> string \<Rightarrow> nat \<times> nat \<Rightarrow> resolved_edit" where
  "replace_edit opIndex content text m =
     \<lparr>re_opIndex = opIndex, re_kind = ''replace'', re_start = fst m, re_end = snd m,
      re_startLine = lineNumberForOffset content (fst m),
      re_endLine = lineNumberForOffset content (max (snd m - 1) (fst m)), re_newText = text\<rparr>"

definition resolveReplace :: "string \<Rightarrow> replace_op \<Rightarrow> nat \<Rightarrow> (edit_error, resolved_edit list) result" where
  "resolveReplace content o1 opIndex =
     (if rp_OldString o1 = [] then Inl OldStringRequired
      else
        let matches = findAllStringMatches content (rp_OldString o1) in
        if matches = [] then
          (if rp_IfMissing o1 \<noteq> [] then Inr [insert_edit opIndex content (length content) (rp_IfMissing o1)]
           else Inl OldStringNotFound)
        else if 1 < length matches \<and> \<not> rp_ReplaceAll o1 then Inl (MultipleMatches (length matches))
        else if \<not> rp_ReplaceAll o1 then Inr [replace_edit opIndex content (rp_NewString o1) (hd matches)]
        else Inr (map (replace_edit opIndex content (rp_NewString o1)) matches))"

definition resolveInsert :: "string \<Rightarrow> insert_op \<Rightarrow> nat \<Rightarrow> (edit_error, resolved_edit list) result" where
  "resolveInsert content o1 opIndex =
     (if in_Line o1 < 1 then Inl LineTooSmall
      else
        let lines = splitLinesPreserveShape content;
            targetLine = min (in_Line o1) (int (length lines) + 1);
            offset = byteOffsetForLine content targetLine;
            text = (if (in_Indent o1 = [] \<or> in_Indent o1 = ''auto'') \<and> targetLine \<le> int (length lines)
                    then indentInsertedContent (in_Content o1) (getIndent (lines ! nat (targetLine - 1)))
                    else in_Content o1)
        in Inr [insert_edit opIndex content offset text])"

definition remove_lines_edit :: "nat \<Rightarrow> string \<Rightarrow> int \<Rightarrow> int \<Rightarrow> resolved_edit" where
  "remove_lines_edit opIndex content startLine endLine =
     \<lparr>re_opIndex = opIndex, re_kind = ''remove'', re_start = byteOffsetForLine content startLine,
      re_end = byteOffsetForLine content (endLine + 1), re_startLine = startLine, re_endLine = endLine, re_newText = []\<rparr>"

definition resolveRemove :: "string \<Rightarrow> remove_op \<Rightarrow> nat \<Rightarrow> (edit_error, resolved_edit list) result" where
  "resolveRemove content o1 opIndex =
     (case rv_ByString o1 of
        Some (c # old) \<Rightarrow>
          (case Index content (c # old) of
             None \<Rightarrow> Inl OldStringNotFound
           | Some idx \<Rightarrow> Inr [replace_edit opIndex content [] (idx, idx + length (c # old))\<lparr>re_kind := ''remove''\<rparr>])
      | _ \<Rightarrow>
          (case rv_ByLines o1 of
             Some [n] \<Rightarrow>
               if n < 1 \<or> int (length (splitLinesPreserveShape content)) < n then Inl InvalidLineNumber
               else Inr [remove_lines_edit opIndex content n n]
           | Some [m, n] \<Rightarrow>
               if m < 1 \<or> n < m \<or> int (length (splitLinesPreserveShape content)) < n then Inl InvalidLineRange
               else Inr [remove_lines_edit opIndex content m n]
           | Some (_ # _ # _ # _) \<Rightarrow> Inl RemoveLinesShape
           | _ \<Rightarrow> Inl RemoveUnspecified))"

definition resolveAppend :: "string \<Rightarrow> string \<Rightarrow> nat \<Rightarrow> resolved_edit list" where
  "resolveAppend content text opIndex =
     (if text = [] then []
      else [insert_edit opIndex content (length content)
        (if content \<noteq> [] \<and> last content \<noteq> NL then [NL] @ text else text)])"

section \<open>Conflicts\<close>

definition zeroWidth :: "resolved_edit \<Rightarrow> bool" where
  "zeroWidth e = (re_start e = re_end e)"

definition minPositiveEnd :: "int \<Rightarrow> int \<Rightarrow> int" where
  "minPositiveEnd a b = (if a = 0 then b else if b = 0 then a else min a b)"

definition editsConflict :: "resolved_edit \<Rightarrow> resolved_edit \<Rightarrow> edit_conflict option" where
  "editsConflict a b =
     (if zeroWidth a \<and> zeroWidth b then None
      else if zeroWidth a then
        (if re_start b < re_start a \<and> re_start a < re_end b then Some (InsertInside (re_startLine b) (re_endLine b)) else None)
      else if zeroWidth b then
        (if re_start a < re_start b \<and> re_start b < re_end a then Some (InsertInside (re_startLine a) (re_endLine a)) else None)
      else if re_start a < re_end b \<and> re_start b < re_end a then
        Some (BothModify (max (re_startLine a) (re_startLine b)) (minPositiveEnd (re_endLine a) (re_endLine b)))
      else None)"

definition edit_key :: "resolved_edit \<Rightarrow> nat \<times> bool \<times> nat \<times> nat" where
  "edit_key e = (re_start e, \<not> zeroWidth e, re_end e, re_opIndex e)"

definition sort_edits :: "resolved_edit list \<Rightarrow> resolved_edit list" where
  "sort_edits edits = sort_key edit_key edits"

fun conflict_with :: "resolved_edit \<Rightarrow> resolved_edit list \<Rightarrow> edit_error option" where
  "conflict_with a [] = None"
| "conflict_with a (b # bs) =
     (if re_end a < re_start b then None
      else case editsConflict a b of
        Some c \<Rightarrow> Some (ConflictErr (re_opIndex b) (re_opIndex a) c)
      | None \<Rightarrow> conflict_with a bs)"

fun first_conflict :: "resolved_edit list \<Rightarrow> edit_error option" where
  "first_conflict [] = None"
| "first_conflict (a # as1) = (case conflict_with a as1 of Some e \<Rightarrow> Some e | None \<Rightarrow> first_conflict as1)"

definition detectConflicts :: "resolved_edit list \<Rightarrow> edit_error option" where
  "detectConflicts edits = first_conflict (sort_edits edits)"

section \<open>Applying\<close>

fun apply_from :: "string \<Rightarrow> nat \<Rightarrow> resolved_edit list \<Rightarrow> (edit_error, string) result" where
  "apply_from content cursor [] = Inr (drop cursor content)"
| "apply_from content cursor (e # es) =
     (if re_start e < cursor then Inl OverlappingApply
      else if length content < re_start e \<or> length content < re_end e \<or> re_end e < re_start e then Inl InvalidRange
      else rbind (apply_from content (re_end e) es) (\<lambda>out.
        Inr (take (re_start e - cursor) (drop cursor content) @ re_newText e @ out)))"

definition applyResolvedEdits :: "string \<Rightarrow> resolved_edit list \<Rightarrow> (edit_error, string) result" where
  "applyResolvedEdits content edits = apply_from content 0 (sort_edits edits)"

section \<open>Non-conflicting edits apply\<close>

definition in_range :: "string \<Rightarrow> resolved_edit \<Rightarrow> bool" where
  "in_range content e \<longleftrightarrow> re_start e \<le> re_end e \<and> re_end e \<le> length content"

text \<open>One edit as a change of the whole text.\<close>

definition splice :: "resolved_edit \<Rightarrow> string \<Rightarrow> string" where
  "splice e s = take (re_start e) s @ re_newText e @ drop (re_end e) s"

fun apart_from :: "nat \<Rightarrow> resolved_edit list \<Rightarrow> bool" where
  "apart_from cursor [] = True"
| "apart_from cursor (e # es) = (cursor \<le> re_start e \<and> apart_from (re_end e) es)"

lemma apply_from_splices:
  assumes "apart_from cursor es" "list_all (in_range content) es" "cursor \<le> length content"
  shows "apply_from content cursor es = Inr (drop cursor (foldr splice es content)) \<and>
    take cursor (foldr splice es content) = take cursor content"
  using assms
proof (induction es arbitrary: cursor)
  case (Cons e es)
  let ?r = "foldr splice es content"
  have e: "cursor \<le> re_start e" "re_start e \<le> re_end e" "re_end e \<le> length content"
    using Cons.prems by (simp_all add: in_range_def)
  have IH: "apply_from content (re_end e) es = Inr (drop (re_end e) ?r)" "take (re_end e) ?r = take (re_end e) content"
    using Cons.IH [of "re_end e"] Cons.prems e by simp_all
  have t: "take (re_start e) ?r = take (re_start e) content"
    using arg_cong [OF IH(2), of "take (re_start e)"] e(2) by (simp add: min_absorb1)
  have sp: "foldr splice (e # es) content = take (re_start e) content @ re_newText e @ drop (re_end e) ?r"
    by (simp add: splice_def [of e] t)
  have "drop cursor (take (re_start e) content @ u) = take (re_start e - cursor) (drop cursor content) @ u"
    "take cursor (take (re_start e) content @ u) = take cursor content" for u
    using e by (simp_all add: drop_take min_absorb1)
  then show ?case using e IH(1) unfolding sp by simp
qed simp

lemma sort_edits_set [simp]: "set (sort_edits es) = set es"
  by (simp add: sort_edits_def)

lemma sort_edits_sorted: "sorted_wrt (\<lambda>a b. edit_key a \<le> edit_key b) (sort_edits es)"
  using sorted_sort_key [of edit_key es] by (simp add: sort_edits_def sorted_map)

lemma edits_apart:
  assumes "edit_key a \<le> edit_key b" "re_start a \<le> re_end a" "re_start b \<le> re_end b"
  shows "editsConflict a b = None \<longleftrightarrow> re_end a \<le> re_start b"
  using assms by (auto simp: edit_key_def zeroWidth_def editsConflict_def less_eq_prod_def)

lemma editsConflict_sym: "editsConflict a b = None \<longleftrightarrow> editsConflict b a = None"
  by (auto simp: editsConflict_def)

lemma apart_sorted:
  assumes "sorted_wrt (\<lambda>a b. edit_key a \<le> edit_key b) es" "sorted_wrt (\<lambda>a b. editsConflict a b = None) es"
    and "list_all (in_range content) es" "\<forall>e \<in> set es. cursor \<le> re_start e"
  shows "apart_from cursor es"
  using assms
proof (induction es arbitrary: cursor)
  case (Cons e es)
  have "re_end e \<le> re_start b" if "b \<in> set es" for b
    using Cons.prems that edits_apart [of e b] by (auto simp: in_range_def list_all_iff)
  with Cons show ?case by simp
qed simp

lemma conflict_with_None:
  assumes "\<forall>b \<in> set bs. edit_key a \<le> edit_key b" "sorted_wrt (\<lambda>a b. edit_key a \<le> edit_key b) bs"
    and "\<forall>b \<in> set (a # bs). re_start b \<le> re_end b"
  shows "conflict_with a bs = None \<longleftrightarrow> (\<forall>b \<in> set bs. editsConflict a b = None)"
  using assms
proof (induction bs)
  case (Cons b bs)
  show ?case
  proof (cases "re_end a < re_start b")
    case True
    have "re_start b \<le> re_start d" if "d \<in> set bs" for d
      using Cons.prems(2) that by (auto simp: edit_key_def less_eq_prod_def)
    then have "re_end a \<le> re_start d" if "d \<in> set (b # bs)" for d using True that by fastforce
    then have "editsConflict a d = None" if "d \<in> set (b # bs)" for d
      using that Cons.prems(1,3) edits_apart [of a d] by auto
    with True show ?thesis by simp
  next
    case False
    with Cons show ?thesis by (auto split: option.splits)
  qed
qed simp

lemma first_conflict_None:
  assumes "sorted_wrt (\<lambda>a b. edit_key a \<le> edit_key b) es" "\<forall>e \<in> set es. re_start e \<le> re_end e"
  shows "first_conflict es = None \<longleftrightarrow> sorted_wrt (\<lambda>a b. editsConflict a b = None) es"
  using assms
proof (induction es)
  case (Cons a es)
  then show ?case using conflict_with_None [of es a] by (auto split: option.splits)
qed simp

lemma sorted_wrt_insort:
  assumes "\<And>a b. P a b \<longleftrightarrow> P b a"
  shows "sorted_wrt P (insort_key f x ys) \<longleftrightarrow> (\<forall>y \<in> set ys. P x y) \<and> sorted_wrt P ys"
  by (induction ys) (auto simp: set_insort_key assms [of x])

lemma sorted_wrt_sort_key:
  assumes "\<And>a b. P a b \<longleftrightarrow> P b a"
  shows "sorted_wrt P (sort_key f xs) \<longleftrightarrow> sorted_wrt P xs"
  by (induction xs) (auto simp: sorted_wrt_insort [of P, OF assms])

lemma detectConflicts_pairwise:
  assumes "\<forall>e \<in> set edits. re_start e \<le> re_end e"
  shows "detectConflicts edits = None \<longleftrightarrow> sorted_wrt (\<lambda>a b. editsConflict a b = None) edits"
proof -
  have "detectConflicts edits = None \<longleftrightarrow> sorted_wrt (\<lambda>a b. editsConflict a b = None) (sort_edits edits)"
    unfolding detectConflicts_def using first_conflict_None [OF sort_edits_sorted] assms by simp
  also have "\<dots> \<longleftrightarrow> sorted_wrt (\<lambda>a b. editsConflict a b = None) edits"
    unfolding sort_edits_def by (rule sorted_wrt_sort_key) (rule editsConflict_sym)
  finally show ?thesis .
qed

lemma conflict_free_applies:
  assumes "list_all (in_range content) edits" "detectConflicts edits = None"
  shows "applyResolvedEdits content edits = Inr (foldr splice (sort_edits edits) content)"
proof -
  have r: "\<forall>e \<in> set edits. re_start e \<le> re_end e" using assms(1) by (auto simp: list_all_iff in_range_def)
  have "sorted_wrt (\<lambda>a b. editsConflict a b = None) (sort_edits edits)"
    using assms(2) r first_conflict_None [OF sort_edits_sorted, of edits] by (simp add: detectConflicts_def)
  moreover have "list_all (in_range content) (sort_edits edits)" using assms(1) by (simp add: list_all_iff)
  ultimately show ?thesis
    using apply_from_splices [of 0 "sort_edits edits" content] apart_sorted [OF sort_edits_sorted, of edits content 0]
    by (simp add: applyResolvedEdits_def)
qed

section \<open>Matches\<close>

lemma match_from_none: "needle = [] \<or> Index rest needle = None \<Longrightarrow> match_from needle search rest = []"
  by (subst match_from.simps) auto

lemma match_from_some:
  "needle \<noteq> [] \<Longrightarrow> Index rest needle = Some idx \<Longrightarrow> match_from needle search rest =
     (search + idx, search + idx + length needle) #
     match_from needle (search + idx + length needle) (drop (idx + length needle) rest)"
  by (subst match_from.simps) simp

lemma match_from_range:
  assumes "(a, b) \<in> set (match_from needle search rest)"
  shows "search \<le> a \<and> b = a + length needle \<and> b \<le> search + length rest \<and> needle \<noteq> []"
  using assms
proof (induction needle search rest rule: match_from.induct)
  case (1 needle search rest)
  show ?case
  proof (cases "needle = [] \<or> Index rest needle = None")
    case True
    then show ?thesis using 1(2) by (simp add: match_from_none)
  next
    case False
    then obtain idx where i: "Index rest needle = Some idx" "needle \<noteq> []" by auto
    have l: "idx + length needle \<le> length rest" using Index_Some [OF i(1)] by blast
    from 1(2) i have "(a, b) = (search + idx, search + idx + length needle) \<or>
        (a, b) \<in> set (match_from needle (search + idx + length needle) (drop (idx + length needle) rest))"
      by (simp add: match_from_some)
    then show ?thesis using 1(1) [OF i(2,1)] i(2) l by auto
  qed
qed

text \<open>\<^verbatim>\<open>strings.ReplaceAll\<close> as its documentation states it: non-overlapping occurrences from the left.\<close>

function ReplaceAll :: "string \<Rightarrow> string \<Rightarrow> string \<Rightarrow> string" where
  "ReplaceAll s old new =
     (if old = [] then s
      else case Index s old of
        None \<Rightarrow> s
      | Some i \<Rightarrow> take i s @ new @ ReplaceAll (drop (i + length old) s) old new)"
  by auto
termination
  by (relation "measure (\<lambda>(s, old, new). length s)") (auto simp: Index_drop_less)

declare ReplaceAll.simps [simp del]

lemma match_sorted: "sorted_wrt (\<lambda>a b. edit_key a \<le> edit_key b) (map (replace_edit k content text) (match_from needle search rest))"
proof (induction needle search rest rule: match_from.induct)
  case (1 needle search rest)
  show ?case
  proof (cases "needle = [] \<or> Index rest needle = None")
    case True
    then show ?thesis by (simp add: match_from_none)
  next
    case False
    then obtain idx where i: "Index rest needle = Some idx" "needle \<noteq> []" by auto
    have "search + idx < a" if "(a, b) \<in> set (match_from needle (search + idx + length needle) (drop (idx + length needle) rest))"
      for a b using match_from_range [OF that] i(2) by (cases needle) auto
    then have "edit_key (replace_edit k content text (search + idx, u)) \<le> edit_key (replace_edit k content text m)"
      if "m \<in> set (match_from needle (search + idx + length needle) (drop (idx + length needle) rest))" for m u
      using that by (cases m) (auto simp: edit_key_def replace_edit_def less_eq_prod_def)
    then show ?thesis using 1 [OF i(2,1)] i by (simp add: match_from_some)
  qed
qed

lemma sort_edits_id: "sorted_wrt (\<lambda>a b. edit_key a \<le> edit_key b) es \<Longrightarrow> sort_edits es = es"
  unfolding sort_edits_def by (rule sort_key_id_if_sorted) (simp add: sorted_map)

lemma apply_matches:
  assumes "search \<le> length content"
  shows "apply_from content search (map (replace_edit k content new) (match_from old search (drop search content))) =
    Inr (ReplaceAll (drop search content) old new)"
  using assms
proof (induction "length content - search" arbitrary: search rule: less_induct)
  case less
  let ?rest = "drop search content"
  show ?case
  proof (cases "old = [] \<or> Index ?rest old = None")
    case True
    then show ?thesis by (subst ReplaceAll.simps) (auto simp: match_from_none)
  next
    case False
    then obtain idx where i: "Index ?rest old = Some idx" "old \<noteq> []" by auto
    have l: "search + idx + length old \<le> length content" using Index_Some [OF i(1)] less.prems by auto
    have d: "drop (idx + length old) ?rest = drop (search + idx + length old) content" by (simp add: add_ac)
    have "apply_from content (search + idx + length old)
        (map (replace_edit k content new) (match_from old (search + idx + length old) (drop (idx + length old) ?rest))) =
        Inr (ReplaceAll (drop (idx + length old) ?rest) old new)"
      unfolding d using less.hyps [of "search + idx + length old"] i(2) l by (cases old) auto
    then show ?thesis using i l
      by (subst ReplaceAll.simps) (simp add: match_from_some replace_edit_def)
  qed
qed

section \<open>Lines and offsets\<close>

text \<open>The lines of a text with their newlines.\<close>

fun lines_nl :: "string \<Rightarrow> string list" where
  "lines_nl [] = []"
| "lines_nl (c # cs) =
     (if c = NL then [NL] # lines_nl cs else (case lines_nl cs of [] \<Rightarrow> [[c]] | l # ls \<Rightarrow> (c # l) # ls))"

lemma concat_lines_nl [simp]: "concat (lines_nl s) = s"
  by (induction s) (auto split: list.splits)

lemma lines_nl_length: "length (lines_nl s) = length (splitLinesPreserveShape s)"
proof -
  have "length (lines_nl s) = (if last (Split s NL) = [] then length (Split s NL) - 1 else length (Split s NL)) \<and>
      (lines_nl s = [] \<longleftrightarrow> Split s NL = [[]]) \<and> (lines_nl s \<noteq> [] \<longrightarrow> lines_nl s ! 0 \<noteq> [])"
  proof (induction s)
    case (Cons c s)
    then show ?case by (cases "lines_nl s"; cases "Split s NL") (auto split: list.splits)
  qed simp
  then show ?thesis by (simp add: splitLinesPreserveShape_def Let_def)
qed

lemma offset_scan_lines:
  assumes "cur < line"
  shows "offset_scan i cur line s = i + length (concat (take (nat (line - cur)) (lines_nl s)))"
  using assms
proof (induction s arbitrary: i cur)
  case (Cons c s)
  show ?case
  proof (cases "c = NL")
    case True
    show ?thesis
    proof (cases "cur + 1 = line")
      case True
      then have "nat (line - cur) = Suc 0" by simp
      then show ?thesis using True \<open>c = NL\<close> Cons.prems by simp
    next
      case False
      then have "nat (line - cur) = Suc (nat (line - (cur + 1)))" using Cons.prems by simp
      then show ?thesis using False True Cons.prems Cons.IH [of "cur + 1" "i + 1"] by simp
    qed
  next
    case False
    obtain m where "nat (line - cur) = Suc m" using Cons.prems by (metis diff_gt_0_iff_gt gr0_conv_Suc zero_less_nat_eq)
    then show ?thesis using False Cons.prems Cons.IH [of cur "i + 1"] by (cases "lines_nl s") simp_all
  qed
qed simp

lemma byteOffsetForLine_lines:
  "byteOffsetForLine content line = length (concat (take (nat (line - 1)) (lines_nl content)))"
  using offset_scan_lines [of 1 line 0 content] by (auto simp: byteOffsetForLine_def)

lemma take_offset: "take (length (concat (take n (lines_nl s)))) s = concat (take n (lines_nl s))"
  and drop_offset: "drop (length (concat (take n (lines_nl s)))) s = concat (drop n (lines_nl s))"
proof -
  have "s = concat (take n (lines_nl s)) @ concat (drop n (lines_nl s))"
    by (metis append_take_drop_id concat_append concat_lines_nl)
  then show "take (length (concat (take n (lines_nl s)))) s = concat (take n (lines_nl s))"
    "drop (length (concat (take n (lines_nl s)))) s = concat (drop n (lines_nl s))"
    by (metis append_eq_conv_conj)+
qed

lemma offset_le: "byteOffsetForLine content line \<le> length content"
  unfolding byteOffsetForLine_lines by (metis take_offset length_take min.cobounded1 nat_le_linear take_all_iff)

lemma offset_mono: "line \<le> line' \<Longrightarrow> byteOffsetForLine content line \<le> byteOffsetForLine content line'"
proof -
  assume "line \<le> line'"
  then have "nat (line - 1) \<le> nat (line' - 1)" by simp
  then have "take (nat (line - 1)) (lines_nl content) = take (nat (line - 1)) (take (nat (line' - 1)) (lines_nl content))"
    by (simp add: min_absorb1)
  then show ?thesis unfolding byteOffsetForLine_lines
    by (metis append_take_drop_id concat_append length_append le_add1)
qed

lemma single_apply:
  assumes "in_range content e"
  shows "applyResolvedEdits content [e] = Inr (splice e content)"
  using assms by (simp add: applyResolvedEdits_def sort_edits_def in_range_def splice_def)

lemma apply_from_apart:
  "apply_from content cursor es = Inr out \<Longrightarrow> apart_from cursor es \<and> list_all (in_range content) es"
  by (induction es arbitrary: cursor out) (auto simp: rbind_Inr_iff in_range_def split: if_splits)

lemma apart_key_sorted:
  assumes "apart_from cursor es" "\<forall>e \<in> set es. re_start e \<le> re_end e \<and> re_opIndex e = k"
  shows "sorted_wrt (\<lambda>a b. edit_key a \<le> edit_key b) es \<and> (\<forall>e \<in> set es. cursor \<le> re_start e)"
  using assms
proof (induction es arbitrary: cursor)
  case (Cons a es)
  have IH: "sorted_wrt (\<lambda>a b. edit_key a \<le> edit_key b) es" "\<And>b. b \<in> set es \<Longrightarrow> re_end a \<le> re_start b"
    using Cons.IH [of "re_end a"] Cons.prems by auto
  have "edit_key a \<le> edit_key b" if "b \<in> set es" for b
    using IH(2) [OF that] Cons.prems(2) that by (fastforce simp: edit_key_def zeroWidth_def less_eq_prod_def)
  with Cons.prems IH show ?case by fastforce
qed simp

lemma apart_no_conflict:
  assumes "apart_from cursor es" "\<forall>e \<in> set es. re_start e \<le> re_end e" "sorted_wrt (\<lambda>a b. edit_key a \<le> edit_key b) es"
  shows "sorted_wrt (\<lambda>a b. editsConflict a b = None) es"
  using assms
proof (induction es arbitrary: cursor)
  case (Cons a es)
  have later: "c \<le> re_start b" if "apart_from c ds" "\<forall>e \<in> set ds. re_start e \<le> re_end e" "b \<in> set ds" for c ds b
    using that by (induction ds arbitrary: c) fastforce+
  have "re_end a \<le> re_start b" if "b \<in> set es" for b using later [of "re_end a" es b] Cons.prems that by simp
  then have "editsConflict a b = None" if "b \<in> set es" for b using that Cons.prems(2,3) edits_apart [of a b] by simp
  with Cons.IH [of "re_end a"] Cons.prems show ?case by simp
qed simp

text \<open>Edits of one operation that apply in the order they are listed are free of conflicts.\<close>

lemma listed_edits_apply:
  assumes "apply_from content 0 es = Inr out" "\<forall>e \<in> set es. re_opIndex e = k"
  shows "detectConflicts es = None" "applyResolvedEdits content es = Inr out"
proof -
  from apply_from_apart [OF assms(1)] have a: "apart_from 0 es" "\<forall>e \<in> set es. re_start e \<le> re_end e"
    by (auto simp: list_all_iff in_range_def)
  then have s: "sorted_wrt (\<lambda>a b. edit_key a \<le> edit_key b) es" using apart_key_sorted [of 0 es k] assms(2) by blast
  then show "applyResolvedEdits content es = Inr out" using assms(1) by (simp add: applyResolvedEdits_def sort_edits_id)
  have "sorted_wrt (\<lambda>a b. editsConflict a b = None) es" by (rule apart_no_conflict [OF a s])
  then show "detectConflicts es = None" using detectConflicts_pairwise [OF a(2)] by blast
qed

end
