(* ===== verification/Text_Patch.thy ===== *)
theory Text_Patch
  imports Text_Edit
begin

text \<open>
  Unified diffs: parsing and applying them to lines (\<^verbatim>\<open>parseUnifiedDiff\<close>, \<^verbatim>\<open>applyUnifiedPatch\<close> of
  \<^verbatim>\<open>src/tools/filesystem/tools.go\<close>), turning hunks into edits (\<^verbatim>\<open>resolvePatch\<close>,
  \<^verbatim>\<open>patchHunkToResolvedEdits\<close> of \<^verbatim>\<open>edit_impl.go\<close>), and the resolution of a list of operations. The
  numbers of a hunk header are Go's \<^verbatim>\<open>int\<close>: they wrap around at 64 bits.
\<close>

section \<open>Parsing\<close>

definition wrap64 :: "int \<Rightarrow> int" where
  "wrap64 n = (n + 2 ^ 63) mod 2 ^ 64 - 2 ^ 63"

fun parse_digits :: "string \<Rightarrow> int \<Rightarrow> string \<Rightarrow> (patch_error, int) result" where
  "parse_digits s n [] = Inr n"
| "parse_digits s n (c # cs) =
     (let d = int (of_char c :: nat) - 48 in
      if d < 0 \<or> 9 < d then Inl (InvalidInteger s) else parse_digits s (wrap64 (wrap64 (n * 10) + d)) cs)"

definition parseIntStr :: "string \<Rightarrow> (patch_error, int) result" where
  "parseIntStr s = (if s = [] then Inl EmptyInteger else parse_digits s 0 s)"

definition parseRange :: "string \<Rightarrow> (patch_error, int \<times> int) result" where
  "parseRange s0 =
     (if s0 = [] then Inl EmptyRange
      else let s = drop 1 s0 in
        case Index s '','' of
          None \<Rightarrow> rbind (parseIntStr s) (\<lambda>n. Inr (n, 1))
        | Some comma \<Rightarrow> rbind (parseIntStr (take comma s)) (\<lambda>start.
            rbind (parseIntStr (drop (comma + 1) s)) (\<lambda>c. Inr (start, c))))"

text \<open>\<^verbatim>\<open>strings.Fields\<close> on ASCII text.\<close>

fun fields_acc :: "string \<Rightarrow> string \<Rightarrow> string list" where
  "fields_acc w [] = (if w = [] then [] else [rev w])"
| "fields_acc w (c # cs) =
     (if is_space c then (if w = [] then [] else [rev w]) @ fields_acc [] cs else fields_acc (c # w) cs)"

definition Fields :: "string \<Rightarrow> string list" where
  "Fields s = fields_acc [] s"

record patch_hunk =
  ph_origStart :: int
  ph_origCount :: int
  ph_newStart :: int
  ph_newCount :: int
  ph_lines :: "string list"

definition parseHunkHeader :: "string \<Rightarrow> (patch_error, patch_hunk) result" where
  "parseHunkHeader line =
     (let rest = drop 3 line;
          inner = TrimSpace (case Index rest '' @@'' of None \<Rightarrow> rest | Some e \<Rightarrow> take e rest)
      in case Fields inner of
        a # b # _ \<Rightarrow>
          (case parseRange a of
             Inl e \<Rightarrow> Inl (InvalidOrig e)
           | Inr (os, oc) \<Rightarrow>
               (case parseRange b of
                  Inl e \<Rightarrow> Inl (InvalidNew e)
                | Inr (ns, nc) \<Rightarrow>
                    Inr \<lparr>ph_origStart = os, ph_origCount = oc, ph_newStart = ns, ph_newCount = nc, ph_lines = []\<rparr>))
      | _ \<Rightarrow> Inl (InvalidHeader line))"

definition file_header :: "string \<Rightarrow> bool" where
  "file_header l = (HasPrefix l ''--- '' \<or> HasPrefix l ''+++ '')"

text \<open>The inner loop: the lines of a hunk and what follows them.\<close>

fun hunk_body :: "string list \<Rightarrow> string list \<times> string list" where
  "hunk_body [] = ([], [])"
| "hunk_body (dl # rest) =
     (if HasPrefix dl ''@@ '' \<or> file_header dl then ([], dl # rest)
      else if HasPrefix dl [CHR 0x5C, CHR '' ''] then hunk_body rest
      else if dl = [] \<and> rest = [] then ([], [])
      else let (body, rest') = hunk_body rest in (dl # body, rest'))"

lemma hunk_body_length: "length (snd (hunk_body ls)) \<le> length ls"
  by (induction ls) (auto simp: Let_def split: prod.splits)

function parse_hunks :: "nat \<Rightarrow> string list \<Rightarrow> (edit_error, patch_hunk list) result" where
  "parse_hunks cnt [] = Inr []"
| "parse_hunks cnt (l # ls) =
     (if file_header l then parse_hunks cnt ls
      else if HasPrefix l ''@@ '' then
        (case parseHunkHeader l of
           Inl e \<Rightarrow> Inl (PatchParse (cnt - length ls) e)
         | Inr h \<Rightarrow>
             rbind (parse_hunks cnt (snd (hunk_body ls))) (\<lambda>hs. Inr (h\<lparr>ph_lines := fst (hunk_body ls)\<rparr> # hs)))
      else parse_hunks cnt ls)"
  by pat_completeness auto
termination
  by (relation "measure (\<lambda>(cnt, ls). length ls)") (auto simp: le_imp_less_Suc hunk_body_length)

declare parse_hunks.simps [simp del]

text \<open>The second result, whether to add a trailing newline, is only ever set to false.\<close>

definition parseUnifiedDiff :: "string \<Rightarrow> (edit_error, patch_hunk list \<times> bool) result" where
  "parseUnifiedDiff patch =
     (let ls = Split patch NL in rbind (parse_hunks (length ls) ls) (\<lambda>hs. Inr (hs, False)))"

section \<open>Applying to lines\<close>

record patch_result =
  pr_lines :: "string list"
  pr_hunksApplied :: nat
  pr_linesAdded :: nat
  pr_linesRemoved :: nat
  pr_addTrailingNewline :: bool

definition hunk_start :: "patch_hunk \<Rightarrow> int" where
  "hunk_start h = (if ph_origStart h = 0 \<and> ph_origCount h = 0 then 0 else wrap64 (ph_origStart h - 1))"

fun check_hunk :: "nat \<Rightarrow> string list \<Rightarrow> nat \<Rightarrow> string list \<Rightarrow> edit_error option" where
  "check_hunk n fileLines idx [] = None"
| "check_hunk n fileLines idx ([] # dls) = check_hunk n fileLines idx dls"
| "check_hunk n fileLines idx ((p # text) # dls) =
     (if p = CHR '' '' \<or> p = CHR ''-'' then
        (if length fileLines \<le> idx then Some (HunkLineMissing n text)
         else if fileLines ! idx \<noteq> text then Some (HunkMismatch n (idx + 1) text (fileLines ! idx))
         else check_hunk n fileLines (idx + 1) dls)
      else check_hunk n fileLines idx dls)"

text \<open>The new lines, the index reached, and the added and removed lines of one hunk.\<close>

fun apply_hunk :: "string list \<Rightarrow> nat \<Rightarrow> string list \<Rightarrow> string list \<times> nat \<times> nat \<times> nat" where
  "apply_hunk fileLines idx [] = ([], idx, 0, 0)"
| "apply_hunk fileLines idx ([] # dls) = apply_hunk fileLines idx dls"
| "apply_hunk fileLines idx ((p # text) # dls) =
     (if p = CHR '' '' then
        (case apply_hunk fileLines (idx + 1) dls of (out, i, a, r) \<Rightarrow> (fileLines ! idx # out, i, a, r))
      else if p = CHR ''-'' then (case apply_hunk fileLines (idx + 1) dls of (out, i, a, r) \<Rightarrow> (out, i, a, r + 1))
      else if p = CHR ''+'' then (case apply_hunk fileLines idx dls of (out, i, a, r) \<Rightarrow> (text # out, i, a + 1, r))
      else apply_hunk fileLines idx dls)"

fun apply_hunks :: "string list \<Rightarrow> nat \<Rightarrow> nat \<Rightarrow> patch_hunk list \<Rightarrow> (edit_error, string list \<times> nat \<times> nat) result" where
  "apply_hunks fileLines n fileIdx [] = Inr (drop fileIdx fileLines, 0, 0)"
| "apply_hunks fileLines n fileIdx (h # hs) =
     (if hunk_start h < int fileIdx then Inl (HunkOverlaps (n + 1))
      else if int (length fileLines) < hunk_start h then Inl (HunkPastEnd (n + 1) (ph_origStart h) (length fileLines))
      else
        let start = nat (hunk_start h) in
        case check_hunk (n + 1) fileLines start (ph_lines h) of
          Some e \<Rightarrow> Inl e
        | None \<Rightarrow>
            (case apply_hunk fileLines start (ph_lines h) of
               (out, i, a, r) \<Rightarrow>
                 rbind (apply_hunks fileLines (n + 1) i hs) (\<lambda>(outs, as1, rs).
                   Inr (take (start - fileIdx) (drop fileIdx fileLines) @ out @ outs, a + as1, r + rs))))"

definition applyUnifiedPatch :: "string list \<Rightarrow> string \<Rightarrow> (edit_error, patch_result) result" where
  "applyUnifiedPatch fileLines patch =
     rbind (parseUnifiedDiff patch) (\<lambda>(hunks, addTrailing).
       if hunks = [] then Inl NoHunks
       else rbind (apply_hunks fileLines 0 0 hunks) (\<lambda>(out, a, r).
         Inr \<lparr>pr_lines = out, pr_hunksApplied = length hunks, pr_linesAdded = a, pr_linesRemoved = r,
              pr_addTrailingNewline = addTrailing\<rparr>))"

definition applyUnifiedPatchWithHunks :: "string list \<Rightarrow> string \<Rightarrow> (edit_error, patch_result \<times> patch_hunk list) result" where
  "applyUnifiedPatchWithHunks fileLines patch =
     rbind (parseUnifiedDiff patch) (\<lambda>(hunks, addTrailing).
       if hunks = [] then Inl NoHunks
       else rbind (applyUnifiedPatch fileLines patch) (\<lambda>res. Inr (res\<lparr>pr_addTrailingNewline := addTrailing\<rparr>, hunks)))"

section \<open>Hunks as edits\<close>

definition advanceOffsetByLine :: "string \<Rightarrow> nat \<Rightarrow> nat" where
  "advanceOffsetByLine content start =
     (case find_index (\<lambda>c. c = NL) (drop start content) of None \<Rightarrow> length content | Some i \<Rightarrow> start + i + 1)"

record edit_block =
  eb_start :: nat
  eb_end :: nat
  eb_startLine :: int
  eb_endLine :: int
  eb_newText :: string

definition flush_block :: "string \<Rightarrow> bool \<Rightarrow> bool \<Rightarrow> nat \<Rightarrow> edit_block option \<Rightarrow> resolved_edit list" where
  "flush_block content hasTrailing addTrailing opIndex b =
     (case b of
        None \<Rightarrow> []
      | Some b \<Rightarrow>
          [\<lparr>re_opIndex = opIndex, re_kind = ''patch'', re_start = eb_start b, re_end = eb_end b,
            re_startLine = eb_startLine b, re_endLine = eb_endLine b,
            re_newText = (if \<not> hasTrailing \<and> \<not> addTrailing \<and> eb_end b = length content \<and> HasSuffix (eb_newText b) [NL]
                          then TrimSuffix (eb_newText b) [NL] else eb_newText b)\<rparr>])"

definition start_block :: "nat \<Rightarrow> int \<Rightarrow> edit_block option \<Rightarrow> edit_block" where
  "start_block byte line b =
     (case b of Some b \<Rightarrow> b
      | None \<Rightarrow> \<lparr>eb_start = byte, eb_end = byte, eb_startLine = line, eb_endLine = line, eb_newText = []\<rparr>)"

fun hunk_edits ::
  "string \<Rightarrow> bool \<Rightarrow> bool \<Rightarrow> nat \<Rightarrow> nat \<Rightarrow> int \<Rightarrow> edit_block option \<Rightarrow> string list \<Rightarrow> (edit_error, resolved_edit list) result" where
  "hunk_edits content ht at1 k byte line b [] = Inr (flush_block content ht at1 k b)"
| "hunk_edits content ht at1 k byte line b ([] # dls) = hunk_edits content ht at1 k byte line b dls"
| "hunk_edits content ht at1 k byte line b ((p # text) # dls) =
     (if p = CHR '' '' then
        rbind (hunk_edits content ht at1 k (advanceOffsetByLine content byte) (line + 1) None dls) (\<lambda>es.
          Inr (flush_block content ht at1 k b @ es))
      else if p = CHR ''-'' then
        let lineEnd = advanceOffsetByLine content byte in
        hunk_edits content ht at1 k lineEnd (line + 1)
          (Some ((start_block byte line b)\<lparr>eb_end := lineEnd, eb_endLine := line\<rparr>)) dls
      else if p = CHR ''+'' then
        let b1 = start_block byte line b;
            nl = (at1 \<or> byte < length content \<or> ht \<or> line \<le> int (length (splitLinesPreserveShape content)))
        in hunk_edits content ht at1 k byte line (Some (b1\<lparr>eb_newText := eb_newText b1 @ text @ (if nl then [NL] else [])\<rparr>)) dls
      else Inl (UnsupportedPrefix p))"

definition patchHunkToResolvedEdits ::
  "string \<Rightarrow> bool \<Rightarrow> patch_hunk \<Rightarrow> bool \<Rightarrow> nat \<Rightarrow> (edit_error, resolved_edit list) result" where
  "patchHunkToResolvedEdits content ht h at1 k =
     (let line = (if ph_origStart h = 0 \<and> ph_origCount h = 0 then 1 else ph_origStart h) in
      hunk_edits content ht at1 k (byteOffsetForLine content line) line None (ph_lines h))"

fun hunks_edits :: "string \<Rightarrow> bool \<Rightarrow> bool \<Rightarrow> nat \<Rightarrow> patch_hunk list \<Rightarrow> (edit_error, resolved_edit list) result" where
  "hunks_edits content ht at1 k [] = Inr []"
| "hunks_edits content ht at1 k (h # hs) =
     rbind (patchHunkToResolvedEdits content ht h at1 k) (\<lambda>es. rbind (hunks_edits content ht at1 k hs) (\<lambda>fs. Inr (es @ fs)))"

definition resolvePatch :: "string \<Rightarrow> string \<Rightarrow> nat \<Rightarrow> (edit_error, resolved_edit list) result" where
  "resolvePatch content patch k =
     (if patch = [] then Inl PatchRequired
      else
        let ls = Split content NL;
            hastrail = (content \<noteq> [] \<and> last content = NL);
            ls' = (if hastrail \<and> last ls = [] then butlast ls else ls)
        in rbind (applyUnifiedPatchWithHunks ls' patch) (\<lambda>(res, hunks).
             hunks_edits content hastrail (pr_addTrailingNewline res) k hunks))"

section \<open>Operations\<close>

definition resolveSingleOperation :: "string \<Rightarrow> operation \<Rightarrow> nat \<Rightarrow> (edit_error, resolved_edit list) result" where
  "resolveSingleOperation content o1 k =
     (case op_Replace o1 of
        Some r \<Rightarrow> resolveReplace content r k
      | None \<Rightarrow>
          (case op_Insert o1 of
             Some i \<Rightarrow> resolveInsert content i k
           | None \<Rightarrow>
               (case op_Remove o1 of
                  Some r \<Rightarrow> resolveRemove content r k
                | None \<Rightarrow>
                    (case op_Append o1 of
                       Some a \<Rightarrow> Inr (resolveAppend content a k)
                     | None \<Rightarrow> (case op_Patch o1 of Some p \<Rightarrow> resolvePatch content p k | None \<Rightarrow> Inl UnknownOperation)))))"

fun resolve_ops :: "string \<Rightarrow> nat \<Rightarrow> operation list \<Rightarrow> (edit_error, resolved_edit list) result" where
  "resolve_ops content i [] = Inr []"
| "resolve_ops content i (o1 # os) =
     (case resolveSingleOperation content o1 i of
        Inl e \<Rightarrow> Inl (OpError i e)
      | Inr es \<Rightarrow> rbind (resolve_ops content (i + 1) os) (\<lambda>fs. Inr (es @ fs)))"

definition resolveOperationsAgainstOriginal :: "string \<Rightarrow> operation list \<Rightarrow> (edit_error, resolved_edit list) result" where
  "resolveOperationsAgainstOriginal content ops = resolve_ops content 0 ops"

section \<open>Offsets of whole lines\<close>

definition unl :: "string list \<Rightarrow> string" where
  "unl ls = concat (map (\<lambda>l. l @ [NL]) ls)"

definition off :: "string list \<Rightarrow> nat \<Rightarrow> nat" where
  "off ls k = length (unl (take k ls))"

definition seg :: "string \<Rightarrow> nat \<Rightarrow> nat \<Rightarrow> string" where
  "seg content a b = take (b - a) (drop a content)"

definition whole_lines :: "string list \<Rightarrow> bool" where
  "whole_lines ls \<longleftrightarrow> (\<forall>l \<in> set ls. NL \<notin> set l)"

lemma unl_simps [simp]: "unl [] = []" "unl (l # ls) = l @ NL # unl ls" "unl (ls @ ms) = unl ls @ unl ms"
  by (simp_all add: unl_def)

lemma unl_length: "length ls \<le> length (unl ls)"
  by (induction ls) auto

lemma lines_nl_line: "NL \<notin> set l \<Longrightarrow> lines_nl (l @ NL # s) = (l @ [NL]) # lines_nl s"
  by (induction l) auto

lemma lines_nl_unl: "whole_lines ls \<Longrightarrow> lines_nl (unl ls) = map (\<lambda>l. l @ [NL]) ls"
  by (induction ls) (auto simp: whole_lines_def lines_nl_line)

lemma off_Suc: "k < length ls \<Longrightarrow> off ls (Suc k) = off ls k + length (ls ! k) + 1"
  by (simp add: off_def take_Suc_conv_app_nth)

lemma off_le: "off ls k \<le> length (unl ls)"
proof -
  have "unl ls = unl (take k ls) @ unl (drop k ls)" by (metis append_take_drop_id unl_simps(3))
  then show ?thesis by (simp add: off_def)
qed

lemma drop_off: "drop (off ls k) (unl ls) = unl (drop k ls)"
proof -
  have "unl ls = unl (take k ls) @ unl (drop k ls)" by (metis append_take_drop_id unl_simps(3))
  then show ?thesis by (metis append_eq_conv_conj off_def)
qed

lemma byteOffset_off: "whole_lines ls \<Longrightarrow> byteOffsetForLine (unl ls) (int k + 1) = off ls k"
  by (simp add: byteOffsetForLine_lines lines_nl_unl off_def take_map) (simp add: unl_def)

lemma find_index_append: "\<forall>x \<in> set xs. \<not> P x \<Longrightarrow> P y \<Longrightarrow> find_index P (xs @ y # ys) = Some (length xs)"
  by (induction xs) auto

lemma advance_off:
  assumes "whole_lines ls" "k < length ls"
  shows "advanceOffsetByLine (unl ls) (off ls k) = off ls (Suc k)"
proof -
  have "drop (off ls k) (unl ls) = ls ! k @ NL # unl (drop (Suc k) ls)"
    using assms(2) by (simp add: drop_off Cons_nth_drop_Suc [symmetric])
  moreover have "\<forall>c \<in> set (ls ! k). c \<noteq> NL" using assms by (auto simp: whole_lines_def)
  ultimately show ?thesis using assms(2) by (simp add: advanceOffsetByLine_def find_index_append off_Suc)
qed

lemma seg_step:
  assumes "k < length ls" "a \<le> off ls k"
  shows "seg (unl ls) a (off ls (Suc k)) = seg (unl ls) a (off ls k) @ ls ! k @ [NL]"
proof -
  let ?s = "unl ls"
  have "off ls (Suc k) - a = (off ls k - a) + (length (ls ! k) + 1)" using assms by (simp add: off_Suc)
  then have "seg ?s a (off ls (Suc k)) = seg ?s a (off ls k) @ take (length (ls ! k) + 1) (drop (off ls k) ?s)"
    using assms(2) unfolding seg_def by (simp only: take_add drop_drop le_add_diff_inverse2)
  also have "drop (off ls k) ?s = ls ! k @ NL # unl (drop (Suc k) ls)"
    using assms(1) by (simp add: drop_off Cons_nth_drop_Suc [symmetric])
  finally show ?thesis by simp
qed

lemma off_mono: "k \<le> j \<Longrightarrow> off ls k \<le> off ls j"
proof -
  assume "k \<le> j"
  then have "take j ls = take k ls @ take (j - k) (drop k ls)" by (metis le_add_diff_inverse take_add)
  then show ?thesis by (simp add: off_def)
qed

lemma seg_lines:
  assumes "k \<le> j" "j \<le> length ls" "a \<le> off ls k"
  shows "seg (unl ls) a (off ls j) = seg (unl ls) a (off ls k) @ unl (take (j - k) (drop k ls))"
  using assms
proof (induction j)
  case (Suc j)
  show ?case
  proof (cases "k = Suc j")
    case False
    then have k: "k \<le> j" "j < length ls" using Suc.prems by simp_all
    then have "seg (unl ls) a (off ls (Suc j)) = seg (unl ls) a (off ls j) @ ls ! j @ [NL]"
      using seg_step [OF k(2)] Suc.prems(3) off_mono [OF k(1), of ls] by simp
    also have "\<dots> = seg (unl ls) a (off ls k) @ unl (take (j - k) (drop k ls) @ [ls ! j])"
      using Suc.IH k Suc.prems(3) by simp
    also have "take (j - k) (drop k ls) @ [ls ! j] = take (Suc j - k) (drop k ls)"
      using k by (simp add: Suc_diff_le take_Suc_conv_app_nth)
    finally show ?thesis .
  qed simp
qed simp

lemma Split_no_sep: "l \<in> set (Split s d) \<Longrightarrow> d \<notin> set l"
  by (induction s arbitrary: l) (auto split: list.splits if_splits)

lemma Split_join: "unl (butlast (Split s NL)) @ last (Split s NL) = s"
proof (induction s)
  case (Cons c s)
  show ?case
  proof (cases "c = NL")
    case False
    obtain p ps where p: "Split s NL = p # ps" by (cases "Split s NL") auto
    with Cons False show ?thesis by (cases ps) auto
  qed (use Cons in simp)
qed simp

lemma trailing_lines:
  assumes "content \<noteq> []" "last content = NL"
  shows "last (Split content NL) = []" "content = unl (butlast (Split content NL))" "whole_lines (butlast (Split content NL))"
proof -
  show l: "last (Split content NL) = []"
  proof (rule ccontr)
    assume "last (Split content NL) \<noteq> []"
    then have "last content = last (last (Split content NL))" using Split_join [of content] by (metis last_append)
    moreover have "last (last (Split content NL)) \<in> set (last (Split content NL))"
      using \<open>last (Split content NL) \<noteq> []\<close> by simp
    ultimately show False using assms(2) Split_no_sep [OF last_in_set [OF Split_nonempty]] by metis
  qed
  show "content = unl (butlast (Split content NL))" using Split_join [of content] l by simp
  show "whole_lines (butlast (Split content NL))" by (auto simp: whole_lines_def dest: in_set_butlastD Split_no_sep)
qed

section \<open>The edits of a patch do what the patch says\<close>

definition blk_start :: "nat \<Rightarrow> edit_block option \<Rightarrow> nat" where
  "blk_start byte b = (case b of None \<Rightarrow> byte | Some x \<Rightarrow> eb_start x)"

definition blk_text :: "edit_block option \<Rightarrow> string" where
  "blk_text b = (case b of None \<Rightarrow> [] | Some x \<Rightarrow> eb_newText x)"

definition blk_ok :: "nat \<Rightarrow> edit_block option \<Rightarrow> bool" where
  "blk_ok byte b \<longleftrightarrow> (case b of None \<Rightarrow> True | Some x \<Rightarrow> eb_start x \<le> eb_end x \<and> eb_end x = byte)"

lemma blk_simps [simp]:
  "blk_start byte None = byte" "blk_start byte (Some x) = eb_start x" "blk_text None = []" "blk_text (Some x) = eb_newText x"
  "blk_ok byte None" "blk_ok byte (Some x) \<longleftrightarrow> eb_start x \<le> eb_end x \<and> eb_end x = byte"
  by (simp_all add: blk_start_def blk_text_def blk_ok_def)

lemma start_block_sel:
  "blk_ok byte b \<Longrightarrow> eb_start (start_block byte line b) = blk_start byte b"
  "blk_ok byte b \<Longrightarrow> eb_end (start_block byte line b) = byte"
  "eb_newText (start_block byte line b) = blk_text b"
  by (cases b; simp add: start_block_def)+

lemma blk_start_le: "blk_ok byte b \<Longrightarrow> blk_start byte b \<le> byte"
  by (cases b) auto

text \<open>A block that is flushed replaces what it spans by its text.\<close>

lemma flush_apply:
  assumes "blk_ok byte b" "byte \<le> length content" "cursor \<le> blk_start byte b"
    and "\<And>c. c \<le> byte \<Longrightarrow> apply_from content c es = Inr (seg content c byte @ rest)"
  shows "apply_from content cursor (flush_block content True at1 k b @ es) =
    Inr (seg content cursor (blk_start byte b) @ blk_text b @ rest)"
  using assms by (cases b) (auto simp: flush_block_def seg_def)

lemma apply_hunk_le:
  "apply_hunk ls idx dls = (out, i, a, r) \<Longrightarrow> check_hunk n ls idx dls = None \<Longrightarrow> idx \<le> length ls \<Longrightarrow> i \<le> length ls"
  by (induction ls idx dls arbitrary: out a r rule: apply_hunk.induct) (auto split: if_splits prod.splits)

lemma hunk_edits_apply:
  assumes ls: "whole_lines ls"
  shows "check_hunk n ls idx dls = None \<Longrightarrow> idx \<le> length ls \<Longrightarrow> apply_hunk ls idx dls = (out, idx', a, r) \<Longrightarrow>
    hunk_edits (unl ls) True at1 k (off ls idx) line b dls = Inr es \<Longrightarrow> blk_ok (off ls idx) b \<Longrightarrow>
    cursor \<le> blk_start (off ls idx) b \<Longrightarrow>
    (\<And>c. c \<le> off ls idx' \<Longrightarrow> apply_from (unl ls) c es2 = Inr (seg (unl ls) c (off ls idx') @ rest)) \<Longrightarrow>
    idx \<le> idx' \<and> idx' \<le> length ls \<and> apply_from (unl ls) cursor (es @ es2) =
      Inr (seg (unl ls) cursor (blk_start (off ls idx) b) @ blk_text b @ unl out @ rest)"
proof (induction dls arbitrary: idx line b cursor out a r es)
  case Nil
  then show ?case using flush_apply [OF Nil.prems(5) off_le Nil.prems(6), of es2 rest at1 k] by auto
next
  case (Cons dl dls)
  show ?case
  proof (cases dl)
    case Nil
    with Cons show ?thesis by simp
  next
    case (Cons p tx)
    note dl = this
    let ?ctx = "p = CHR '' '' \<or> p = CHR ''-''"
    have sup: "?ctx \<or> p = CHR ''+''" using Cons.prems(4) dl by (auto split: if_splits)
    have i: "idx < length ls \<and> check_hunk n ls (Suc idx) dls = None" if "?ctx"
      using Cons.prems(1) dl that by (auto split: if_splits)
    have adv: "advanceOffsetByLine (unl ls) (off ls idx) = off ls (Suc idx)" if "?ctx" using advance_off [OF ls] i that by blast
    have le: "off ls idx \<le> off ls (Suc idx)" if "?ctx" using off_Suc i that by auto
    consider "p = CHR '' ''" | "p = CHR ''-''" | "p = CHR ''+''" using sup by blast
    then show ?thesis
    proof cases
      case 1
      obtain out1 a1 r1 where o: "apply_hunk ls (Suc idx) dls = (out1, idx', a1, r1)" "out = ls ! idx # out1"
        using Cons.prems(3) dl 1 by (auto split: prod.splits)
      obtain es1 where e: "hunk_edits (unl ls) True at1 k (off ls (Suc idx)) (line + 1) None dls = Inr es1"
        "es = flush_block (unl ls) True at1 k b @ es1" using Cons.prems(4) dl 1 adv by (auto simp: rbind_Inr_iff)
      have IH: "Suc idx \<le> idx' \<and> idx' \<le> length ls \<and> apply_from (unl ls) c (es1 @ es2) =
          Inr (seg (unl ls) c (off ls (Suc idx)) @ unl out1 @ rest)" if "c \<le> off ls (Suc idx)" for c
        using Cons.IH [OF _ _ o(1) e(1) _ _ Cons.prems(7), of c] i that 1 by auto
      have "apply_from (unl ls) c (es1 @ es2) = Inr (seg (unl ls) c (off ls idx) @ unl (ls ! idx # out1) @ rest)"
        if "c \<le> off ls idx" for c
        using IH [of c] le that seg_step [of idx ls c] i 1 by auto
      from flush_apply [OF Cons.prems(5) off_le Cons.prems(6) this] show ?thesis using IH [of 0] o(2) e(2) by simp
    next
      case 2
      obtain r1 where o: "apply_hunk ls (Suc idx) dls = (out, idx', a, r1)" using Cons.prems(3) dl 2 by (auto split: prod.splits)
      let ?b = "Some ((start_block (off ls idx) line b)\<lparr>eb_end := off ls (Suc idx), eb_endLine := line\<rparr>)"
      have e: "hunk_edits (unl ls) True at1 k (off ls (Suc idx)) (line + 1) ?b dls = Inr es"
        using Cons.prems(4) dl 2 adv by (simp add: Let_def)
      have "blk_ok (off ls (Suc idx)) ?b" using Cons.prems(5) le 2 blk_start_le [OF Cons.prems(5)] by (simp add: start_block_sel)
      from Cons.IH [OF _ _ o e this _ Cons.prems(7), of cursor] i 2 Cons.prems(5,6) show ?thesis
        by (auto simp: start_block_sel)
    next
      case 3
      obtain out1 a1 where o: "apply_hunk ls idx dls = (out1, idx', a1, r)" "out = tx # out1"
        using Cons.prems(3) dl 3 by (auto split: prod.splits)
      let ?b1 = "start_block (off ls idx) line b"
      let ?b = "Some (?b1\<lparr>eb_newText := eb_newText ?b1 @ tx @ [NL]\<rparr>)"
      have e: "hunk_edits (unl ls) True at1 k (off ls idx) line ?b dls = Inr es"
        using Cons.prems(4) dl 3 by (simp add: Let_def)
      have "blk_ok (off ls idx) ?b" using Cons.prems(5) blk_start_le [OF Cons.prems(5)] by (simp add: start_block_sel)
      moreover have "check_hunk n ls idx dls = None" using Cons.prems(1) dl 3 by simp
      ultimately show ?thesis
        using Cons.IH [OF _ Cons.prems(2) o(1) e _ _ Cons.prems(7), of cursor] Cons.prems(5,6) o(2)
        by (simp add: start_block_sel)
    qed
  qed
qed

definition int64 :: "int \<Rightarrow> bool" where
  "int64 n \<longleftrightarrow> - (2 ^ 63) \<le> n \<and> n < 2 ^ 63"

lemma wrap64_int64 [simp]: "int64 (wrap64 n)"
proof -
  have "0 \<le> (n + 2 ^ 63) mod 2 ^ 64" "(n + 2 ^ 63) mod 2 ^ 64 < 2 ^ 64" by simp_all
  then show ?thesis by (simp add: int64_def wrap64_def)
qed

lemma wrap64_pred:
  assumes "int64 n" "0 \<le> wrap64 (n - 1)" "wrap64 (n - 1) < 2 ^ 63 - 1"
  shows "wrap64 (n - 1) = n - 1"
proof (cases "n = - (2 ^ 63)")
  case True
  then show ?thesis using assms(3) by (simp add: wrap64_def)
next
  case False
  then have "0 \<le> n - 1 + 2 ^ 63" "n - 1 + 2 ^ 63 < 2 ^ 64" using assms(1) by (simp_all add: int64_def)
  then show ?thesis by (simp add: wrap64_def)
qed

lemma parse_digits_int64: "parse_digits s n cs = Inr m \<Longrightarrow> int64 n \<Longrightarrow> int64 m"
  by (induction s n cs rule: parse_digits.induct) (auto simp: Let_def split: if_splits)

lemma parseRange_int64: "parseRange s = Inr (a, b) \<Longrightarrow> int64 a"
  by (auto simp: parseRange_def parseIntStr_def rbind_Inr_iff Let_def int64_def [of 0] split: if_splits option.splits
      dest!: parse_digits_int64)

lemma parseHunkHeader_int64: "parseHunkHeader l = Inr h \<Longrightarrow> int64 (ph_origStart h)"
  by (auto simp: parseHunkHeader_def Let_def split: list.splits sum.splits prod.splits dest: parseRange_int64)

lemma parse_hunks_int64: "parse_hunks n ls = Inr hs \<Longrightarrow> \<forall>h \<in> set hs. int64 (ph_origStart h)"
proof (induction n ls arbitrary: hs rule: parse_hunks.induct)
  case (2 cnt l ls)
  from 2(4) show ?case
    by (simp add: parse_hunks.simps rbind_Inr_iff split: if_splits sum.splits)
      (use 2(1,2,3) in \<open>auto simp: parseHunkHeader_int64\<close>)
qed (simp add: parse_hunks.simps)

lemma hunk_start_line:
  assumes "int64 (ph_origStart h)" "0 \<le> hunk_start h" "hunk_start h < 2 ^ 63 - 1"
  shows "(if ph_origStart h = 0 \<and> ph_origCount h = 0 then 1 else ph_origStart h) = hunk_start h + 1"
  using assms wrap64_pred [of "ph_origStart h"] by (auto simp: hunk_start_def)

lemma hunks_edits_apply:
  assumes ls: "whole_lines ls" and len: "int (length ls) < 2 ^ 63 - 1"
  shows "apply_hunks ls n idx hs = Inr (out, a, r) \<Longrightarrow> idx \<le> length ls \<Longrightarrow> \<forall>h \<in> set hs. int64 (ph_origStart h) \<Longrightarrow>
    hunks_edits (unl ls) True at1 k hs = Inr es \<Longrightarrow> c \<le> off ls idx \<Longrightarrow>
    apply_from (unl ls) c es = Inr (seg (unl ls) c (off ls idx) @ unl out)"
proof (induction hs arbitrary: n idx out a r es c)
  case Nil
  then show ?case using off_le [of ls idx] drop_off [of ls idx] append_take_drop_id [of "off ls idx - c" "drop c (unl ls)"]
    by (simp add: seg_def)
next
  case (Cons h hs)
  let ?s = "nat (hunk_start h)"
  from Cons.prems(1) have s: "int idx \<le> hunk_start h" "hunk_start h \<le> int (length ls)"
    "check_hunk (n + 1) ls ?s (ph_lines h) = None" by (auto simp: Let_def split: if_splits option.splits)
  obtain out1 i a1 r1 where o: "apply_hunk ls ?s (ph_lines h) = (out1, i, a1, r1)" by (cases "apply_hunk ls ?s (ph_lines h)") auto
  obtain outs as1 rs where os: "apply_hunks ls (n + 1) i hs = Inr (outs, as1, rs)"
    "out = take (?s - idx) (drop idx ls) @ out1 @ outs"
    using Cons.prems(1) s o by (auto simp: Let_def rbind_Inr_iff split: prod.splits)
  obtain es1 es2 where e: "patchHunkToResolvedEdits (unl ls) True h at1 k = Inr es1" "hunks_edits (unl ls) True at1 k hs = Inr es2"
    "es = es1 @ es2" using Cons.prems(4) by (auto simp: rbind_Inr_iff)
  have line: "(if ph_origStart h = 0 \<and> ph_origCount h = 0 then 1 else ph_origStart h) = int ?s + 1"
    using hunk_start_line [of h] Cons.prems(3) s(1,2) len by simp
  have he: "hunk_edits (unl ls) True at1 k (off ls ?s) (int ?s + 1) None (ph_lines h) = Inr es1"
    using e(1) unfolding patchHunkToResolvedEdits_def Let_def line byteOffset_off [OF ls] .
  have sl: "?s \<le> length ls" "idx \<le> ?s" using s by linarith+
  have c: "c \<le> off ls ?s" using Cons.prems(5) off_mono [OF sl(2)] by (rule le_trans)
  have i: "i \<le> length ls" using apply_hunk_le [OF o s(3) sl(1)] .
  have "apply_from (unl ls) c (es1 @ es2) = Inr (seg (unl ls) c (off ls ?s) @ unl out1 @ unl outs)"
    using hunk_edits_apply [OF ls s(3) sl(1) o he, of c es2 "unl outs"] Cons.IH [OF os(1) i _ e(2)] Cons.prems(3) c by simp
  then show ?case using e(3) os(2) seg_lines [OF sl(2,1) Cons.prems(5)] by simp
qed

lemma hunk_edits_index: "hunk_edits content ht at1 k byte line b dls = Inr es \<Longrightarrow> e \<in> set es \<Longrightarrow> re_opIndex e = k"
  by (induction content ht at1 k byte line b dls arbitrary: es rule: hunk_edits.induct)
    (auto simp: flush_block_def Let_def rbind_Inr_iff split: option.splits if_splits)

lemma hunks_edits_index: "hunks_edits content ht at1 k hs = Inr es \<Longrightarrow> \<forall>e \<in> set es. re_opIndex e = k"
  by (induction hs arbitrary: es)
    (auto simp: rbind_Inr_iff patchHunkToResolvedEdits_def Let_def dest: hunk_edits_index)

lemma resolvePatch_Inr:
  assumes "resolvePatch content patch k = Inr es" "content \<noteq> []" "last content = NL"
  obtains hs out a r where "parseUnifiedDiff patch = Inr (hs, False)" "hs \<noteq> []"
    "apply_hunks (butlast (Split content NL)) 0 0 hs = Inr (out, a, r)" "hunks_edits content True False k hs = Inr es"
  using assms trailing_lines(1) [OF assms(2,3)]
  by (auto simp: resolvePatch_def applyUnifiedPatchWithHunks_def applyUnifiedPatch_def parseUnifiedDiff_def Let_def
      rbind_Inr_iff split: if_splits)

section \<open>Every resolved edit is in range\<close>

lemma advance_range: "byte \<le> length content \<Longrightarrow> byte \<le> advanceOffsetByLine content byte \<and> advanceOffsetByLine content byte \<le> length content"
proof (cases "find_index (\<lambda>c. c = NL) (drop byte content)")
  case (Some i)
  then have "i < length (drop byte content)" using find_index_Some by blast
  then show ?thesis using Some by (simp add: advanceOffsetByLine_def)
qed (simp add: advanceOffsetByLine_def del: find_index_None)

lemma hunk_edits_range:
  assumes "hunk_edits content ht at1 k byte line b dls = Inr es" "byte \<le> length content" "blk_ok byte b"
  shows "list_all (in_range content) es"
  using assms
proof (induction content ht at1 k byte line b dls arbitrary: es rule: hunk_edits.induct)
  case (3 content ht at1 k byte line b p tx dls)
  note prem = "3.prems"
  note adv = advance_range [OF prem(2)]
  have flush: "list_all (in_range content) (flush_block content ht at1 k b)"
    using prem by (auto simp: flush_block_def in_range_def split: option.splits)
  consider "p = CHR '' ''" | "p = CHR ''-''" | "p = CHR ''+''" using prem(1) by (auto split: if_splits)
  then show ?case
  proof cases
    case 1
    then show ?thesis using "3.IH"(1) prem(1) adv flush by (auto simp: rbind_Inr_iff)
  next
    case 2
    then show ?thesis using "3.IH"(2) [OF _ 2 refl, of es] prem adv blk_start_le [OF prem(3)] by (simp add: start_block_sel Let_def)
  next
    case 3
    then show ?thesis using "3.IH"(3) [OF _ _ \<open>p = CHR ''+''\<close> refl refl, of es] prem blk_start_le [OF prem(3)]
      by (simp add: start_block_sel)
  qed
qed (auto simp: flush_block_def in_range_def split: option.splits)

lemma hunks_edits_range: "hunks_edits content ht at1 k hs = Inr es \<Longrightarrow> list_all (in_range content) es"
  by (induction hs arbitrary: es)
    (auto simp: rbind_Inr_iff patchHunkToResolvedEdits_def Let_def offset_le dest: hunk_edits_range)

lemma resolvePatch_range: "resolvePatch content patch k = Inr es \<Longrightarrow> list_all (in_range content) es"
  by (auto simp: resolvePatch_def Let_def rbind_Inr_iff hunks_edits_range split: if_splits)

lemma insert_edit_range [simp]: "n \<le> length content \<Longrightarrow> in_range content (insert_edit k content n text)"
  by (simp add: insert_edit_def in_range_def Let_def)

lemma matches_range: "m \<in> set (findAllStringMatches content needle) \<Longrightarrow> in_range content (replace_edit k content text m)"
  using match_from_range [of "fst m" "snd m" needle 0 content]
  by (simp add: findAllStringMatches_def replace_edit_def in_range_def)

lemma resolveReplace_range: "resolveReplace content r k = Inr es \<Longrightarrow> list_all (in_range content) es"
  using matches_range [OF hd_in_set]
  by (auto simp: resolveReplace_def Let_def list_all_iff matches_range split: if_splits)

lemma resolveRemove_range: "resolveRemove content r k = Inr es \<Longrightarrow> list_all (in_range content) es"
  by (auto simp: resolveRemove_def remove_lines_edit_def replace_edit_def in_range_def offset_le offset_mono
      split: option.splits list.splits if_splits dest: Index_Some)

lemma resolveSingleOperation_range: "resolveSingleOperation content o1 k = Inr es \<Longrightarrow> list_all (in_range content) es"
  by (auto simp: resolveSingleOperation_def resolveReplace_range resolveRemove_range resolvePatch_range
      resolveInsert_def resolveAppend_def Let_def offset_le split: option.splits if_splits)

lemma resolve_ops_range: "resolve_ops content i ops = Inr es \<Longrightarrow> list_all (in_range content) es"
  by (induction ops arbitrary: i es) (auto simp: rbind_Inr_iff resolveSingleOperation_range split: sum.splits)

section \<open>What the operations do\<close>

lemma edits_resolve_in_range: "resolveOperationsAgainstOriginal content ops = Inr edits \<Longrightarrow> list_all (in_range content) edits"
  by (simp add: resolveOperationsAgainstOriginal_def resolve_ops_range)

lemma edits_merge:
  assumes "resolveOperationsAgainstOriginal content ops = Inr edits"
  shows "detectConflicts edits = None \<longleftrightarrow> sorted_wrt (\<lambda>a b. editsConflict a b = None) edits"
    and "detectConflicts edits = None \<Longrightarrow> applyResolvedEdits content edits = Inr (foldr splice (sort_edits edits) content)"
  using edits_resolve_in_range [OF assms] detectConflicts_pairwise conflict_free_applies
  by (auto simp: list_all_iff in_range_def)

text \<open>
  C39. The operations of one call are resolved against the original text, whatever their kinds: every
  resolved edit lies within the text; the scan for conflicts, which stops at the first edit that
  starts later, answers exactly whether some two edits conflict, independently of their order; and
  when none do, applying them never fails and gives the text in which each edit is spliced in, from
  the last position to the first, so that an edit never moves the target of another.
\<close>

theorem operations_merge:
  assumes "resolveOperationsAgainstOriginal content ops = Inr edits"
  shows "list_all (in_range content) edits \<and>
    (detectConflicts edits = None \<longleftrightarrow> sorted_wrt (\<lambda>a b. editsConflict a b = None) edits) \<and>
    (detectConflicts edits = None \<longrightarrow> applyResolvedEdits content edits = Inr (foldr splice (sort_edits edits) content))"
  using edits_resolve_in_range [OF assms] edits_merge [OF assms] by blast

definition no_op :: operation where
  "no_op = \<lparr>op_Replace = None, op_Insert = None, op_Remove = None, op_Append = None, op_Patch = None\<rparr>"

definition demo_ops :: "operation list" where
  "demo_ops =
     [no_op\<lparr>op_Append := Some ''z''\<rparr>,
      no_op\<lparr>op_Remove := Some \<lparr>rv_ByString = None, rv_ByLines = Some [2]\<rparr>\<rparr>,
      no_op\<lparr>op_Insert := Some \<lparr>in_Line = 1, in_Content = ''i'' @ [NL], in_Indent = ''none''\<rparr>\<rparr>]"

theorem operations_merge_witness:
  "applyResolvedEdits (''a'' @ NL # ''b'' @ [NL]) (projr (resolveOperationsAgainstOriginal (''a'' @ NL # ''b'' @ [NL]) demo_ops)) =
    Inr (''i'' @ NL # ''a'' @ NL # ''z'')"
proof -
  let ?c = "''a'' @ NL # ''b'' @ [NL]"
  have e: "resolveOperationsAgainstOriginal ?c demo_ops = Inr (projr (resolveOperationsAgainstOriginal ?c demo_ops))"
    by code_simp
  have "detectConflicts (projr (resolveOperationsAgainstOriginal ?c demo_ops)) = None" by code_simp
  with operations_merge [OF e] have "applyResolvedEdits ?c (projr (resolveOperationsAgainstOriginal ?c demo_ops)) =
    Inr (foldr splice (sort_edits (projr (resolveOperationsAgainstOriginal ?c demo_ops))) ?c)" by blast
  then show ?thesis by (rule trans) code_simp
qed

text \<open>
  C40. A patch on a text that ends in a newline: when it resolves, applying its hunks to the lines
  succeeds, its edits do not conflict, and applying the edits to the text gives exactly the patched
  lines.
\<close>

theorem patch_edits_agree:
  assumes "resolvePatch content patch k = Inr edits" "content \<noteq> []" "last content = NL" "int (length content) < 2 ^ 63 - 1"
  shows "detectConflicts edits = None \<and> (\<exists>res. applyUnifiedPatch (butlast (Split content NL)) patch = Inr res \<and>
    applyResolvedEdits content edits = Inr (concat (map (\<lambda>l. l @ [NL]) (pr_lines res))))"
proof -
  let ?ls = "butlast (Split content NL)"
  note tl = trailing_lines [OF assms(2,3)]
  from resolvePatch_Inr [OF assms(1-3)] obtain hs out a r where h: "parseUnifiedDiff patch = Inr (hs, False)" "hs \<noteq> []"
    "apply_hunks ?ls 0 0 hs = Inr (out, a, r)" "hunks_edits content True False k hs = Inr edits" .
  have len: "int (length ?ls) < 2 ^ 63 - 1" using assms(4) tl(2) unl_length [of ?ls] by simp
  have "\<forall>x \<in> set hs. int64 (ph_origStart x)"
    using h(1) parse_hunks_int64 by (auto simp: parseUnifiedDiff_def Let_def rbind_Inr_iff)
  then have "apply_from content 0 edits = Inr (unl out)"
    using hunks_edits_apply [OF tl(3) len h(3), of False k edits 0] h(4) tl(2) by (simp add: seg_def off_def)
  from listed_edits_apply [OF this hunks_edits_index [OF h(4)]] h show ?thesis
    by (simp add: applyUnifiedPatch_def unl_def)
qed

definition demo_patch :: string where
  "demo_patch = ''@@ -1,2 +1,2 @@'' @ NL # '' a'' @ NL # ''-b'' @ NL # ''+c'' @ [NL]"

theorem patch_edits_agree_witness:
  "detectConflicts (projr (resolvePatch (''a'' @ NL # ''b'' @ [NL]) demo_patch 0)) = None \<and>
   (\<exists>res. applyUnifiedPatch [''a'', ''b''] demo_patch = Inr res \<and>
      applyResolvedEdits (''a'' @ NL # ''b'' @ [NL]) (projr (resolvePatch (''a'' @ NL # ''b'' @ [NL]) demo_patch 0)) =
        Inr (concat (map (\<lambda>l. l @ [NL]) (pr_lines res))))"
proof -
  let ?c = "''a'' @ NL # ''b'' @ [NL]"
  have e: "resolvePatch ?c demo_patch 0 = Inr (projr (resolvePatch ?c demo_patch 0))" by code_simp
  show ?thesis using patch_edits_agree [OF e] by simp
qed

text \<open>
  A replace operation that finds its old string and resolves - with replace_all for any number of
  occurrences, without it only for exactly one - yields edits that do not conflict and that turn
  the text into the one in which every occurrence, counted from the left without overlaps, is
  replaced.
\<close>

lemma replace_replaces_all:
  assumes "resolveReplace content r k = Inr edits" "Index content (rp_OldString r) \<noteq> None"
  shows "detectConflicts edits = None"
    and "applyResolvedEdits content edits = Inr (ReplaceAll content (rp_OldString r) (rp_NewString r))"
proof -
  let ?ms = "findAllStringMatches content (rp_OldString r)"
  let ?all = "map (replace_edit k content (rp_NewString r)) ?ms"
  from assms(1) have "rp_OldString r \<noteq> []" by (auto simp: resolveReplace_def split: if_splits)
  then have "?ms \<noteq> []" using assms(2) by (auto simp: findAllStringMatches_def match_from_some)
  then have "edits = ?all" using assms(1)
    by (cases ?ms) (auto simp: resolveReplace_def Let_def split: if_splits)
  moreover have "apply_from content 0 ?all = Inr (ReplaceAll content (rp_OldString r) (rp_NewString r))"
    using apply_matches [of 0 content k "rp_NewString r" "rp_OldString r"] by (simp add: findAllStringMatches_def)
  ultimately have a: "apply_from content 0 edits = Inr (ReplaceAll content (rp_OldString r) (rp_NewString r))"
    "\<forall>e \<in> set edits. re_opIndex e = k" by (auto simp: replace_edit_def)
  show "detectConflicts edits = None"
    "applyResolvedEdits content edits = Inr (ReplaceAll content (rp_OldString r) (rp_NewString r))"
    using listed_edits_apply [OF a] by blast+
qed

lemma replace_replaces_all_example:
  "applyResolvedEdits ''aaab'' (projr (resolveReplace ''aaab'' \<lparr>rp_OldString = ''aa'', rp_NewString = ''c'',
      rp_ReplaceAll = True, rp_IfMissing = []\<rparr> 0)) = Inr ''cab''"
proof -
  let ?r = "\<lparr>rp_OldString = ''aa'', rp_NewString = ''c'', rp_ReplaceAll = True, rp_IfMissing = []\<rparr>"
  have e: "resolveReplace ''aaab'' ?r 0 = Inr (projr (resolveReplace ''aaab'' ?r 0))"
    "Index ''aaab'' (rp_OldString ?r) \<noteq> None" by code_simp+
  from replace_replaces_all(2) [OF e] show ?thesis by (rule trans) code_simp
qed

text \<open>Lines are counted by their newlines: removing a range drops exactly those lines, inserting puts text between two.\<close>

lemma remove_lines_result:
  assumes "1 \<le> m" "m \<le> n" "n \<le> int (length (splitLinesPreserveShape content))" "rv_ByString r = None" "rv_ByLines r = Some [m, n]"
  shows "\<exists>es. resolveRemove content r k = Inr es \<and>
    applyResolvedEdits content es = Inr (concat (take (nat (m - 1)) (lines_nl content) @ drop (nat n) (lines_nl content)))"
proof -
  have "in_range content (remove_lines_edit k content m n)"
    using assms(2) by (simp add: in_range_def remove_lines_edit_def offset_le offset_mono)
  then have "applyResolvedEdits content [remove_lines_edit k content m n] = Inr (splice (remove_lines_edit k content m n) content)"
    by (rule single_apply)
  then show ?thesis using assms
    by (simp add: resolveRemove_def remove_lines_edit_def splice_def byteOffsetForLine_lines take_offset drop_offset)
qed

lemma insert_line_result:
  assumes "1 \<le> in_Line i" "in_Indent i \<noteq> []" "in_Indent i \<noteq> ''auto''"
  shows "\<exists>es. resolveInsert content i k = Inr es \<and> applyResolvedEdits content es =
    Inr (concat (take (nat (in_Line i - 1)) (lines_nl content)) @ in_Content i @ concat (drop (nat (in_Line i - 1)) (lines_nl content)))"
proof -
  let ?n = "int (length (splitLinesPreserveShape content))"
  let ?l = "min (in_Line i) (?n + 1)"
  let ?e = "insert_edit k content (byteOffsetForLine content ?l) (in_Content i)"
  have t: "take (nat (?l - 1)) (lines_nl content) = take (nat (in_Line i - 1)) (lines_nl content)"
    "drop (nat (?l - 1)) (lines_nl content) = drop (nat (in_Line i - 1)) (lines_nl content)"
    using assms(1) by (auto simp: lines_nl_length min_def)
  have "in_range content ?e" by (simp add: offset_le)
  from single_apply [OF this] show ?thesis using assms
    by (simp add: resolveInsert_def Let_def splice_def insert_edit_def byteOffsetForLine_lines t take_offset drop_offset)
qed

text \<open>
  Without a final newline the edits of a patch part from the patched lines: an added line after
  the last one is glued to it, and so are two added lines.
\<close>

lemma open_line_glued:
  "\<exists>res edits. applyUnifiedPatch [''a''] (''@@ -1 +1,3 @@'' @ NL # '' a'' @ NL # ''+b'' @ NL # ''+c'' @ [NL]) = Inr res \<and>
     pr_lines res = [''a'', ''b'', ''c''] \<and>
     resolvePatch ''a'' (''@@ -1 +1,3 @@'' @ NL # '' a'' @ NL # ''+b'' @ NL # ''+c'' @ [NL]) 0 = Inr edits \<and>
     applyResolvedEdits ''a'' edits = Inr ''abc''"
proof (intro exI conjI)
  show "applyUnifiedPatch [''a''] (''@@ -1 +1,3 @@'' @ NL # '' a'' @ NL # ''+b'' @ NL # ''+c'' @ [NL]) =
    Inr \<lparr>pr_lines = [''a'', ''b'', ''c''], pr_hunksApplied = 1, pr_linesAdded = 2, pr_linesRemoved = 0, pr_addTrailingNewline = False\<rparr>"
    by code_simp
  show "resolvePatch ''a'' (''@@ -1 +1,3 @@'' @ NL # '' a'' @ NL # ''+b'' @ NL # ''+c'' @ [NL]) 0 =
    Inr [\<lparr>re_opIndex = 0, re_kind = ''patch'', re_start = 1, re_end = 1, re_startLine = 2, re_endLine = 2, re_newText = ''bc''\<rparr>]"
    by code_simp
  show "applyResolvedEdits ''a'' [\<lparr>re_opIndex = 0, re_kind = ''patch'', re_start = 1, re_end = 1, re_startLine = 2,
    re_endLine = 2, re_newText = ''bc''\<rparr>] = Inr ''abc''" by code_simp
qed simp

text \<open>
  A hunk without context, whose header by the unified format names the line after which it
  inserts, inserts before that line.
\<close>

lemma zero_context_hunk_early:
  assumes "n < length ls" "int n < 2 ^ 62"
  shows "apply_hunks ls 0 0 [\<lparr>ph_origStart = int n + 1, ph_origCount = 0, ph_newStart = int n + 2, ph_newCount = 1, ph_lines = [CHR ''+'' # l]\<rparr>] =
    Inr (take n ls @ l # drop n ls, 1, 0)"
proof -
  have "wrap64 (int n) = int n" using assms(2) by (simp add: wrap64_def)
  then show ?thesis using assms(1) by (simp add: hunk_start_def)
qed

lemma zero_context_hunk_early_example:
  "apply_hunks [''a'', ''b''] 0 0 [\<lparr>ph_origStart = 1, ph_origCount = 0, ph_newStart = 2, ph_newCount = 1, ph_lines = [''+x'']\<rparr>] =
    Inr ([''x'', ''a'', ''b''], 1, 0)"
  using zero_context_hunk_early [of 0 "[''a'', ''b'']" "''x''"] by simp

text \<open>A removed line that starts with two dashes and a space ends its hunk: it reads as a file header.\<close>

lemma dash_line_ends_hunk: "hunk_body ([''-x'', ''--- y'', ''+z'']) = ([''-x''], [''--- y'', ''+z''])"
  by code_simp

end
