(* ===== verification/File_Edit.thy ===== *)
theory File_Edit
  imports Text_Patch "HOL-Library.List_Lexorder" "HOL-Library.Char_ord"
begin

text \<open>
  The handler of the \<^verbatim>\<open>file_edit\<close> tool (\<^verbatim>\<open>fileEdit\<close> of \<^verbatim>\<open>src/tools/filesystem/edit_impl.go\<close>) over a file
  system: reading, editing, verifying, writing to temporary files and renaming, with every error
  branch, with and without \<^verbatim>\<open>allow_partial\<close>. A file system maps paths to nodes. What the operating system
  decides - which call fails and what a failed write leaves, the creation mask, how a path resolves,
  and what other processes do between reading and verifying - is an environment; so is the digest.
\<close>

section \<open>File systems\<close>

datatype fs_node = Regular string nat | Directory | Symlink

type_synonym fs = "string \<Rightarrow> fs_node option"

record 'h fe_env =
  fe_lstat_err :: "string \<Rightarrow> string option"
  fe_stat_err :: "string \<Rightarrow> string option"
  fe_read_err :: "string \<Rightarrow> string option"
  fe_between :: "fs \<Rightarrow> fs"
  fe_verify_err :: "string \<Rightarrow> string option"
  fe_write_err :: "string \<Rightarrow> (string \<times> nat option) option"
  fe_rename_err :: "string \<Rightarrow> string option"
  fe_remove_err :: "string \<Rightarrow> bool"
  fe_umask :: "nat \<Rightarrow> nat"
  fe_target :: "fs \<Rightarrow> string \<Rightarrow> string"
  fe_sha :: "string \<Rightarrow> 'h"

definition os_lstat :: "'h fe_env \<Rightarrow> fs \<Rightarrow> string \<Rightarrow> (string, fs_node) result" where
  "os_lstat env fs p =
     (case fe_lstat_err env p of Some e \<Rightarrow> Inl e | None \<Rightarrow> (case fs p of None \<Rightarrow> Inl ''no such file'' | Some n \<Rightarrow> Inr n))"

definition os_stat :: "'h fe_env \<Rightarrow> fs \<Rightarrow> string \<Rightarrow> (string, fs_node) result" where
  "os_stat env fs p =
     (case fe_stat_err env p of
        Some e \<Rightarrow> Inl e
      | None \<Rightarrow> (case fs (fe_target env fs p) of None \<Rightarrow> Inl ''no such file'' | Some n \<Rightarrow> Inr n))"

definition os_read :: "(string \<Rightarrow> string option) \<Rightarrow> 'h fe_env \<Rightarrow> fs \<Rightarrow> string \<Rightarrow> (string, string) result" where
  "os_read err env fs p =
     (case err p of
        Some e \<Rightarrow> Inl e
      | None \<Rightarrow> (case fs (fe_target env fs p) of Some (Regular d m) \<Rightarrow> Inr d | _ \<Rightarrow> Inl ''not a readable file''))"

text \<open>\<^verbatim>\<open>os.WriteFile\<close> keeps the mode of a file that exists; a failed write may leave some of the data.\<close>

definition put_data :: "'h fe_env \<Rightarrow> fs \<Rightarrow> string \<Rightarrow> string \<Rightarrow> nat \<Rightarrow> fs" where
  "put_data env fs p d perm = fs(p \<mapsto> Regular d (case fs p of Some (Regular _ m) \<Rightarrow> m | _ \<Rightarrow> fe_umask env perm))"

definition os_write :: "'h fe_env \<Rightarrow> fs \<Rightarrow> string \<Rightarrow> string \<Rightarrow> nat \<Rightarrow> string option \<times> fs" where
  "os_write env fs p d perm =
     (let t = fe_target env fs p in
      if fs t = Some Directory then (Some ''is a directory'', fs)
      else case fe_write_err env p of
        None \<Rightarrow> (None, put_data env fs t d perm)
      | Some (e, None) \<Rightarrow> (Some e, fs)
      | Some (e, Some n) \<Rightarrow> (Some e, put_data env fs t (take n d) perm))"

definition os_rename :: "'h fe_env \<Rightarrow> fs \<Rightarrow> string \<Rightarrow> string \<Rightarrow> string option \<times> fs" where
  "os_rename env fs a b =
     (case fe_rename_err env b of
        Some e \<Rightarrow> (Some e, fs)
      | None \<Rightarrow>
          (case fs a of
             None \<Rightarrow> (Some ''no such file'', fs)
           | Some n \<Rightarrow> if fs b = Some Directory then (Some ''file exists'', fs) else (None, (fs(a := None))(b \<mapsto> n))))"

definition os_remove :: "'h fe_env \<Rightarrow> fs \<Rightarrow> string \<Rightarrow> fs" where
  "os_remove env fs p = (if fe_remove_err env p then fs else fs(p := None))"

section \<open>The handler\<close>

record file_edit_params =
  fp_Path :: "string list"
  fp_DryRun :: bool
  fp_AllowPartial :: bool
  fp_Operations :: "operation list"

datatype file_error =
    PathRequired
  | OperationsRequired
  | BadOperation nat
  | NoFilesMatched
  | InspectFailed string string
  | IsSymlinkErr string
  | StatFailed string
  | IsDirectoryErr string
  | FileTooLarge string
  | ReadFailed string string
  | EditFailed string edit_error
  | VerifyFailed string string
  | FileChanged string
  | WriteFailed string string
  | RenameFailed string string

text \<open>A failed read is returned as the Go error of the call; the other errors are tool results.\<close>

datatype edit_outcome =
    ToolError file_error
  | GoError string
  | DryRunDone "(string \<times> string \<times> string) list" "file_error list"
  | EditDone "(string \<times> string \<times> string) list" "file_error list"

fun fail_outcome :: "file_error \<Rightarrow> edit_outcome" where
  "fail_outcome (ReadFailed p e) = GoError e"
| "fail_outcome e = ToolError e"

record file_state =
  fst_path :: string
  fst_perm :: nat
  fst_orig :: string
  fst_mod :: string

definition expandPaths :: "(string \<Rightarrow> string list) \<Rightarrow> string list \<Rightarrow> string list" where
  "expandPaths matches paths = sort (remdups (concat (map matches paths)))"

definition maxFileSize :: nat where
  "maxFileSize = 10 * 1024 * 1024"

text \<open>One iteration of a loop that stops at an error, or collects it with \<^verbatim>\<open>allow_partial\<close>.\<close>

fun collect_partial ::
  "bool \<Rightarrow> ('a \<Rightarrow> (file_error, 'b) result) \<Rightarrow> 'a list \<Rightarrow> (file_error, 'b list \<times> file_error list) result" where
  "collect_partial partial f [] = Inr ([], [])"
| "collect_partial partial f (x # xs) =
     (case f x of
        Inl e \<Rightarrow> if partial then rbind (collect_partial partial f xs) (\<lambda>(ys, es). Inr (ys, e # es)) else Inl e
      | Inr y \<Rightarrow> rbind (collect_partial partial f xs) (\<lambda>(ys, es). Inr (y # ys, es)))"

definition read_state :: "'h fe_env \<Rightarrow> fs \<Rightarrow> string \<Rightarrow> (file_error, file_state) result" where
  "read_state env fs p =
     (case os_lstat env fs p of
        Inl e \<Rightarrow> Inl (InspectFailed p e)
      | Inr Symlink \<Rightarrow> Inl (IsSymlinkErr p)
      | Inr _ \<Rightarrow>
          (case os_stat env fs p of
             Inl e \<Rightarrow> Inl (StatFailed p)
           | Inr (Regular d m) \<Rightarrow>
               if maxFileSize < length d then Inl (FileTooLarge p)
               else (case os_read (fe_read_err env) env fs p of
                       Inl e \<Rightarrow> Inl (ReadFailed p e)
                     | Inr d' \<Rightarrow> Inr \<lparr>fst_path = p, fst_perm = m, fst_orig = d', fst_mod = d'\<rparr>)
           | Inr _ \<Rightarrow> Inl (IsDirectoryErr p)))"

definition edit_text :: "operation list \<Rightarrow> string \<Rightarrow> (edit_error, string) result" where
  "edit_text ops content =
     rbind (resolveOperationsAgainstOriginal content ops) (\<lambda>edits.
       case detectConflicts edits of Some e \<Rightarrow> Inl e | None \<Rightarrow> applyResolvedEdits content edits)"

text \<open>A file whose edit failed keeps its state unmodified.\<close>

fun edit_states :: "bool \<Rightarrow> operation list \<Rightarrow> file_state list \<Rightarrow> (file_error, file_state list \<times> file_error list) result" where
  "edit_states partial ops [] = Inr ([], [])"
| "edit_states partial ops (s # ss) =
     (case edit_text ops (fst_orig s) of
        Inl e \<Rightarrow>
          if partial then rbind (edit_states partial ops ss) (\<lambda>(ts, es). Inr (s # ts, EditFailed (fst_path s) e # es))
          else Inl (EditFailed (fst_path s) e)
      | Inr m \<Rightarrow> rbind (edit_states partial ops ss) (\<lambda>(ts, es). Inr (s\<lparr>fst_mod := m\<rparr> # ts, es)))"

definition verify_state :: "'h fe_env \<Rightarrow> fs \<Rightarrow> file_state \<Rightarrow> (file_error, file_state) result" where
  "verify_state env fs s =
     (case os_read (fe_verify_err env) env fs (fst_path s) of
        Inl e \<Rightarrow> Inl (VerifyFailed (fst_path s) e)
      | Inr cur \<Rightarrow> if fe_sha env cur \<noteq> fe_sha env (fst_orig s) then Inl (FileChanged (fst_path s)) else Inr s)"

definition tmp_of :: "string \<Rightarrow> string" where
  "tmp_of p = p @ ''.tmp''"

fun write_tmps :: "'h fe_env \<Rightarrow> bool \<Rightarrow> file_state list \<Rightarrow> fs \<Rightarrow> (file_error, file_error list) result \<times> fs" where
  "write_tmps env partial [] fs = (Inr [], fs)"
| "write_tmps env partial (s # ss) fs =
     (case os_write env fs (tmp_of (fst_path s)) (fst_mod s) (fst_perm s) of
        (None, fs1) \<Rightarrow> write_tmps env partial ss fs1
      | (Some e, fs1) \<Rightarrow>
          if \<not> partial then (Inl (WriteFailed (fst_path s) e), fs1)
          else (case write_tmps env partial ss fs1 of
                  (r, fs2) \<Rightarrow> (rbind r (\<lambda>es. Inr (WriteFailed (fst_path s) e # es)), fs2)))"

fun rename_tmps :: "'h fe_env \<Rightarrow> bool \<Rightarrow> file_state list \<Rightarrow> fs \<Rightarrow> (file_error, file_error list) result \<times> fs" where
  "rename_tmps env partial [] fs = (Inr [], fs)"
| "rename_tmps env partial (s # ss) fs =
     (let tmp = tmp_of (fst_path s) in
      case os_stat env fs tmp of
        Inl e \<Rightarrow> rename_tmps env partial ss fs
      | Inr n \<Rightarrow>
          (case os_rename env fs tmp (fst_path s) of
             (None, fs1) \<Rightarrow> rename_tmps env partial ss fs1
           | (Some e, fs1) \<Rightarrow>
               let fs2 = os_remove env fs1 tmp in
               if \<not> partial then (Inl (RenameFailed (fst_path s) e), fs2)
               else (case rename_tmps env partial ss fs2 of
                       (r, fs3) \<Rightarrow> (rbind r (\<lambda>es. Inr (RenameFailed (fst_path s) e # es)), fs3))))"

definition write_states ::
  "'h fe_env \<Rightarrow> bool \<Rightarrow> file_state list \<Rightarrow> fs \<Rightarrow> (file_error, file_error list) result \<times> fs" where
  "write_states env partial pending fs =
     (case collect_partial partial (verify_state env fs) pending of
        Inl e \<Rightarrow> (Inl e, fs)
      | Inr (verified, es) \<Rightarrow>
          (case write_tmps env partial verified fs of
             (Inl e, fs1) \<Rightarrow> (Inl e, fs1)
           | (Inr es1, fs1) \<Rightarrow>
               (case rename_tmps env partial verified fs1 of (r, fs2) \<Rightarrow> (rbind r (\<lambda>es2. Inr (es @ es1 @ es2)), fs2))))"

fun bad_operation :: "nat \<Rightarrow> operation list \<Rightarrow> nat option" where
  "bad_operation i [] = None"
| "bad_operation i (o1 # os) = (if operation_valid o1 then bad_operation (i + 1) os else Some i)"

definition edited :: "file_state \<Rightarrow> bool" where
  "edited s \<longleftrightarrow> fst_orig s \<noteq> fst_mod s"

definition show_diff :: "file_state \<Rightarrow> string \<times> string \<times> string" where
  "show_diff s = (fst_path s, fst_orig s, fst_mod s)"

definition fileEdit :: "'h fe_env \<Rightarrow> (string \<Rightarrow> string list) \<Rightarrow> file_edit_params \<Rightarrow> fs \<Rightarrow> edit_outcome \<times> fs" where
  "fileEdit env matches p fs =
     (let partial = fp_AllowPartial p; files = expandPaths matches (fp_Path p) in
      if fp_Path p = [] then (ToolError PathRequired, fs)
      else if fp_Operations p = [] then (ToolError OperationsRequired, fs)
      else case bad_operation 0 (fp_Operations p) of
        Some i \<Rightarrow> (ToolError (BadOperation i), fs)
      | None \<Rightarrow>
          if files = [] then (ToolError NoFilesMatched, fs)
          else (case collect_partial partial (read_state env fs) files of
            Inl e \<Rightarrow> (fail_outcome e, fs)
          | Inr (states, es) \<Rightarrow>
              (case edit_states partial (fp_Operations p) states of
                 Inl e \<Rightarrow> (fail_outcome e, fs)
               | Inr (states', es1) \<Rightarrow>
                   let pending = filter edited states'; diffs = map show_diff pending in
                   if fp_DryRun p then (DryRunDone diffs (es @ es1), fs)
                   else (case write_states env partial pending (fe_between env fs) of
                           (Inl e, fs1) \<Rightarrow> (fail_outcome e, fs1)
                         | (Inr es2, fs1) \<Rightarrow> (EditDone diffs (es @ es1 @ es2), fs1)))))"

section \<open>The stages\<close>

lemma tmp_of_eq [simp]: "tmp_of p = tmp_of q \<longleftrightarrow> p = q" "tmp_of p \<noteq> p" "p \<noteq> tmp_of p"
  by (simp_all add: tmp_of_def)

lemma collect_partial_Inr:
  assumes "collect_partial partial f xs = Inr (ys, es)"
  shows "\<forall>y \<in> set ys. \<exists>x \<in> set xs. f x = Inr y" "es = [] \<Longrightarrow> map f xs = map Inr ys"
  using assms
  by (induction xs arbitrary: ys es) (auto simp: rbind_Inr_iff split: sum.splits if_splits, blast)

lemma edit_states_Inr:
  assumes "edit_states partial ops ss = Inr (ts, es)" "t \<in> set ts" "edited t" "\<forall>s \<in> set ss. fst_mod s = fst_orig s"
  shows "\<exists>s \<in> set ss. edit_text ops (fst_orig s) = Inr (fst_mod t) \<and> fst_orig t = fst_orig s \<and> fst_path t = fst_path s \<and> fst_perm t = fst_perm s"
  using assms
  by (induction ss arbitrary: ts es) (auto simp: rbind_Inr_iff edited_def split: sum.splits if_splits)

lemma edit_states_all:
  assumes "edit_states partial ops ss = Inr (ts, [])"
  shows "map fst_path ts = map fst_path ss" "map (\<lambda>s. Inr s) ts = map (\<lambda>s. map_sum id (\<lambda>m. s\<lparr>fst_mod := m\<rparr>) (edit_text ops (fst_orig s))) ss"
  using assms
  by (induction ss arbitrary: ts) (auto simp: rbind_Inr_iff split: sum.splits if_splits)

text \<open>The path resolution the environment stands for: a path that is no link names itself.\<close>

definition resolves :: "'h fe_env \<Rightarrow> bool" where
  "resolves env \<longleftrightarrow> (\<forall>fs p. fs p \<noteq> Some Symlink \<longrightarrow> fe_target env fs p = p)"

lemma os_write_frame:
  assumes "resolves env" "fs p \<noteq> Some Symlink" "os_write env fs p d m = (r, fs1)"
  shows "q \<noteq> p \<Longrightarrow> fs1 q = fs q" "fs1 q = Some Symlink \<Longrightarrow> fs q = Some Symlink"
  using assms by (auto simp: os_write_def resolves_def put_data_def Let_def split: if_splits option.splits)

lemma write_tmps_frame:
  assumes "resolves env" "write_tmps env partial ss fs = (r, fs1)" "\<forall>s \<in> set ss. fs (tmp_of (fst_path s)) \<noteq> Some Symlink"
  shows "\<forall>q. q \<notin> (tmp_of \<circ> fst_path) ` set ss \<longrightarrow> fs1 q = fs q"
  using assms(2,3)
proof (induction ss arbitrary: fs r fs1)
  case (Cons s ss)
  obtain e fs0 where w: "os_write env fs (tmp_of (fst_path s)) (fst_mod s) (fst_perm s) = (e, fs0)" by fastforce
  note fr = os_write_frame [OF assms(1) _ w]
  have s0: "fs (tmp_of (fst_path s)) \<noteq> Some Symlink" using Cons.prems(2) by simp
  have n: "\<forall>s \<in> set ss. fs0 (tmp_of (fst_path s)) \<noteq> Some Symlink" using Cons.prems(2) fr(2) [OF s0] by fastforce
  have "\<exists>r0. fs1 = fs0 \<or> write_tmps env partial ss fs0 = (r0, fs1)"
    using Cons.prems(1) w by (auto split: option.splits if_splits prod.splits)
  then show ?case using Cons.IH [OF _ n] fr(1) [OF s0] by auto
qed simp

lemma rename_tmps_frame:
  assumes "rename_tmps env partial ss fs = (r, fs1)"
  shows "\<forall>q. q \<notin> fst_path ` set ss \<union> (tmp_of \<circ> fst_path) ` set ss \<longrightarrow> fs1 q = fs q"
  using assms
proof (induction ss arbitrary: fs r fs1)
  case (Cons s ss)
  obtain fs0 r0 where "fs1 = fs0 \<or> rename_tmps env partial ss fs0 = (r0, fs1)"
    "\<forall>q. q \<noteq> fst_path s \<and> q \<noteq> tmp_of (fst_path s) \<longrightarrow> fs0 q = fs q"
    using Cons.prems
    by (force simp: Let_def os_rename_def os_remove_def split: sum.splits option.splits if_splits prod.splits)
  then show ?case using Cons.IH [of fs0 r0 fs1] by auto
qed simp

lemma write_states_frame:
  assumes "resolves env" "write_states env partial ss fs = (r, fs1)" "\<forall>s \<in> set ss. fs (tmp_of (fst_path s)) \<noteq> Some Symlink"
    and "fs1 q \<noteq> fs q"
  shows "\<exists>s \<in> set ss. (q = fst_path s \<or> q = tmp_of (fst_path s)) \<and> verify_state env fs s = Inr s"
proof -
  obtain vs es where v: "collect_partial partial (verify_state env fs) ss = Inr (vs, es)"
    using assms(2,4) by (auto simp: write_states_def split: sum.splits)
  have sub: "s \<in> set ss \<and> verify_state env fs s = Inr s" if "s \<in> set vs" for s
  proof -
    obtain x where "x \<in> set ss" "verify_state env fs x = Inr s" using collect_partial_Inr(1) [OF v] \<open>s \<in> set vs\<close> by blast
    moreover then have "x = s" by (auto simp: verify_state_def split: sum.splits if_splits)
    ultimately show ?thesis by simp
  qed
  obtain r1 fs2 where w: "write_tmps env partial vs fs = (r1, fs2)" by fastforce
  have f2: "\<forall>q. q \<notin> (tmp_of \<circ> fst_path) ` set vs \<longrightarrow> fs2 q = fs q"
    using write_tmps_frame [OF assms(1) w] assms(3) sub by blast
  have "fs1 = fs2 \<or> (\<exists>r2. rename_tmps env partial vs fs2 = (r2, fs1))"
    using assms(2) v w by (auto simp: write_states_def split: sum.splits prod.splits)
  then have "q \<in> fst_path ` set vs \<union> (tmp_of \<circ> fst_path) ` set vs"
    using f2 rename_tmps_frame [of env partial vs fs2 _ fs1] assms(4) by auto
  then show ?thesis using sub by auto
qed

section \<open>What a call does\<close>

text \<open>A call that reaches the writing stage has read and edited what it writes.\<close>

definition read_and_edited :: "'h fe_env \<Rightarrow> operation list \<Rightarrow> string list \<Rightarrow> fs \<Rightarrow> file_state \<Rightarrow> bool" where
  "read_and_edited env ops files fs s \<longleftrightarrow> fst_path s \<in> set files \<and> read_state env fs (fst_path s) = Inr (s\<lparr>fst_mod := fst_orig s\<rparr>) \<and>
     edit_text ops (fst_orig s) = Inr (fst_mod s) \<and> fst_orig s \<noteq> fst_mod s"

lemma read_state_path: "read_state env fs p = Inr s \<Longrightarrow> fst_path s = p \<and> fst_mod s = fst_orig s"
  by (auto simp: read_state_def split: sum.splits fs_node.splits if_splits)

lemma read_state_os: "read_state env fs p = Inr s \<Longrightarrow> os_read (fe_read_err env) env fs p = Inr (fst_orig s)"
  by (auto simp: read_state_def split: sum.splits fs_node.splits if_splits)

lemma fileEdit_writes:
  assumes "fileEdit env matches p fs = (out, fs')" "fs' \<noteq> fs"
  obtains pending r where "\<forall>s \<in> set pending. read_and_edited env (fp_Operations p) (expandPaths matches (fp_Path p)) fs s"
    "\<not> fp_DryRun p" "write_states env (fp_AllowPartial p) pending (fe_between env fs) = (r, fs')"
    "out = (case r of Inl e \<Rightarrow> fail_outcome e | Inr es \<Rightarrow> out)"
proof -
  let ?files = "expandPaths matches (fp_Path p)" and ?ops = "fp_Operations p" and ?partial = "fp_AllowPartial p"
  obtain ss es ts es1 where st: "collect_partial ?partial (read_state env fs) ?files = Inr (ss, es)"
    "edit_states ?partial ?ops ss = Inr (ts, es1)" "\<not> fp_DryRun p"
    using assms by (auto simp: fileEdit_def Let_def split: if_splits option.splits sum.splits)
  obtain r fs1 where w: "write_states env ?partial (filter edited ts) (fe_between env fs) = (r, fs1)" by fastforce
  have r: "fs1 = fs'" "out = (case r of Inl e \<Rightarrow> fail_outcome e | Inr es \<Rightarrow> out)"
    using assms st w by (auto simp: fileEdit_def Let_def split: if_splits option.splits sum.splits)
  have ss: "\<forall>s \<in> set ss. fst_path s \<in> set ?files \<and> read_state env fs (fst_path s) = Inr s \<and> fst_mod s = fst_orig s"
    using collect_partial_Inr(1) [OF st(1)] read_state_path by metis
  have "read_and_edited env ?ops ?files fs t" if t: "t \<in> set (filter edited ts)" for t
  proof -
    obtain s where s: "s \<in> set ss" "edit_text ?ops (fst_orig s) = Inr (fst_mod t)" "fst_orig t = fst_orig s"
      "fst_path t = fst_path s" "fst_perm t = fst_perm s"
      using edit_states_Inr [OF st(2), of t] t ss by auto
    then have "s = t\<lparr>fst_mod := fst_orig t\<rparr>" using ss by (cases s; cases t) auto
    then show ?thesis using s ss t by (auto simp: read_and_edited_def edited_def)
  qed
  with that st(3) w r show thesis by blast
qed


section \<open>A call without failures\<close>

definition quiet :: "'h fe_env \<Rightarrow> bool" where
  "quiet env \<longleftrightarrow> resolves env \<and> (\<forall>p. fe_lstat_err env p = None \<and> fe_stat_err env p = None \<and> fe_read_err env p = None \<and>
     fe_verify_err env p = None \<and> fe_write_err env p = None \<and> fe_rename_err env p = None) \<and> (\<forall>fs. fe_between env fs = fs)"

definition new_node :: "'h fe_env \<Rightarrow> file_state \<Rightarrow> fs_node" where
  "new_node env s = Regular (fst_mod s) (fe_umask env (fst_perm s))"

lemma quiet_target: "quiet env \<Longrightarrow> fs p \<noteq> Some Symlink \<Longrightarrow> fe_target env fs p = p"
  by (simp add: quiet_def resolves_def)

lemma collect_partial_all: "\<forall>x \<in> set xs. f x = Inr (g x) \<Longrightarrow> collect_partial partial f xs = Inr (map g xs, [])"
  by (induction xs) auto

lemma edit_states_ok:
  "\<forall>s \<in> set ss. edit_text ops (fst_orig s) = Inr (g s) \<Longrightarrow> edit_states partial ops ss = Inr (map (\<lambda>s. s\<lparr>fst_mod := g s\<rparr>) ss, [])"
  by (induction ss) auto

lemma write_tmps_quiet:
  assumes "quiet env"
  shows "distinct (map fst_path ss) \<Longrightarrow> \<forall>s \<in> set ss. fs (tmp_of (fst_path s)) = None \<Longrightarrow>
    write_tmps env partial ss fs = (Inr [], fs ++ map_of (map (\<lambda>s. (tmp_of (fst_path s), new_node env s)) ss))"
proof (induction ss arbitrary: fs)
  case (Cons s ss)
  let ?t = "tmp_of (fst_path s)" and ?m = "map_of (map (\<lambda>s. (tmp_of (fst_path s), new_node env s)) ss)"
  have w: "os_write env fs ?t (fst_mod s) (fst_perm s) = (None, fs(?t \<mapsto> new_node env s))"
    using assms Cons.prems(2) quiet_target [OF assms, of fs ?t]
    by (simp add: os_write_def put_data_def new_node_def quiet_def)
  have "?m ?t = None" using Cons.prems(1) by (auto simp: map_of_eq_None_iff)
  then have eq: "fs(?t \<mapsto> new_node env s) ++ ?m = fs ++ ?m(?t \<mapsto> new_node env s)" by (auto simp: map_add_def split: option.splits)
  have n: "\<forall>s' \<in> set ss. (fs(?t \<mapsto> new_node env s)) (tmp_of (fst_path s')) = None"
    using Cons.prems by (auto intro: rev_image_eqI)
  have "write_tmps env partial ss (fs(?t \<mapsto> new_node env s)) = (Inr [], fs(?t \<mapsto> new_node env s) ++ ?m)"
    using Cons.IH [OF _ n] Cons.prems(1) by (simp del: fun_upd_apply)
  then show ?case using w eq by (simp del: fun_upd_apply)
qed simp

lemma rename_tmps_quiet:
  assumes "quiet env"
  shows "distinct (map fst_path ss) \<Longrightarrow> \<forall>s \<in> set ss. fs (tmp_of (fst_path s)) = Some (new_node env s) \<Longrightarrow>
    \<forall>s \<in> set ss. fs (fst_path s) \<noteq> Some Directory \<Longrightarrow> \<forall>s \<in> set ss. \<forall>s' \<in> set ss. tmp_of (fst_path s) \<noteq> fst_path s' \<Longrightarrow>
    rename_tmps env partial ss fs = (Inr [], \<lambda>q. if q \<in> (tmp_of \<circ> fst_path) ` set ss then None
      else (fs ++ map_of (map (\<lambda>s. (fst_path s, new_node env s)) ss)) q)"
proof (induction ss arbitrary: fs)
  case (Cons s ss)
  let ?t = "tmp_of (fst_path s)" and ?p = "fst_path s" and ?m = "map_of (map (\<lambda>s. (fst_path s, new_node env s)) ss)"
  let ?fs = "(fs(?t := None))(?p \<mapsto> new_node env s)"
  have t: "fs ?t = Some (new_node env s)" "fs ?p \<noteq> Some Directory" using Cons.prems by simp_all
  then have "os_stat env fs ?t = Inr (new_node env s)"
    using assms quiet_target [OF assms, of fs ?t] by (simp add: os_stat_def quiet_def new_node_def)
  moreover have "os_rename env fs ?t ?p = (None, ?fs)" using t assms by (simp add: os_rename_def quiet_def)
  ultimately have "rename_tmps env partial (s # ss) fs = rename_tmps env partial ss ?fs" by (simp add: Let_def)
  also have "\<dots> = (Inr [], \<lambda>q. if q \<in> (tmp_of \<circ> fst_path) ` set ss then None else (?fs ++ ?m) q)"
    using Cons.prems by (intro Cons.IH) (auto simp: new_node_def intro: rev_image_eqI)
  finally have eq: "rename_tmps env partial (s # ss) fs = \<dots>" .
  have "?m ?p = None" using Cons.prems(1) by (auto simp: map_of_eq_None_iff)
  moreover have "?m ?t = None" using Cons.prems(4) by (fastforce simp: map_of_eq_None_iff)
  ultimately have "(\<lambda>q. if q \<in> (tmp_of \<circ> fst_path) ` set ss then None else (?fs ++ ?m) q) =
    (\<lambda>q. if q \<in> (tmp_of \<circ> fst_path) ` set (s # ss) then None else (fs ++ map_of (map (\<lambda>s. (fst_path s, new_node env s)) (s # ss))) q)"
    by (auto simp: map_add_def fun_eq_iff split: option.splits)
  with eq show ?case by simp
qed simp

lemma write_states_quiet:
  assumes "quiet env" "distinct (map fst_path ss)"
    and "\<forall>s \<in> set ss. fs (tmp_of (fst_path s)) = None" "\<forall>s \<in> set ss. \<exists>m. fs (fst_path s) = Some (Regular (fst_orig s) m)"
  shows "write_states env partial ss fs = (Inr [], fs ++ map_of (map (\<lambda>s. (fst_path s, new_node env s)) ss))"
proof -
  let ?tm = "map_of (map (\<lambda>s. (tmp_of (fst_path s), new_node env s)) ss)"
  have v: "\<forall>s \<in> set ss. verify_state env fs s = Inr s"
    using assms(1,4) quiet_target [OF assms(1), of fs] by (fastforce simp: verify_state_def os_read_def quiet_def)
  have tp: "\<forall>s \<in> set ss. \<forall>s' \<in> set ss. tmp_of (fst_path s) \<noteq> fst_path s'" using assms(3,4) by (metis option.distinct(1))
  have d: "distinct (map (\<lambda>s. tmp_of (fst_path s)) ss)" using assms(2) by (auto simp: distinct_map inj_on_def)
  have tm: "?tm (tmp_of (fst_path s)) = Some (new_node env s)" if "s \<in> set ss" for s
    using that d by (intro map_of_is_SomeI) (auto simp: comp_def)
  have tn: "?tm (fst_path s) = None" if "s \<in> set ss" for s using that tp by (fastforce simp: map_of_eq_None_iff)
  have "rename_tmps env partial ss (fs ++ ?tm) = (Inr [], \<lambda>q. if q \<in> (tmp_of \<circ> fst_path) ` set ss then None
      else (fs ++ ?tm ++ map_of (map (\<lambda>s. (fst_path s, new_node env s)) ss)) q)"
    using assms(2,4) tm tn tp by (intro rename_tmps_quiet [OF assms(1)]) (auto simp: map_add_def)
  moreover have "(\<lambda>q. if q \<in> (tmp_of \<circ> fst_path) ` set ss then None
      else (fs ++ ?tm ++ map_of (map (\<lambda>s. (fst_path s, new_node env s)) ss)) q) =
      fs ++ map_of (map (\<lambda>s. (fst_path s, new_node env s)) ss)" (is "?l = ?r")
  proof
    fix q
    have "?tm q = None" if "q \<notin> (tmp_of \<circ> fst_path) ` set ss" using that by (auto simp: map_of_eq_None_iff)
    moreover have "map_of (map (\<lambda>s. (fst_path s, new_node env s)) ss) q = None" "fs q = None" if "q \<in> (tmp_of \<circ> fst_path) ` set ss"
      using that tp assms(3) by (fastforce simp: map_of_eq_None_iff)+
    ultimately show "?l q = ?r q" by (auto simp: map_add_def split: option.splits)
  qed
  ultimately show ?thesis
    using collect_partial_all [of ss "verify_state env fs" id] v write_tmps_quiet [OF assms(1-3)]
    by (simp add: write_states_def)
qed

definition edited_fs :: "'h fe_env \<Rightarrow> operation list \<Rightarrow> string list \<Rightarrow> fs \<Rightarrow> fs" where
  "edited_fs env ops files fs q =
     (case fs q of
        Some (Regular d m) \<Rightarrow>
          if q \<in> set files \<and> edit_text ops d \<noteq> Inr d
          then (case edit_text ops d of Inr d' \<Rightarrow> Some (Regular d' (fe_umask env m)) | Inl _ \<Rightarrow> fs q) else fs q
      | _ \<Rightarrow> fs q)"

lemma expandPaths_distinct [simp]: "distinct (expandPaths matches ps)"
  by (simp add: expandPaths_def)

lemma bad_operation_None: "bad_operation i ops = None \<longleftrightarrow> list_all operation_valid ops"
  by (induction ops arbitrary: i) auto

lemma read_state_quiet:
  "quiet env \<Longrightarrow> fs p = Some (Regular d m) \<Longrightarrow> length d \<le> maxFileSize \<Longrightarrow>
    read_state env fs p = Inr \<lparr>fst_path = p, fst_perm = m, fst_orig = d, fst_mod = d\<rparr>"
  using quiet_target [of env fs p] by (simp add: read_state_def os_lstat_def os_stat_def os_read_def quiet_def)


section \<open>Examples and a failed write\<close>

definition quiet_env :: "string fe_env" where
  "quiet_env = \<lparr>fe_lstat_err = (\<lambda>p. None), fe_stat_err = (\<lambda>p. None), fe_read_err = (\<lambda>p. None), fe_between = (\<lambda>fs. fs),
     fe_verify_err = (\<lambda>p. None), fe_write_err = (\<lambda>p. None), fe_rename_err = (\<lambda>p. None), fe_remove_err = (\<lambda>p. False),
     fe_umask = (\<lambda>m. m), fe_target = (\<lambda>fs p. p), fe_sha = (\<lambda>d. d)\<rparr>"

lemma quiet_quiet_env: "quiet quiet_env"
  by (simp add: quiet_def quiet_env_def resolves_def)

definition demo_params :: file_edit_params where
  "demo_params = \<lparr>fp_Path = [''f''], fp_DryRun = False, fp_AllowPartial = False, fp_Operations = demo_ops\<rparr>"

definition demo_content :: string where
  "demo_content = ''a'' @ NL # ''b'' @ [NL]"

lemma demo_expand: "expandPaths (\<lambda>q. [q]) [f] = [f]"
  by (simp add: expandPaths_def)

lemma demo_edit: "edit_text demo_ops demo_content = Inr (''i'' @ NL # ''a'' @ NL # ''z'')"
  by code_simp

lemma demo_ops_valid: "list_all operation_valid demo_ops" "demo_ops \<noteq> []"
  by code_simp+

lemma demo_size: "length demo_content \<le> maxFileSize"
  by (simp add: demo_content_def maxFileSize_def)



text \<open>
  C38. With allow_partial, a write that fails after it stored part of the data is reported as failed,
  yet the file is replaced by that part: the loop that renames asks only whether the temporary
  file exists.
\<close>

theorem failed_write_truncates:
  assumes "fs f = Some (Regular d m)" "fs (tmp_of f) = None" "length d \<le> maxFileSize" "edit_text ops d = Inr new" "new \<noteq> d"
    and "ops \<noteq> []" "list_all operation_valid ops"
  shows "fileEdit (quiet_env\<lparr>fe_write_err := (\<lambda>q. Some (e, Some n))\<rparr>) (\<lambda>q. [q])
      \<lparr>fp_Path = [f], fp_DryRun = False, fp_AllowPartial = True, fp_Operations = ops\<rparr> fs =
    (EditDone [(f, d, new)] [WriteFailed f e], fs(f \<mapsto> Regular (take n new) m))"
proof -
  have b: "bad_operation 0 ops = None" using assms(7) by (simp add: bad_operation_None)
  have "d \<noteq> new" "\<not> maxFileSize < length d" "(fs(tmp_of f := None))(f \<mapsto> Regular (take n new) m) = fs(f \<mapsto> Regular (take n new) m)"
    using assms(2,3,5) by auto
  then show ?thesis using assms b
    by (simp add: fileEdit_def demo_expand Let_def read_state_def os_lstat_def os_stat_def os_read_def quiet_env_def
        edited_def show_diff_def write_states_def verify_state_def os_write_def put_data_def os_rename_def)
qed

theorem failed_write_truncates_witness:
  "fileEdit (quiet_env\<lparr>fe_write_err := (\<lambda>q. Some (''disk full'', Some 0))\<rparr>) (\<lambda>q. [q]) (demo_params\<lparr>fp_AllowPartial := True\<rparr>)
      [''f'' \<mapsto> Regular demo_content 420] =
    (EditDone [(''f'', demo_content, ''i'' @ NL # ''a'' @ NL # ''z'')] [WriteFailed ''f'' ''disk full''], [''f'' \<mapsto> Regular [] 420])"
proof -
  have "demo_content \<noteq> ''i'' @ NL # ''a'' @ NL # ''z''" by code_simp
  then show ?thesis
    using failed_write_truncates [of "[''f'' \<mapsto> Regular demo_content 420]" "''f''" demo_content 420 demo_ops _ "''disk full''" 0]
      demo_ops_valid demo_size demo_edit
    by (simp add: demo_params_def tmp_of_def)
qed

end
