(* ===== verification/Trigger_Rules.thy ===== *)
theory Trigger_Rules
  imports Workflow_Value
begin

text \<open>
  Trigger rules and their matchers (\<^verbatim>\<open>src/trigger/types.go\<close>, \<^verbatim>\<open>matcher.go\<close>). \<^verbatim>\<open>filepath.Match\<close> is the
  algorithm of the Go library on ASCII text: the pattern split at its stars into chunks, each matched
  at the first position a star may skip to.
\<close>

section \<open>Events and rules\<close>

record trig_event =
  te_ID :: string
  te_Type :: string
  te_SourceID :: string
  te_Subject :: string
  te_At :: time
  te_Data :: "(string \<times> go_value) list"
  te_CorrelationID :: string
  te_CausedByRunID :: string
  te_CausedBySessionID :: string

definition no_trig_event :: trig_event where
  "no_trig_event = \<lparr>te_ID = [], te_Type = [], te_SourceID = [], te_Subject = [], te_At = zero_time, te_Data = [],
     te_CorrelationID = [], te_CausedByRunID = [], te_CausedBySessionID = []\<rparr>"

datatype matcher =
    MatchAll
  | EventTypeIs string
  | SourceIs string
  | SubjectGlob string
  | AllOf "matcher option list"
  | AnyOf "matcher option list"

text \<open>A source as the scheduler sees it: its identifier and, if it has the method, its event type.\<close>

record trig_source =
  ts_ID :: string
  ts_EventType :: "string option"

record trig_target =
  tg_Kind :: string
  tg_WorkflowName :: string
  tg_AgentName :: string
  tg_Prompt :: string
  tg_ActionName :: string
  tg_Input :: go_value
  tg_IncludeEvent :: bool

record session_policy =
  sp_Mode :: string
  sp_Name :: string
  sp_AgentName :: string

record job_policy =
  jp_Overlap :: string
  jp_Timeout :: int

record trig_rule =
  ru_ID :: string
  ru_Source :: "trig_source option"
  ru_Matcher :: "matcher option"
  ru_Target :: trig_target
  ru_Session :: session_policy
  ru_Policy :: job_policy

definition Target_Name :: "trig_target \<Rightarrow> string" where
  "Target_Name t =
     (if tg_Kind t = ''workflow'' then tg_WorkflowName t
      else if tg_Kind t = ''agent_prompt'' then tg_AgentName t
      else if tg_Kind t = ''action'' then tg_ActionName t else [])"

definition OverlapSkipIfRunning :: string where
  "OverlapSkipIfRunning = ''skip_if_running''"

definition Rule_Normalized :: "trig_rule \<Rightarrow> trig_rule" where
  "Rule_Normalized r =
     (let r1 = (if ru_Matcher r = None then r\<lparr>ru_Matcher := Some MatchAll\<rparr> else r);
          r2 = (if jp_Overlap (ru_Policy r1) = [] then r1\<lparr>ru_Policy := (ru_Policy r1)\<lparr>jp_Overlap := OverlapSkipIfRunning\<rparr>\<rparr> else r1)
      in if sp_Mode (ru_Session r2) = [] then r2\<lparr>ru_Session := (ru_Session r2)\<lparr>sp_Mode := ''trigger_owned''\<rparr>\<rparr> else r2)"

definition Rule_EventType :: "trig_rule \<Rightarrow> string" where
  "Rule_EventType r = (case ru_Source r of Some s \<Rightarrow> (case ts_EventType s of Some t \<Rightarrow> t | None \<Rightarrow> []) | None \<Rightarrow> [])"

section \<open>Globs\<close>

datatype glob_tok = GLit char | GOne | GClass bool "(char \<times> char) list"

text \<open>\<^verbatim>\<open>getEsc\<close>: a character of a class, and what follows; the class must not end with it.\<close>

definition get_esc :: "string \<Rightarrow> (char \<times> string) option" where
  "get_esc s =
     (case s of
        [] \<Rightarrow> None
      | c # s1 \<Rightarrow>
          if c = CHR ''-'' \<or> c = CHR '']'' then None
          else (case (if c = CHR 0x5C then s1 else s) of
                  [] \<Rightarrow> None
                | d # s2 \<Rightarrow> if s2 = [] then None else Some (d, s2)))"

definition class_range :: "string \<Rightarrow> ((char \<times> char) \<times> string) option" where
  "class_range s =
     (case get_esc s of
        None \<Rightarrow> None
      | Some (lo, s1) \<Rightarrow>
          (case s1 of
             c # s2 \<Rightarrow> if c = CHR ''-'' then map_option (\<lambda>(hi, s3). ((lo, hi), s3)) (get_esc s2) else Some ((lo, lo), s1)
           | [] \<Rightarrow> Some ((lo, lo), s1)))"

lemma get_esc_less: "get_esc s = Some (c, t) \<Longrightarrow> length t < length s"
  by (auto simp: get_esc_def split: list.splits if_splits)

lemma class_range_less: "class_range s = Some (r, t) \<Longrightarrow> length t < length s"
  by (auto simp: class_range_def split: option.splits list.splits if_splits dest!: get_esc_less)

text \<open>The ranges of a class: at least one before the closing bracket.\<close>

function class_ranges :: "string \<Rightarrow> bool \<Rightarrow> ((char \<times> char) list \<times> string) option" where
  "class_ranges s some =
     (if some \<and> HasPrefix s '']'' then Some ([], drop 1 s)
      else case class_range s of
        None \<Rightarrow> None
      | Some (r, t) \<Rightarrow> map_option (\<lambda>(rs, u). (r # rs, u)) (class_ranges t True))"
  by auto
termination
  by (relation "measure (\<lambda>(s, some). length s)") (auto simp: class_range_less)

declare class_ranges.simps [simp del]

lemma class_ranges_le: "class_ranges s some = Some (rs, t) \<Longrightarrow> length t \<le> length s"
proof (induction s some arbitrary: rs rule: class_ranges.induct)
  case (1 s some)
  show ?case
  proof (cases "some \<and> HasPrefix s '']''")
    case False
    then obtain r u rs' where "class_range s = Some (r, u)" "class_ranges u True = Some (rs', t)"
      using 1(2) by (subst (asm) class_ranges.simps) (auto split: option.splits)
    then show ?thesis using 1(1) [OF False, of "(r, u)" r u rs'] class_range_less [of s r u] by simp
  qed (use 1(2) in \<open>auto simp: class_ranges.simps\<close>)
qed

text \<open>
  The chunks of a pattern: whether stars stand before the chunk, and its tokens. \<^term>\<open>None\<close> is the error of a
  malformed pattern, which is reported whether or not the name matches.
\<close>

definition add_tok :: "glob_tok \<Rightarrow> (bool \<times> glob_tok list) list \<Rightarrow> (bool \<times> glob_tok list) list" where
  "add_tok t cs = (case cs of (False, ts) # cs' \<Rightarrow> (False, t # ts) # cs' | _ \<Rightarrow> (False, [t]) # cs)"

definition add_star :: "(bool \<times> glob_tok list) list \<Rightarrow> (bool \<times> glob_tok list) list" where
  "add_star cs = (case cs of (False, ts) # cs' \<Rightarrow> (True, ts) # cs' | (True, ts) # cs' \<Rightarrow> cs | [] \<Rightarrow> [(True, [])])"

function glob_chunks :: "string \<Rightarrow> (bool \<times> glob_tok list) list option" where
  "glob_chunks [] = Some []"
| "glob_chunks (c # s) =
     (if c = CHR ''*'' then map_option add_star (glob_chunks s)
      else if c = CHR ''?'' then map_option (add_tok GOne) (glob_chunks s)
      else if c = CHR 0x5C then
        (case s of [] \<Rightarrow> None | d # s1 \<Rightarrow> map_option (add_tok (GLit d)) (glob_chunks s1))
      else if c = CHR ''['' then
        (let neg = HasPrefix s ''^'' in
         case class_ranges (if neg then drop 1 s else s) False of
           None \<Rightarrow> None
         | Some (rs, t) \<Rightarrow> map_option (add_tok (GClass neg rs)) (glob_chunks t))
      else map_option (add_tok (GLit c)) (glob_chunks s))"
  by pat_completeness auto
termination
  by (relation "measure length") (auto simp: Let_def le_imp_less_Suc split: if_splits dest!: class_ranges_le)

fun tok_match :: "glob_tok \<Rightarrow> char \<Rightarrow> bool" where
  "tok_match (GLit d) c = (c = d)"
| "tok_match GOne c = (c \<noteq> CHR ''/'')"
| "tok_match (GClass neg rs) c = ((\<exists>r \<in> set rs. fst r \<le> c \<and> c \<le> snd r) \<noteq> neg)"

fun match_chunk :: "glob_tok list \<Rightarrow> string \<Rightarrow> string option" where
  "match_chunk [] s = Some s"
| "match_chunk (t # ts) [] = None"
| "match_chunk (t # ts) (c # s) = (if tok_match t c then match_chunk ts s else None)"

fun skip_match :: "glob_tok list \<Rightarrow> bool \<Rightarrow> string \<Rightarrow> string option" where
  "skip_match ch final [] = None"
| "skip_match ch final (c # s) =
     (if c = CHR ''/'' then None
      else case match_chunk ch s of
        Some t \<Rightarrow> if final \<and> t \<noteq> [] then skip_match ch final s else Some t
      | None \<Rightarrow> skip_match ch final s)"

fun match_chunks :: "(bool \<times> glob_tok list) list \<Rightarrow> string \<Rightarrow> bool" where
  "match_chunks [] name = (name = [])"
| "match_chunks ((star, ch) # cs) name =
     (if star \<and> ch = [] then CHR ''/'' \<notin> set name
      else
        let skipped = (if star then (case skip_match ch (cs = []) name of Some t \<Rightarrow> match_chunks cs t | None \<Rightarrow> False) else False) in
        case match_chunk ch name of
          Some t \<Rightarrow> if t = [] \<or> cs \<noteq> [] then match_chunks cs t else skipped
        | None \<Rightarrow> skipped)"

definition filepath_Match :: "string \<Rightarrow> string \<Rightarrow> (string, bool) result" where
  "filepath_Match pattern name =
     (case glob_chunks pattern of None \<Rightarrow> Inl ''syntax error in pattern'' | Some cs \<Rightarrow> Inr (match_chunks cs name))"

section \<open>Matching\<close>

fun Match :: "matcher \<Rightarrow> trig_event \<Rightarrow> (string, bool) result"
  and Match_all :: "matcher option list \<Rightarrow> trig_event \<Rightarrow> (string, bool) result"
  and Match_any :: "matcher option list \<Rightarrow> trig_event \<Rightarrow> (string, bool) result" where
  "Match MatchAll e = Inr True"
| "Match (EventTypeIs t) e = Inr (te_Type e = t)"
| "Match (SourceIs i) e = Inr (te_SourceID e = i)"
| "Match (SubjectGlob g) e = (if TrimSpace g = [] then Inr True else filepath_Match g (te_Subject e))"
| "Match (AllOf ms) e = Match_all ms e"
| "Match (AnyOf ms) e = Match_any ms e"
| "Match_all [] e = Inr True"
| "Match_all (None # ms) e = Match_all ms e"
| "Match_all (Some m # ms) e = (case Match m e of Inr True \<Rightarrow> Match_all ms e | r \<Rightarrow> r)"
| "Match_any [] e = Inr False"
| "Match_any (None # ms) e = Match_any ms e"
| "Match_any (Some m # ms) e = (case Match m e of Inr False \<Rightarrow> Match_any ms e | r \<Rightarrow> r)"

lemma Match_all_True:
  "Match_all ms e = Inr True \<longleftrightarrow> (\<forall>m. Some m \<in> set ms \<longrightarrow> Match m e = Inr True)"
proof (induction ms)
  case (Cons m ms)
  then show ?case by (cases m) (auto split: sum.splits bool.splits)
qed simp

lemma Match_any_False:
  "Match_any ms e = Inr False \<longleftrightarrow> (\<forall>m. Some m \<in> set ms \<longrightarrow> Match m e = Inr False)"
proof (induction ms)
  case (Cons m ms)
  then show ?case by (cases m) (auto split: sum.splits bool.splits)
qed simp

text \<open>A pattern without special characters matches exactly itself.\<close>

lemma glob_literal:
  assumes "\<forall>c \<in> set p. c \<notin> {CHR ''*'', CHR ''?'', CHR 0x5C, CHR ''[''}"
  shows "filepath_Match p name = Inr (name = p)"
proof -
  have ch: "glob_chunks p = Some (if p = [] then [] else [(False, map GLit p)])"
    using assms by (induction p) (auto simp: add_tok_def)
  have m: "match_chunk (map GLit q) s = (if \<exists>t. s = q @ t then Some (drop (length q) s) else None)" for q s
    by (induction q arbitrary: s) (simp, case_tac s, auto)
  show ?thesis using ch m [of p name] by (auto simp: filepath_Match_def)
qed

end
