(* ===== verification/Trigger_Scheduler.thy ===== *)
theory Trigger_Scheduler
  imports Trigger_Rules
begin

text \<open>
  The trigger scheduler (\<^verbatim>\<open>src/trigger/scheduler.go\<close>) as interleaved goroutines. The shared state has the
  jobs in a heap, the map from rule identifiers to them, and the subscribers' channels. A goroutine is
  the point it has reached: one step of it is one critical section, one channel operation or one
  spawn, and every order of the steps of all goroutines is a run. What a step does not decide - the
  event a source emits, what the executor returns, the clock, whether a receiver waits - is its input.
\<close>

section \<open>State\<close>

datatype job_status = JobStarting | JobActive | JobRunning | JobSkipped | JobStopped | JobFailed

datatype job_event_type =
  JobEventStarted | JobEventMatched | JobEventSkipped | JobEventCompleted | JobEventFailed | JobEventStopped

record exec_result =
  er_TargetKind :: string
  er_TargetName :: string
  er_SessionName :: string
  er_SessionID :: string
  er_WorkflowRunID :: string
  er_Output :: go_value

definition no_exec_result :: exec_result where
  "no_exec_result = \<lparr>er_TargetKind = [], er_TargetName = [], er_SessionName = [], er_SessionID = [], er_WorkflowRunID = [],
     er_Output = VNil\<rparr>"

record job_event =
  je_Type :: job_event_type
  je_RuleID :: string
  je_Event :: trig_event
  je_Status :: job_status
  je_Result :: exec_result
  je_Error :: string
  je_At :: time

record job =
  jb_rule :: trig_rule
  jb_canceled :: bool
  jb_status :: job_status
  jb_running :: bool
  jb_last :: trig_event
  jb_lastFire :: time
  jb_lastErr :: string
  jb_lastRes :: exec_result
  jb_matched :: nat
  jb_skipped :: nat

record job_summary =
  js_RuleID :: string
  js_SourceID :: string
  js_EventType :: string
  js_TargetKind :: string
  js_TargetName :: string
  js_SessionMode :: string
  js_SessionName :: string
  js_Status :: job_status
  js_Running :: bool
  js_LastEventID :: string
  js_LastFire :: time
  js_LastError :: string
  js_LastWorkflowRun :: string
  js_Matched :: nat
  js_Skipped :: nat

text \<open>A channel: its capacity, what it holds, what its receiver got, and whether it is closed.\<close>

record channel =
  ch_buffer :: nat
  ch_queue :: "job_event list"
  ch_received :: "job_event list"
  ch_closed :: bool

record scheduler =
  sc_executor :: bool
  sc_jobs :: "(string, nat) fmap"
  sc_heap :: "job list"
  sc_events :: "nat list"
  sc_chans :: "channel list"
  sc_panic :: bool

definition NewScheduler :: "bool \<Rightarrow> scheduler" where
  "NewScheduler executor =
     \<lparr>sc_executor = executor, sc_jobs = fmempty, sc_heap = [], sc_events = [], sc_chans = [], sc_panic = False\<rparr>"

section \<open>Jobs\<close>

definition new_job :: "trig_rule \<Rightarrow> bool \<Rightarrow> job" where
  "new_job r canceled = \<lparr>jb_rule = r, jb_canceled = canceled, jb_status = JobStarting, jb_running = False,
     jb_last = no_trig_event, jb_lastFire = zero_time, jb_lastErr = [], jb_lastRes = no_exec_result, jb_matched = 0, jb_skipped = 0\<rparr>"

definition tryStartRun :: "trig_event \<Rightarrow> job \<Rightarrow> bool \<times> job" where
  "tryStartRun e j =
     (if jb_running j \<and> jp_Overlap (ru_Policy (jb_rule j)) = OverlapSkipIfRunning then
        (False, j\<lparr>jb_skipped := jb_skipped j + 1, jb_status := JobSkipped, jb_last := e, jb_lastFire := te_At e\<rparr>)
      else
        (True, j\<lparr>jb_running := True, jb_status := JobRunning, jb_last := e, jb_lastFire := te_At e, jb_matched := jb_matched j + 1\<rparr>))"

definition finishRun :: "job \<Rightarrow> job" where
  "finishRun j = (let j1 = j\<lparr>jb_running := False\<rparr> in if jb_status j1 \<noteq> JobFailed then j1\<lparr>jb_status := JobActive\<rparr> else j1)"

definition setStatus :: "job_status \<Rightarrow> job \<Rightarrow> job" where
  "setStatus s j = j\<lparr>jb_status := s\<rparr>"

definition setError :: "string \<Rightarrow> job \<Rightarrow> job" where
  "setError err j = j\<lparr>jb_status := JobFailed, jb_lastErr := err\<rparr>"

definition setResult :: "exec_result \<Rightarrow> job \<Rightarrow> job" where
  "setResult r j = j\<lparr>jb_lastRes := r, jb_lastErr := []\<rparr>"

definition job_summary_of :: "job \<Rightarrow> job_summary" where
  "job_summary_of j = (let r = jb_rule j in
     \<lparr>js_RuleID = ru_ID r, js_SourceID = (case ru_Source r of Some s \<Rightarrow> ts_ID s | None \<Rightarrow> []), js_EventType = Rule_EventType r,
      js_TargetKind = tg_Kind (ru_Target r), js_TargetName = Target_Name (ru_Target r), js_SessionMode = sp_Mode (ru_Session r),
      js_SessionName = sp_Name (ru_Session r), js_Status = jb_status j, js_Running = jb_running j, js_LastEventID = te_ID (jb_last j),
      js_LastFire = jb_lastFire j, js_LastError = jb_lastErr j, js_LastWorkflowRun = er_WorkflowRunID (jb_lastRes j),
      js_Matched = jb_matched j, js_Skipped = jb_skipped j\<rparr>)"

text \<open>\<^verbatim>\<open>Scheduler.Jobs\<close> lists the jobs of the map; their order is that of a Go map, here that of the keys.\<close>

definition Scheduler_Jobs :: "scheduler \<Rightarrow> job_summary list" where
  "Scheduler_Jobs s =
     map (\<lambda>i. job_summary_of (sc_heap s ! the (fmlookup (sc_jobs s) i))) (sorted_list_of_set (fset (fmdom (sc_jobs s))))"

section \<open>Goroutines\<close>

datatype sched_error = ExecutorRequired | RuleIDRequired | SourceRequired string | JobExists string | JobNotFound string

text \<open>The points a goroutine can be at. A publish goes on with the point that follows it.\<close>

datatype pc =
    Returned "sched_error option"
  | Adding trig_rule bool
  | SpawnSource nat
  | Sourcing nat
  | SourceRuns nat
  | SourceFails nat string
  | Handling nat trig_event
  | MatchFails nat trig_event string
  | Starting nat trig_event
  | SpawnRun nat trig_event
  | Executing nat trig_event
  | RunFails nat trig_event string
  | RunReturns nat trig_event exec_result
  | Finishing nat
  | Stopping string
  | Canceling nat string
  | MarkStopped nat string
  | Publishing job_event pc
  | Sending job_event "nat list" pc
  | Subscribing int
  | Unsubscribing nat

datatype input =
    Tau
  | Emits trig_event
  | SourceReturns "string option"
  | Executed "(string, exec_result) result"
  | Clock time
  | Receiver bool

definition on_job :: "nat \<Rightarrow> (job \<Rightarrow> job) \<Rightarrow> scheduler \<Rightarrow> scheduler" where
  "on_job j f s = s\<lparr>sc_heap := (sc_heap s)[j := f (sc_heap s ! j)]\<rparr>"

definition job_ev :: "job_event_type \<Rightarrow> string \<Rightarrow> trig_event \<Rightarrow> job_status \<Rightarrow> exec_result \<Rightarrow> string \<Rightarrow> job_event" where
  "job_ev t i e st r err = \<lparr>je_Type = t, je_RuleID = i, je_Event = e, je_Status = st, je_Result = r, je_Error = err, je_At = zero_time\<rparr>"

text \<open>A send that does not block: on a closed channel it panics.\<close>

definition try_send :: "job_event \<Rightarrow> bool \<Rightarrow> channel \<Rightarrow> channel" where
  "try_send ev waiting c =
     (if waiting \<and> ch_queue c = [] then c\<lparr>ch_received := ch_received c @ [ev]\<rparr>
      else if length (ch_queue c) < ch_buffer c then c\<lparr>ch_queue := ch_queue c @ [ev]\<rparr>
      else c)"

definition job_id :: "scheduler \<Rightarrow> nat \<Rightarrow> string" where
  "job_id s j = ru_ID (jb_rule (sc_heap s ! j))"

text \<open>\<^verbatim>\<open>AddRule\<close> up to the critical section that stores the job.\<close>

definition add_rule :: "trig_rule \<Rightarrow> bool \<Rightarrow> scheduler \<Rightarrow> scheduler \<times> pc" where
  "add_rule rule0 canceled s =
     (let rule = Rule_Normalized rule0 in
      if \<not> sc_executor s then (s, Returned (Some ExecutorRequired))
      else if ru_ID rule = [] then (s, Returned (Some RuleIDRequired))
      else if ru_Source rule = None then (s, Returned (Some (SourceRequired (ru_ID rule))))
      else if fmlookup (sc_jobs s) (ru_ID rule) \<noteq> None then (s, Returned (Some (JobExists (ru_ID rule))))
      else
        let j = length (sc_heap s) in
        (s\<lparr>sc_heap := sc_heap s @ [new_job rule canceled], sc_jobs := fmupd (ru_ID rule) j (sc_jobs s)\<rparr>,
         Publishing (job_ev JobEventStarted (ru_ID rule) no_trig_event JobActive no_exec_result []) (SpawnSource j)))"

text \<open>One step of a goroutine: the shared state, its next point and the goroutines it starts.\<close>

definition tau :: "input \<Rightarrow> 'a option \<Rightarrow> 'a option" where
  "tau a r = (if a = Tau then r else None)"

fun goroutine :: "input \<Rightarrow> pc \<Rightarrow> scheduler \<Rightarrow> (scheduler \<times> pc \<times> pc list) option" where
  "goroutine a (Adding r canceled) s =
     tau a (case add_rule r canceled s of (s', p) \<Rightarrow> Some (s', p, []))"
| "goroutine a (SpawnSource j) s =
     tau a (Some (s, Returned None, [Sourcing j]))"
| "goroutine a (Sourcing j) s =
     tau a (Some (on_job j (setStatus JobActive) s, SourceRuns j, []))"
| "goroutine a (SourceRuns j) s =
     (case a of
        Emits e \<Rightarrow> Some (s, SourceRuns j, [Handling j e])
      | SourceReturns r \<Rightarrow>
          (case r of
        None \<Rightarrow> Some (s, Returned None, [])
      | Some err \<Rightarrow> if jb_canceled (sc_heap s ! j) then Some (s, Returned None, []) else Some (s, SourceFails j err, []))
      | _ \<Rightarrow> None)"
| "goroutine a (SourceFails j err) s =
     tau a
       (Some (on_job j (setError err) s,
       Publishing (job_ev JobEventFailed (job_id s j) no_trig_event JobFailed no_exec_result err) (Returned None), []))"
| "goroutine a (Handling j e) s =
     tau a
       ((case ru_Matcher (jb_rule (sc_heap s ! j)) of
        None \<Rightarrow> None
      | Some m \<Rightarrow>
          (case Match m e of
             Inl err \<Rightarrow> Some (s, MatchFails j e err, [])
           | Inr False \<Rightarrow> Some (s, Returned None, [])
           | Inr True \<Rightarrow> Some (s, Starting j e, []))))"
| "goroutine a (MatchFails j e err) s =
     tau a
       (Some (on_job j (setError err) s,
       Publishing (job_ev JobEventFailed (job_id s j) e JobFailed no_exec_result err) (Returned None), []))"
| "goroutine a (Starting j e) s =
     tau a
       ((case tryStartRun e (sc_heap s ! j) of
        (True, jb) \<Rightarrow>
          Some (on_job j (\<lambda>_. jb) s, Publishing (job_ev JobEventMatched (job_id s j) e JobRunning no_exec_result []) (SpawnRun j e), [])
      | (False, jb) \<Rightarrow>
          Some (on_job j (\<lambda>_. jb) s, Publishing (job_ev JobEventSkipped (job_id s j) e JobSkipped no_exec_result []) (Returned None), [])))"
| "goroutine a (SpawnRun j e) s =
     tau a (Some (s, Returned None, [Executing j e]))"
| "goroutine a (Executing j e) s =
     (case a of
        Executed r \<Rightarrow> (case r of Inl err \<Rightarrow> Some (s, RunFails j e err, []) | Inr res \<Rightarrow> Some (s, RunReturns j e res, []))
      | _ \<Rightarrow> None)"
| "goroutine a (RunFails j e err) s =
     tau a
       (Some (on_job j (setError err) s,
       Publishing (job_ev JobEventFailed (job_id s j) e JobFailed no_exec_result err) (Finishing j), []))"
| "goroutine a (RunReturns j e res) s =
     tau a
       (Some (on_job j (setResult res) s,
       Publishing (job_ev JobEventCompleted (job_id s j) e JobActive res []) (Finishing j), []))"
| "goroutine a (Finishing j) s =
     tau a (Some (on_job j finishRun s, Returned None, []))"
| "goroutine a (Stopping i) s =
     tau a
       ((case fmlookup (sc_jobs s) i of
        None \<Rightarrow> Some (s, Returned (Some (JobNotFound i)), [])
      | Some j \<Rightarrow> Some (s\<lparr>sc_jobs := fmdrop i (sc_jobs s)\<rparr>, Canceling j i, [])))"
| "goroutine a (Canceling j i) s =
     tau a (Some (on_job j (\<lambda>jb. jb\<lparr>jb_canceled := True\<rparr>) s, MarkStopped j i, []))"
| "goroutine a (MarkStopped j i) s =
     tau a
       (Some (on_job j (setStatus JobStopped) s,
       Publishing (job_ev JobEventStopped i no_trig_event JobStopped no_exec_result []) (Returned None), []))"
| "goroutine a (Publishing ev k) s =
     (case a of
        Clock t \<Rightarrow> Some (s, Sending (if je_At ev = zero_time then ev\<lparr>je_At := t\<rparr> else ev) (sc_events s) k, [])
      | _ \<Rightarrow> None)"
| "goroutine a (Sending ev [] k) s =
     tau a (Some (s, k, []))"
| "goroutine a (Sending ev (c # cs) k) s =
     (case a of
        Receiver w \<Rightarrow> (if ch_closed (sc_chans s ! c) then Some (s\<lparr>sc_panic := True\<rparr>, Returned None, [])
      else Some (s\<lparr>sc_chans := (sc_chans s)[c := try_send ev w (sc_chans s ! c)]\<rparr>, Sending ev cs k, []))
      | _ \<Rightarrow> None)"
| "goroutine a (Subscribing n) s =
     tau a
       (Some (s\<lparr>sc_chans := sc_chans s @ [\<lparr>ch_buffer = nat n, ch_queue = [], ch_received = [], ch_closed = False\<rparr>],
        sc_events := sc_events s @ [length (sc_chans s)]\<rparr>, Returned None, []))"
| "goroutine a (Unsubscribing c) s =
     tau a
       ((if c \<in> set (sc_events s) then
        Some (s\<lparr>sc_events := remove1 c (sc_events s), sc_chans := (sc_chans s)[c := (sc_chans s ! c)\<lparr>ch_closed := True\<rparr>]\<rparr>,
          Returned None, [])
      else Some (s, Returned None, [])))"
| "goroutine a (Returned e) s = None"

text \<open>The calls a client can make.\<close>

fun client_call :: "pc \<Rightarrow> bool" where
  "client_call (Adding r canceled) = True"
| "client_call (Stopping i) = True"
| "client_call (Subscribing n) = True"
| "client_call (Unsubscribing c) = True"
| "client_call _ = False"

type_synonym sched_state = "scheduler \<times> pc list"

definition sched_exec :: "nat \<Rightarrow> input \<Rightarrow> sched_state \<Rightarrow> sched_state option" where
  "sched_exec i a st =
     (case st of (s, ps) \<Rightarrow>
        if sc_panic s \<or> length ps \<le> i then None
        else (case goroutine a (ps ! i) s of None \<Rightarrow> None | Some (s', p, qs) \<Rightarrow> Some (s', ps[i := p] @ qs)))"

inductive sched_step :: "sched_state \<Rightarrow> sched_state \<Rightarrow> bool" where
  Call: "client_call p \<Longrightarrow> \<not> sc_panic s \<Longrightarrow> sched_step (s, ps) (s, ps @ [p])"
| Go: "sched_exec i a st = Some st' \<Longrightarrow> sched_step st st'"
| Receive: "c < length (sc_chans s) \<Longrightarrow> ch_queue (sc_chans s ! c) = ev # q \<Longrightarrow> \<not> sc_panic s \<Longrightarrow>
    sched_step (s, ps) (s\<lparr>sc_chans := (sc_chans s)[c := (sc_chans s ! c)\<lparr>ch_queue := q, ch_received := ch_received (sc_chans s ! c) @ [ev]\<rparr>]\<rparr>, ps)"

inductive sched_reachable :: "sched_state \<Rightarrow> bool" where
  Init: "sched_reachable (NewScheduler executor, [])"
| Step: "sched_reachable st \<Longrightarrow> sched_step st st' \<Longrightarrow> sched_reachable st'"

section \<open>Runs do not overlap\<close>

fun pc_job :: "pc \<Rightarrow> nat option" where
  "pc_job (SpawnSource j) = Some j"
| "pc_job (Sourcing j) = Some j"
| "pc_job (SourceRuns j) = Some j"
| "pc_job (SourceFails j err) = Some j"
| "pc_job (Handling j e) = Some j"
| "pc_job (MatchFails j e err) = Some j"
| "pc_job (Starting j e) = Some j"
| "pc_job (SpawnRun j e) = Some j"
| "pc_job (Executing j e) = Some j"
| "pc_job (RunFails j e err) = Some j"
| "pc_job (RunReturns j e res) = Some j"
| "pc_job (Finishing j) = Some j"
| "pc_job (Canceling j i) = Some j"
| "pc_job (MarkStopped j i) = Some j"
| "pc_job (Publishing ev k) = pc_job k"
| "pc_job (Sending ev cs k) = pc_job k"
| "pc_job _ = None"

text \<open>The job a goroutine runs: from the start of the run that was admitted to its end.\<close>

fun run_job :: "pc \<Rightarrow> nat option" where
  "run_job (SpawnRun j e) = Some j"
| "run_job (Executing j e) = Some j"
| "run_job (RunFails j e err) = Some j"
| "run_job (RunReturns j e res) = Some j"
| "run_job (Finishing j) = Some j"
| "run_job (Publishing ev k) = run_job k"
| "run_job (Sending ev cs k) = run_job k"
| "run_job _ = None"

definition runs :: "pc list \<Rightarrow> nat \<Rightarrow> nat" where
  "runs ps j = length (filter (\<lambda>p. run_job p = Some j) ps)"

abbreviation skips :: "job \<Rightarrow> bool" where
  "skips jb \<equiv> jp_Overlap (ru_Policy (jb_rule jb)) = OverlapSkipIfRunning"

abbreviation in_flight :: "job \<Rightarrow> nat" where
  "in_flight jb \<equiv> (if jb_running jb then 1 else 0)"

lemma runs_simps [simp]:
  "runs [] j = 0" "runs (p # ps) j = (if run_job p = Some j then 1 else 0) + runs ps j" "runs (ps @ qs) j = runs ps j + runs qs j"
  by (simp_all add: runs_def)

lemma runs_update:
  "i < length ps \<Longrightarrow> runs (ps[i := p]) j + runs [ps ! i] j = runs ps j + runs [p] j"
proof (induction ps arbitrary: i)
  case (Cons q ps)
  then show ?case by (cases i) (auto simp del: runs_simps(3))
qed simp

lemma run_job_pc: "run_job p = Some j \<Longrightarrow> pc_job p = Some j"
  by (induction p) auto

lemma runs_none: "\<forall>p \<in> set ps. pc_job p \<noteq> Some j \<Longrightarrow> runs ps j = 0"
  by (induction ps) (auto dest: run_job_pc)

text \<open>What one step does to the jobs that exist and to the number of their runs.\<close>

definition kept :: "scheduler \<Rightarrow> scheduler \<Rightarrow> bool" where
  "kept s s' \<longleftrightarrow> length (sc_heap s) \<le> length (sc_heap s') \<and>
     (\<forall>j < length (sc_heap s). jb_rule (sc_heap s' ! j) = jb_rule (sc_heap s ! j))"

lemma job_op_rules [simp]:
  "jb_rule (setStatus st jb) = jb_rule jb" "jb_rule (setError err jb) = jb_rule jb" "jb_rule (setResult r jb) = jb_rule jb"
  "jb_rule (finishRun jb) = jb_rule jb" "jb_running (setStatus st jb) = jb_running jb" "jb_running (setError err jb) = jb_running jb"
  "jb_running (setResult r jb) = jb_running jb" "jb_running (finishRun jb) = False"
  by (simp_all add: setStatus_def setError_def setResult_def finishRun_def Let_def)

lemma heap_on_job [simp]:
  "sc_heap (on_job j f s) = (sc_heap s)[j := f (sc_heap s ! j)]" "sc_jobs (on_job j f s) = sc_jobs s" "sc_panic (on_job j f s) = sc_panic s"
  by (simp_all add: on_job_def)

lemma nth_update: "k < length xs \<Longrightarrow> xs[j := v] ! k = (if j = k then v else xs ! k)"
  by (cases "j = k") auto

lemmas step_defs = tau_def add_rule_def tryStartRun_def Let_def
lemmas step_splits = if_splits option.splits sum.splits bool.splits

lemma goroutine_kept:
  assumes "goroutine a p s = Some (s', p', qs)"
  shows "kept s s'"
  using assms
  by (cases "(a, p, s)" rule: goroutine.cases; cases a)
    (auto simp: kept_def step_defs nth_update nth_append split: step_splits)

definition sched_inv :: "sched_state \<Rightarrow> bool" where
  "sched_inv st \<longleftrightarrow> (case st of (s, ps) \<Rightarrow>
     (\<forall>p \<in> set ps. \<forall>j. pc_job p = Some j \<longrightarrow> j < length (sc_heap s)) \<and>
     (\<forall>i j. fmlookup (sc_jobs s) i = Some j \<longrightarrow> j < length (sc_heap s) \<and> job_id s j = i) \<and>
     (\<forall>j < length (sc_heap s). ru_ID (jb_rule (sc_heap s ! j)) \<noteq> [] \<and> ru_Matcher (jb_rule (sc_heap s ! j)) \<noteq> None) \<and>
     (\<forall>j < length (sc_heap s). \<not> sc_panic s \<longrightarrow> skips (sc_heap s ! j) \<longrightarrow> runs ps j = in_flight (sc_heap s ! j)))"

lemma goroutine_balance:
  assumes "goroutine a p s = Some (s', p', qs)" "\<not> sc_panic s'" "j < length (sc_heap s)" "skips (sc_heap s ! j)"
    and "runs [p] j \<le> in_flight (sc_heap s ! j)"
  shows "runs (p' # qs) j + in_flight (sc_heap s ! j) = runs [p] j + in_flight (sc_heap s' ! j)"
  using assms
  by (cases "(a, p, s)" rule: goroutine.cases; cases a)
    (auto simp: step_defs nth_update nth_append split: step_splits)

lemma goroutine_pcs:
  assumes "goroutine a p s = Some (s', p', qs)" "\<forall>j. pc_job p = Some j \<longrightarrow> j < length (sc_heap s)"
    and "\<forall>i j. fmlookup (sc_jobs s) i = Some j \<longrightarrow> j < length (sc_heap s)"
  shows "\<forall>q \<in> set (p' # qs). \<forall>j. pc_job q = Some j \<longrightarrow> j < length (sc_heap s')"
  using assms
  by (cases "(a, p, s)" rule: goroutine.cases; cases a)
    (auto simp: step_defs split: step_splits)

lemma Rule_Normalized_sel [simp]: "ru_ID (Rule_Normalized r) = ru_ID r" "\<exists>m. ru_Matcher (Rule_Normalized r) = Some m"
  by (simp_all add: Rule_Normalized_def Let_def)

lemma goroutine_new_jobs:
  assumes "goroutine a p s = Some (s', p', qs)" "length (sc_heap s) \<le> j" "j < length (sc_heap s')"
  shows "j = length (sc_heap s) \<and> \<not> jb_running (sc_heap s' ! j) \<and> ru_ID (jb_rule (sc_heap s' ! j)) \<noteq> [] \<and>
    ru_Matcher (jb_rule (sc_heap s' ! j)) \<noteq> None \<and> run_job p' = None \<and> qs = []"
  using assms
  by (cases "(a, p, s)" rule: goroutine.cases; cases a)
    (auto simp: step_defs new_job_def nth_append less_Suc_eq split: step_splits)

lemma goroutine_jobs:
  assumes "goroutine a p s = Some (s', p', qs)" "fmlookup (sc_jobs s') i = Some j"
  shows "fmlookup (sc_jobs s) i = Some j \<or> j = length (sc_heap s) \<and> j < length (sc_heap s') \<and> job_id s' j = i"
  using assms
  by (cases "(a, p, s)" rule: goroutine.cases; cases a)
    (auto simp: step_defs new_job_def job_id_def fmlookup_drop split: step_splits)

lemma sched_inv_exec:
  assumes "sched_inv (s, ps)" "sched_exec i a (s, ps) = Some (s', ps')"
  shows "sched_inv (s', ps')"
proof -
  from assms(2) obtain p' qs where g: "goroutine a (ps ! i) s = Some (s', p', qs)" "ps' = ps[i := p'] @ qs" "i < length ps" "\<not> sc_panic s"
    by (auto simp: sched_exec_def split: if_splits option.splits)
  note k = goroutine_kept [OF g(1), unfolded kept_def]
  have pcs: "\<forall>p \<in> set ps. \<forall>j. pc_job p = Some j \<longrightarrow> j < length (sc_heap s)"
    and jobs: "\<forall>i j. fmlookup (sc_jobs s) i = Some j \<longrightarrow> j < length (sc_heap s) \<and> job_id s j = i"
    and rules: "\<forall>j < length (sc_heap s). ru_ID (jb_rule (sc_heap s ! j)) \<noteq> [] \<and> ru_Matcher (jb_rule (sc_heap s ! j)) \<noteq> None"
    and cnt: "\<forall>j < length (sc_heap s). skips (sc_heap s ! j) \<longrightarrow> runs ps j = in_flight (sc_heap s ! j)"
    using assms(1) g(4) by (auto simp: sched_inv_def)
  have "\<forall>q \<in> set (p' # qs). \<forall>j. pc_job q = Some j \<longrightarrow> j < length (sc_heap s')"
    using goroutine_pcs [OF g(1)] pcs jobs nth_mem [OF g(3)] by blast
  then have "\<forall>p \<in> set ps'. \<forall>j. pc_job p = Some j \<longrightarrow> j < length (sc_heap s')"
    using pcs k unfolding g(2) by (auto dest!: set_update_subset_insert [THEN subsetD] intro: less_le_trans)
  moreover have "\<forall>i j. fmlookup (sc_jobs s') i = Some j \<longrightarrow> j < length (sc_heap s') \<and> job_id s' j = i"
    using goroutine_jobs [OF g(1)] jobs k by (fastforce simp: job_id_def)
  moreover have "ru_ID (jb_rule (sc_heap s' ! j)) \<noteq> [] \<and> ru_Matcher (jb_rule (sc_heap s' ! j)) \<noteq> None" if "j < length (sc_heap s')" for j
    using goroutine_new_jobs [OF g(1) _ that] rules k by (cases "j < length (sc_heap s)") auto
  moreover have "runs ps' j = in_flight (sc_heap s' ! j)"
    if j: "j < length (sc_heap s')" "\<not> sc_panic s'" "skips (sc_heap s' ! j)" for j
  proof (cases "j < length (sc_heap s)")
    case True
    then have r: "runs ps j = in_flight (sc_heap s ! j)" "skips (sc_heap s ! j)" using cnt j(3) k by auto
    have "runs [ps ! i] j \<le> runs ps j" using runs_update [OF g(3), of "Returned None" j] by simp
    then show ?thesis using goroutine_balance [OF g(1) j(2) True r(2)] runs_update [OF g(3), of p' j] r(1) unfolding g(2) by simp
  next
    case False
    then have n: "j = length (sc_heap s)" "\<not> jb_running (sc_heap s' ! j)" "run_job p' = None" "qs = []"
      using goroutine_new_jobs [OF g(1) _ j(1)] by auto
    have "runs ps j = 0" using pcs n(1) by (intro runs_none) auto
    then show ?thesis using runs_update [OF g(3), of p' j] n unfolding g(2) by simp
  qed
  ultimately show ?thesis by (auto simp: sched_inv_def)
qed

lemma client_call_pc: "client_call p \<Longrightarrow> pc_job p = None \<and> run_job p = None"
  by (cases p) auto

lemma sched_inv_step: "sched_step st st' \<Longrightarrow> sched_inv st \<Longrightarrow> sched_inv st'"
proof (induction rule: sched_step.induct)
  case (Call p s ps)
  then show ?case using client_call_pc [of p] by (auto simp: sched_inv_def)
next
  case (Go i a st st')
  then show ?case using sched_inv_exec by (cases st; cases st') blast
qed (auto simp: sched_inv_def job_id_def)

lemma sched_reachable_inv: "sched_reachable st \<Longrightarrow> sched_inv st"
proof (induction rule: sched_reachable.induct)
  case (Init executor)
  then show ?case by (simp add: sched_inv_def NewScheduler_def)
qed (rule sched_inv_step)

text \<open>
  C30. In every interleaving of clients, sources and runs, the jobs of a scheduler are registered under
  the identifiers of their rules, and a job whose policy is to skip while running - the default -
  has a run in progress exactly when it is marked as running, and never two.
\<close>

theorem runs_never_overlap:
  assumes "sched_reachable (s, ps)" "\<not> sc_panic s" "j < length (sc_heap s)"
    and "jp_Overlap (ru_Policy (jb_rule (sc_heap s ! j))) = OverlapSkipIfRunning"
  shows "length (filter (\<lambda>p. run_job p = Some j) ps) = (if jb_running (sc_heap s ! j) then 1 else 0) \<and>
    (\<forall>i k e e'. i < length ps \<and> k < length ps \<and> ps ! i = Executing j e \<and> ps ! k = Executing j e' \<longrightarrow> i = k) \<and>
    (\<forall>i k. fmlookup (sc_jobs s) i = Some k \<longrightarrow> k < length (sc_heap s) \<and> ru_ID (jb_rule (sc_heap s ! k)) = i)"
proof -
  note inv = sched_reachable_inv [OF assms(1), unfolded sched_inv_def]
  have c: "runs ps j = in_flight (sc_heap s ! j)" using inv assms(2-4) by simp
  have "i = k" if "i < length ps" "k < length ps" "ps ! i = Executing j e" "ps ! k = Executing j e'" for i k e e'
  proof (rule ccontr)
    assume "i \<noteq> k"
    then have "runs (ps[i := Returned None, k := Returned None]) j + 2 = runs ps j"
      using runs_update [of i ps "Returned None" j] runs_update [of k "ps[i := Returned None]" "Returned None" j] that by simp
    with c show False by (simp split: if_splits)
  qed
  with c inv show ?thesis by (auto simp: runs_def job_id_def)
qed

section \<open>Traces\<close>

fun run_trace :: "(nat \<times> input) list \<Rightarrow> sched_state \<Rightarrow> sched_state option" where
  "run_trace [] st = Some st"
| "run_trace ((i, a) # tr) st = (case sched_exec i a st of None \<Rightarrow> None | Some st' \<Rightarrow> run_trace tr st')"

lemma run_trace_steps: "run_trace tr st = Some st' \<Longrightarrow> sched_step\<^sup>*\<^sup>* st st'"
proof (induction tr arbitrary: st)
  case (Cons x tr)
  obtain i a where "x = (i, a)" by (cases x)
  with Cons show ?case by (auto split: option.splits intro: converse_rtranclp_into_rtranclp sched_step.Go)
qed simp

lemma reachable_steps: "sched_step\<^sup>*\<^sup>* st st' \<Longrightarrow> sched_reachable st \<Longrightarrow> sched_reachable st'"
  by (induction rule: rtranclp_induct) (auto intro: sched_reachable.Step)

lemma reachable_calls: "list_all client_call ps \<Longrightarrow> sched_reachable (NewScheduler b, ps)"
proof (induction ps rule: rev_induct)
  case (snoc p ps)
  have "sched_step (NewScheduler b, ps) (NewScheduler b, ps @ [p])"
    using snoc.prems by (intro sched_step.Call) (simp_all add: NewScheduler_def)
  with snoc show ?case by (auto intro: sched_reachable.Step)
qed (rule sched_reachable.Init)

lemma reachable_trace: "list_all client_call ps \<Longrightarrow> run_trace tr (NewScheduler b, ps) = Some st \<Longrightarrow> sched_reachable st"
  using reachable_steps [OF run_trace_steps reachable_calls] .

definition demo_rule :: trig_rule where
  "demo_rule = \<lparr>ru_ID = ''r'', ru_Source = Some \<lparr>ts_ID = ''s'', ts_EventType = None\<rparr>, ru_Matcher = None,
     ru_Target = \<lparr>tg_Kind = ''workflow'', tg_WorkflowName = ''w'', tg_AgentName = [], tg_Prompt = [], tg_ActionName = [],
       tg_Input = VNil, tg_IncludeEvent = False\<rparr>,
     ru_Session = \<lparr>sp_Mode = [], sp_Name = [], sp_AgentName = []\<rparr>, ru_Policy = \<lparr>jp_Overlap = [], jp_Timeout = 0\<rparr>\<rparr>"

text \<open>A source that emits two events: the first one runs, the second is skipped.\<close>

definition demo_trace :: "(nat \<times> input) list" where
  "demo_trace = [(0, Tau), (0, Clock 5), (0, Tau), (0, Tau), (1, Tau), (1, Emits no_trig_event), (1, Emits no_trig_event),
     (2, Tau), (2, Tau), (2, Clock 6), (2, Tau), (2, Tau), (3, Tau), (3, Tau)]"

definition demo_sched :: sched_state where
  "demo_sched = the (run_trace demo_trace (NewScheduler True, [Adding demo_rule False]))"

lemma demo_sched_reachable: "sched_reachable demo_sched"
proof -
  have "run_trace demo_trace (NewScheduler True, [Adding demo_rule False]) \<noteq> None" by code_simp
  then have "run_trace demo_trace (NewScheduler True, [Adding demo_rule False]) = Some demo_sched"
    by (simp add: demo_sched_def)
  then show ?thesis by (rule reachable_trace [rotated]) simp
qed

theorem runs_never_overlap_witness:
  "length (filter (\<lambda>p. run_job p = Some 0) (snd demo_sched)) = 1 \<and> jb_matched (sc_heap (fst demo_sched) ! 0) = 1 \<and>
    jb_skipped (sc_heap (fst demo_sched) ! 0) = 1"
proof -
  have r: "sched_reachable (fst demo_sched, snd demo_sched)" using demo_sched_reachable by simp
  have c: "\<not> sc_panic (fst demo_sched)" "0 < length (sc_heap (fst demo_sched))"
    "jp_Overlap (ru_Policy (jb_rule (sc_heap (fst demo_sched) ! 0))) = OverlapSkipIfRunning"
    "jb_running (sc_heap (fst demo_sched) ! 0)" "jb_matched (sc_heap (fst demo_sched) ! 0) = 1"
    "jb_skipped (sc_heap (fst demo_sched) ! 0) = 1" by code_simp+
  from runs_never_overlap [OF r c(1-3)] c(4-6) show ?thesis by simp
qed

section \<open>Unsubscribing during a publish\<close>

lemma goroutine_chans:
  assumes "goroutine a p s = Some (s', p', qs)" "\<forall>c \<in> set (sc_events s). c < length (sc_chans s)"
  shows "\<forall>c \<in> set (sc_events s'). c < length (sc_chans s')"
  using assms
  by (cases "(a, p, s)" rule: goroutine.cases; cases a)
    (auto simp: step_defs on_job_def less_Suc_eq dest: set_remove1_subset [THEN subsetD] split: step_splits)

lemma sched_reachable_chans: "sched_reachable st \<Longrightarrow> \<forall>c \<in> set (sc_events (fst st)). c < length (sc_chans (fst st))"
proof (induction rule: sched_reachable.induct)
  case (Step st st')
  from Step(2,1,3) show ?case
  proof (induction rule: sched_step.induct)
    case (Go i a st st')
    then show ?case
      by (auto simp: sched_exec_def split: prod.splits if_splits option.splits dest: goroutine_chans)
  qed simp_all
qed (simp add: NewScheduler_def)



end
