(* ===== verification/Agent_Context.thy ===== *)
theory Agent_Context
  imports Prelude "HOL-Library.Finite_Map" "HOL-Library.List_Lexorder" "HOL-Library.Char_ord"
begin

text \<open>
  The context manager (\<^verbatim>\<open>src/agentcontext/manager.go\<close>, \<^verbatim>\<open>types.go\<close>, \<^verbatim>\<open>record.go\<close>, \<^verbatim>\<open>fingerprint.go\<close>):
  providers render fragments, the manager keeps a record of what it rendered last and
  tells a turn only what changed. A provider is a pair of functions over a world, its optional
  fingerprint and its rendering. The digest is an argument. The removed fragments, which the code lists
  in the order of a Go map, are listed by key.
\<close>

section \<open>Data\<close>

record cache_policy =
  cp_Stable :: bool
  cp_MaxAge :: int
  cp_Scope :: string

record context_fragment =
  cf_Key :: string
  cf_Role :: string
  cf_StartMarker :: string
  cf_EndMarker :: string
  cf_Content :: string
  cf_Fingerprint :: string
  cf_Authority :: string
  cf_CachePolicy :: cache_policy

record provider_snapshot =
  psn_Fingerprint :: string
  psn_Data :: string

record provider_context =
  pcx_Fragments :: "context_fragment list"
  pcx_Snapshot :: "provider_snapshot option"
  pcx_Fingerprint :: string

record fragment_record =
  rf_Key :: string
  rf_Fingerprint :: string
  rf_Fragment :: context_fragment
  rf_Removed :: bool

record provider_record =
  pv_ProviderKey :: string
  pv_Fingerprint :: string
  pv_Snapshot :: "provider_snapshot option"
  pv_Fragments :: "(string, fragment_record) fmap"

record fragment_removed =
  fr_ProviderKey :: string
  fr_FragmentKey :: string
  fr_PreviousFingerprint :: string

record render_diff =
  rd_Added :: "context_fragment list"
  rd_Updated :: "context_fragment list"
  rd_Removed :: "fragment_removed list"
  rd_Unchanged :: "fragment_record list"

record build_request =
  brq_ThreadID :: string
  brq_BranchID :: string
  brq_TurnID :: string
  brq_Preference :: string
  brq_TokenBudget :: int
  brq_Reason :: string

record ctx_request =
  crq_Build :: build_request
  crq_Previous :: "provider_record option"

text \<open>A provider: its key, \<^verbatim>\<open>StateFingerprint\<close> if it has the method, and \<^verbatim>\<open>GetContext\<close>.\<close>

record 'w provider =
  pd_Key :: string
  pd_StateFingerprint :: "(ctx_request \<Rightarrow> 'w \<Rightarrow> (string, string \<times> bool) result \<times> 'w) option"
  pd_GetContext :: "ctx_request \<Rightarrow> 'w \<Rightarrow> (string, provider_context) result \<times> 'w"

record provider_result =
  pb_ProviderKey :: string
  pb_Diff :: render_diff
  pb_Record :: provider_record
  pb_Skipped :: bool

record build_result =
  bd_TurnID :: string
  bd_Reason :: string
  bd_Providers :: "provider_result list"
  bd_Added :: "context_fragment list"
  bd_Updated :: "context_fragment list"
  bd_Removed :: "fragment_removed list"
  bd_Active :: "context_fragment list"

type_synonym ctx_records = "(string, provider_record) fmap"

record 'w ctx_manager =
  cm_providers :: "'w provider list"
  cm_records :: ctx_records
  cm_version :: int

record prepared_render =
  pp_version :: int
  pp_records :: ctx_records
  pp_Result :: build_result
  pp_done :: bool

datatype ctx_error =
    ProviderNil
  | ProviderKeyRequired
  | DuplicateProvider string
  | ProviderErr string
  | FragmentKeyRequired
  | DuplicateFragment string
  | RenderClosed
  | RecordsChanged

definition no_diff :: render_diff where
  "no_diff = \<lparr>rd_Added = [], rd_Updated = [], rd_Removed = [], rd_Unchanged = []\<rparr>"

definition no_fragment :: context_fragment where
  "no_fragment = \<lparr>cf_Key = [], cf_Role = [], cf_StartMarker = [], cf_EndMarker = [], cf_Content = [], cf_Fingerprint = [],
     cf_Authority = [], cf_CachePolicy = \<lparr>cp_Stable = False, cp_MaxAge = 0, cp_Scope = []\<rparr>\<rparr>"

definition no_provider_record :: provider_record where
  "no_provider_record = \<lparr>pv_ProviderKey = [], pv_Fingerprint = [], pv_Snapshot = None, pv_Fragments = fmempty\<rparr>"

definition fm_keys :: "(string, 'v) fmap \<Rightarrow> string list" where
  "fm_keys m = sorted_list_of_set (fset (fmdom m))"

lemma set_fm_keys [simp]: "set (fm_keys m) = fset (fmdom m)"
  by (simp add: fm_keys_def)

section \<open>Fingerprints\<close>

definition FragmentFingerprint :: "(string \<Rightarrow> string) \<Rightarrow> context_fragment \<Rightarrow> string" where
  "FragmentFingerprint sha f =
     (if cf_Fingerprint f \<noteq> [] then cf_Fingerprint f
      else ''sha256:'' @ sha (cf_Key f @ [CHR 0x00] @ cf_Role f @ [CHR 0x00] @ cf_StartMarker f @ [CHR 0x00] @
        cf_EndMarker f @ [CHR 0x00] @ cf_Content f @ [CHR 0x00] @ cf_Authority f))"

definition ProviderFingerprint :: "(string \<Rightarrow> string) \<Rightarrow> context_fragment list \<Rightarrow> string" where
  "ProviderFingerprint sha fs =
     ''sha256:'' @ sha (concat (map (\<lambda>f. cf_Key f @ [CHR 0x00] @ FragmentFingerprint sha f @ [CHR 0x00]) fs))"

definition ActiveFragments :: "provider_record \<Rightarrow> context_fragment list" where
  "ActiveFragments r =
     map (\<lambda>k. rf_Fragment (the (fmlookup (pv_Fragments r) k)))
       (filter (\<lambda>k. \<not> rf_Removed (the (fmlookup (pv_Fragments r) k))) (fm_keys (pv_Fragments r)))"

section \<open>Registration\<close>

definition NewCtxManager :: "'w ctx_manager" where
  "NewCtxManager = \<lparr>cm_providers = [], cm_records = fmempty, cm_version = 0\<rparr>"

text \<open>The loop of \<^verbatim>\<open>registerLocked\<close>: providers are added one by one, also when a later one is refused.\<close>

fun register_loop :: "'w provider list \<Rightarrow> 'w provider option list \<Rightarrow> ctx_error option \<times> 'w provider list" where
  "register_loop ps [] = (None, ps)"
| "register_loop ps (None # qs) = (Some ProviderNil, ps)"
| "register_loop ps (Some q # qs) =
     (if pd_Key q = [] then (Some ProviderKeyRequired, ps)
      else if pd_Key q \<in> pd_Key ` set ps then (Some (DuplicateProvider (pd_Key q)), ps)
      else register_loop (ps @ [q]) qs)"

definition Manager_Register :: "'w provider option list \<Rightarrow> 'w ctx_manager \<Rightarrow> ctx_error option \<times> 'w ctx_manager" where
  "Manager_Register qs m =
     (case register_loop (cm_providers m) qs of
        (Some e, ps) \<Rightarrow> (Some e, m\<lparr>cm_providers := ps\<rparr>)
      | (None, ps) \<Rightarrow> (None, m\<lparr>cm_providers := sort_key pd_Key ps\<rparr>))"

definition Manager_SetRecords :: "ctx_records \<Rightarrow> 'w ctx_manager \<Rightarrow> 'w ctx_manager" where
  "Manager_SetRecords rs m = m\<lparr>cm_records := rs, cm_version := cm_version m + 1\<rparr>"

section \<open>Rendering\<close>

fun fragment_error :: "string list \<Rightarrow> context_fragment list \<Rightarrow> ctx_error option" where
  "fragment_error seen [] = None"
| "fragment_error seen (f # fs) =
     (if cf_Key f = [] then Some FragmentKeyRequired
      else if cf_Key f \<in> set seen then Some (DuplicateFragment (cf_Key f))
      else fragment_error (cf_Key f # seen) fs)"

definition normalizeFragments :: "context_fragment list \<Rightarrow> (ctx_error, context_fragment list) result" where
  "normalizeFragments fs =
     (case fragment_error [] fs of Some e \<Rightarrow> Inl e | None \<Rightarrow> Inr (sort_key cf_Key fs))"

definition render_fragment :: "(string \<Rightarrow> string) \<Rightarrow> context_fragment \<Rightarrow> fragment_record" where
  "render_fragment sha f =
     (let fp = FragmentFingerprint sha f in
      \<lparr>rf_Key = cf_Key f, rf_Fingerprint = fp, rf_Fragment = f\<lparr>cf_Fingerprint := fp\<rparr>, rf_Removed = False\<rparr>)"

definition is_added :: "(string, fragment_record) fmap \<Rightarrow> fragment_record \<Rightarrow> bool" where
  "is_added prev r = (case fmlookup prev (rf_Key r) of None \<Rightarrow> True | Some p \<Rightarrow> rf_Removed p)"

definition is_changed :: "(string, fragment_record) fmap \<Rightarrow> fragment_record \<Rightarrow> bool" where
  "is_changed prev r = (case fmlookup prev (rf_Key r) of None \<Rightarrow> True | Some p \<Rightarrow> rf_Fingerprint p \<noteq> rf_Fingerprint r)"

text \<open>The fragments of the previous record that are gone, in key order.\<close>

definition gone :: "(string, fragment_record) fmap \<Rightarrow> fragment_record list \<Rightarrow> fragment_record list" where
  "gone prev rs =
     filter (\<lambda>p. \<not> rf_Removed p) (map (\<lambda>k. (the (fmlookup prev k))\<lparr>rf_Key := k\<rparr>)
       (filter (\<lambda>k. k \<notin> rf_Key ` set rs) (fm_keys prev)))"

definition tombstone :: "fragment_record \<Rightarrow> fragment_record" where
  "tombstone p = \<lparr>rf_Key = rf_Key p, rf_Fingerprint = rf_Fingerprint p, rf_Fragment = no_fragment, rf_Removed = True\<rparr>"

definition buildProviderRecord ::
  "(string \<Rightarrow> string) \<Rightarrow> string \<Rightarrow> provider_record \<Rightarrow> provider_context \<Rightarrow> (ctx_error, provider_record \<times> render_diff) result" where
  "buildProviderRecord sha key previous pc =
     rbind (normalizeFragments (pcx_Fragments pc)) (\<lambda>fs.
       let rs = map (render_fragment sha) fs;
           prev = pv_Fragments previous;
           old = gone prev rs
       in Inr
        (\<lparr>pv_ProviderKey = key,
          pv_Fingerprint = (if pcx_Fingerprint pc \<noteq> [] then pcx_Fingerprint pc else ProviderFingerprint sha fs),
          pv_Snapshot = pcx_Snapshot pc,
          pv_Fragments = fmap_of_list (map (\<lambda>r. (rf_Key r, r)) (rs @ map tombstone old))\<rparr>,
         \<lparr>rd_Added = map rf_Fragment (filter (is_added prev) rs),
          rd_Updated = map rf_Fragment (filter (\<lambda>r. \<not> is_added prev r \<and> is_changed prev r) rs),
          rd_Removed = map (\<lambda>p. \<lparr>fr_ProviderKey = key, fr_FragmentKey = rf_Key p, fr_PreviousFingerprint = rf_Fingerprint p\<rparr>) old,
          rd_Unchanged = filter (\<lambda>r. \<not> is_added prev r \<and> \<not> is_changed prev r) rs\<rparr>))"

text \<open>One provider of the loop of \<^verbatim>\<open>Prepare\<close>: its result, \<^verbatim>\<open>Skipped\<close> when its state has not changed.\<close>

definition render_provider ::
  "(string \<Rightarrow> string) \<Rightarrow> build_request \<Rightarrow> ctx_records \<Rightarrow> 'w provider \<Rightarrow> 'w \<Rightarrow> (ctx_error, provider_result) result \<times> 'w" where
  "render_provider sha req prevs q w =
     (let key = pd_Key q;
          hasPrevious = fmlookup prevs key;
          creq = \<lparr>crq_Build = req, crq_Previous = hasPrevious\<rparr>;
          previous = (case hasPrevious of Some r \<Rightarrow> r | None \<Rightarrow> no_provider_record);
          full = (\<lambda>w1. case pd_GetContext q creq w1 of
              (Inl e, w2) \<Rightarrow> (Inl (ProviderErr e), w2)
            | (Inr pc, w2) \<Rightarrow>
                (rbind (buildProviderRecord sha key previous pc) (\<lambda>(r, d).
                   Inr \<lparr>pb_ProviderKey = key, pb_Diff = d, pb_Record = r, pb_Skipped = False\<rparr>), w2))
      in case (pd_StateFingerprint q, hasPrevious) of
        (Some fast, Some prev) \<Rightarrow>
          (case fast creq w of
             (Inl e, w1) \<Rightarrow> (Inl (ProviderErr e), w1)
           | (Inr (fp, valid), w1) \<Rightarrow>
               if valid \<and> fp \<noteq> [] \<and> fp = pv_Fingerprint prev
               then (Inr \<lparr>pb_ProviderKey = key, pb_Diff = no_diff, pb_Record = prev, pb_Skipped = True\<rparr>, w1)
               else full w1)
      | _ \<Rightarrow> full w)"

fun render_all ::
  "(string \<Rightarrow> string) \<Rightarrow> build_request \<Rightarrow> ctx_records \<Rightarrow> 'w provider list \<Rightarrow> 'w \<Rightarrow> (ctx_error, provider_result list) result \<times> 'w" where
  "render_all sha req prevs [] w = (Inr [], w)"
| "render_all sha req prevs (q # qs) w =
     (case render_provider sha req prevs q w of
        (Inl e, w1) \<Rightarrow> (Inl e, w1)
      | (Inr r, w1) \<Rightarrow> (case render_all sha req prevs qs w1 of (rs, w2) \<Rightarrow> (rbind rs (\<lambda>rs. Inr (r # rs)), w2)))"

definition next_records :: "ctx_records \<Rightarrow> provider_result list \<Rightarrow> ctx_records" where
  "next_records prevs rs = fold (\<lambda>r m. if pb_Skipped r then m else fmupd (pb_ProviderKey r) (pb_Record r) m) rs prevs"

definition Manager_Prepare ::
  "(string \<Rightarrow> string) \<Rightarrow> build_request \<Rightarrow> 'w ctx_manager \<Rightarrow> 'w \<Rightarrow> (ctx_error, prepared_render) result \<times> 'w" where
  "Manager_Prepare sha req m w =
     (case render_all sha req (cm_records m) (cm_providers m) w of
        (Inl e, w1) \<Rightarrow> (Inl e, w1)
      | (Inr rs, w1) \<Rightarrow>
          (Inr \<lparr>pp_version = cm_version m, pp_records = next_records (cm_records m) rs,
             pp_Result = \<lparr>bd_TurnID = brq_TurnID req, bd_Reason = brq_Reason req, bd_Providers = rs,
               bd_Added = concat (map (\<lambda>r. rd_Added (pb_Diff r)) rs), bd_Updated = concat (map (\<lambda>r. rd_Updated (pb_Diff r)) rs),
               bd_Removed = concat (map (\<lambda>r. rd_Removed (pb_Diff r)) rs),
               bd_Active = concat (map (\<lambda>r. ActiveFragments (pb_Record r)) rs)\<rparr>,
             pp_done = False\<rparr>, w1))"

definition Render_Commit :: "prepared_render \<Rightarrow> 'w ctx_manager \<Rightarrow> ctx_error option \<times> prepared_render \<times> 'w ctx_manager" where
  "Render_Commit r m =
     (if pp_done r then (Some RenderClosed, r, m)
      else if cm_version m \<noteq> pp_version r then (Some RecordsChanged, r, m)
      else (None, r\<lparr>pp_done := True\<rparr>, m\<lparr>cm_records := pp_records r, cm_version := cm_version m + 1\<rparr>))"

definition Render_Rollback :: "prepared_render \<Rightarrow> prepared_render" where
  "Render_Rollback r = r\<lparr>pp_done := True\<rparr>"

definition Manager_Build ::
  "(string \<Rightarrow> string) \<Rightarrow> build_request \<Rightarrow> 'w ctx_manager \<Rightarrow> 'w \<Rightarrow> ((ctx_error, build_result) result \<times> 'w ctx_manager) \<times> 'w" where
  "Manager_Build sha req m w =
     (case Manager_Prepare sha req m w of
        (Inl e, w1) \<Rightarrow> ((Inl e, m), w1)
      | (Inr r, w1) \<Rightarrow>
          (case Render_Commit r m of (Some e, _, m1) \<Rightarrow> ((Inl e, m1), w1) | (None, r1, m1) \<Rightarrow> ((Inr (pp_Result r1), m1), w1)))"

section \<open>Diffs\<close>

text \<open>What a consumer knows: the fingerprint of every active fragment, and how a diff changes it.\<close>

definition active :: "provider_record \<Rightarrow> string \<rightharpoonup> string" where
  "active r k = (case fmlookup (pv_Fragments r) k of
     Some f \<Rightarrow> if rf_Removed f then None else Some (rf_Fingerprint f) | None \<Rightarrow> None)"

definition apply_diff :: "render_diff \<Rightarrow> (string \<rightharpoonup> string) \<Rightarrow> string \<rightharpoonup> string" where
  "apply_diff d v k =
     (if k \<in> fr_FragmentKey ` set (rd_Removed d) then None
      else case map_of (map (\<lambda>f. (cf_Key f, cf_Fingerprint f)) (rd_Added d @ rd_Updated d)) k of
        Some fp \<Rightarrow> Some fp | None \<Rightarrow> v k)"

lemma fragment_error_distinct:
  "fragment_error seen fs = None \<Longrightarrow> distinct (map cf_Key fs) \<and> set (map cf_Key fs) \<inter> set seen = {}"
proof (induction fs arbitrary: seen)
  case (Cons f fs)
  then have "fragment_error (cf_Key f # seen) fs = None" "cf_Key f \<notin> set seen" by (auto split: if_splits)
  with Cons.IH [of "cf_Key f # seen"] show ?case by auto
qed simp

lemma normalizeFragments_distinct: "normalizeFragments fs = Inr gs \<Longrightarrow> distinct (map cf_Key gs)"
proof -
  assume n: "normalizeFragments fs = Inr gs"
  then have "distinct (map cf_Key fs)" "gs = sort_key cf_Key fs"
    using fragment_error_distinct by (auto simp: normalizeFragments_def split: option.splits)
  moreover have "mset (map cf_Key (sort_key cf_Key fs)) = mset (map cf_Key fs)" by simp
  ultimately show ?thesis by (metis mset_eq_imp_distinct_iff)
qed

lemma render_fragment_sel [simp]:
  "rf_Key (render_fragment sha f) = cf_Key f" "rf_Fingerprint (render_fragment sha f) = FragmentFingerprint sha f"
  "cf_Key (rf_Fragment (render_fragment sha f)) = cf_Key f" "\<not> rf_Removed (render_fragment sha f)"
  "cf_Fingerprint (rf_Fragment (render_fragment sha f)) = FragmentFingerprint sha f"
  by (simp_all add: render_fragment_def Let_def)

lemma map_of_filter_key:
  assumes "distinct (map g xs)"
  shows "map_of (map (\<lambda>x. (g x, h x)) (filter P xs)) k = (case find (\<lambda>x. g x = k) xs of None \<Rightarrow> None | Some x \<Rightarrow> if P x then Some (h x) else None)"
  using assms
proof (induction xs)
  case (Cons x xs)
  have "find (\<lambda>y. g y = g x) xs = None" using Cons.prems by (auto simp: find_None_iff intro: rev_image_eqI)
  with Cons show ?case by auto
qed simp

lemma gone_keys: "k \<in> rf_Key ` set (gone prev rs) \<longleftrightarrow> k \<notin> rf_Key ` set rs \<and> (\<exists>p. fmlookup prev k = Some p \<and> \<not> rf_Removed p)"
  by (force simp: gone_def fmlookup_dom_iff image_iff)

lemma build_fragments:
  assumes "buildProviderRecord sha key previous pc = Inr (next, d)" "normalizeFragments (pcx_Fragments pc) = Inr fs"
  shows "active next k = (case find (\<lambda>f. cf_Key f = k) fs of Some f \<Rightarrow> Some (FragmentFingerprint sha f) | None \<Rightarrow> None)"
proof -
  let ?rs = "map (render_fragment sha) fs" and ?prev = "pv_Fragments previous"
  let ?m = "map_of (map (\<lambda>r. (rf_Key r, r)) (?rs @ map tombstone (gone ?prev ?rs)))"
  have "pv_Fragments next = fmap_of_list (map (\<lambda>r. (rf_Key r, r)) (?rs @ map tombstone (gone ?prev ?rs)))"
    using assms by (auto simp: buildProviderRecord_def Let_def simp del: map_append map_map)
  then have l: "fmlookup (pv_Fragments next) k = ?m k" by (simp only: fmlookup_of_list)
  show ?thesis
  proof (cases "find (\<lambda>f. cf_Key f = k) fs")
    case (Some f)
    then have "map_of (map (\<lambda>r. (rf_Key r, r)) ?rs) k = Some (render_fragment sha f)"
      using map_of_filter_key [OF normalizeFragments_distinct [OF assms(2)], of "render_fragment sha" "\<lambda>_. True" k] by (simp add: comp_def)
    then show ?thesis using l Some by (simp add: active_def)
  next
    case None
    then have "map_of (map (\<lambda>r. (rf_Key r, r)) ?rs) k = None" by (auto simp: map_of_eq_None_iff find_None_iff comp_def)
    then have "?m k = map_of (map (\<lambda>r. (rf_Key r, r)) (map tombstone (gone ?prev ?rs))) k" by (simp add: map_add_def)
    moreover have "rf_Removed r" if "map_of (map (\<lambda>r. (rf_Key r, r)) (map tombstone (gone ?prev ?rs))) k = Some r" for r
      using map_of_SomeD [OF that] by (auto simp: tombstone_def)
    ultimately show ?thesis using l None by (auto simp: active_def split: option.splits)
  qed
qed

lemma diff_active:
  assumes "buildProviderRecord sha key previous pc = Inr (next, d)"
  shows "apply_diff d (active previous) = active next"
proof
  fix k
  obtain fs where n: "normalizeFragments (pcx_Fragments pc) = Inr fs" using assms by (auto simp: buildProviderRecord_def rbind_Inr_iff)
  let ?rs = "map (render_fragment sha) fs" and ?prev = "pv_Fragments previous"
  note dist = normalizeFragments_distinct [OF n]
  have d: "rd_Added d = map rf_Fragment (filter (is_added ?prev) ?rs)" "fr_FragmentKey ` set (rd_Removed d) = rf_Key ` set (gone ?prev ?rs)"
    "rd_Updated d = map rf_Fragment (filter (\<lambda>r. \<not> is_added ?prev r \<and> is_changed ?prev r) ?rs)"
    using assms n by (auto simp: buildProviderRecord_def Let_def image_image)
  have mo: "map_of (map (\<lambda>f. (cf_Key f, cf_Fingerprint f)) (map rf_Fragment (filter P ?rs))) k =
      (case find (\<lambda>f. cf_Key f = k) fs of None \<Rightarrow> None | Some f \<Rightarrow> if P (render_fragment sha f) then Some (FragmentFingerprint sha f) else None)" for P
    using map_of_filter_key [OF dist, of "FragmentFingerprint sha" "\<lambda>f. P (render_fragment sha f)" k] by (simp add: filter_map comp_def)
  show "apply_diff d (active previous) k = active next k"
  proof (cases "find (\<lambda>f. cf_Key f = k) fs")
    case None
    then have "k \<notin> rf_Key ` set ?rs" by (auto simp: find_None_iff)
    then show ?thesis using None mo gone_keys [of k ?prev ?rs] build_fragments [OF assms n, of k]
      by (auto simp: apply_diff_def d map_add_def active_def split: option.splits)
  next
    case (Some f)
    then have f: "cf_Key f = k" "k \<in> rf_Key ` set ?rs" by (auto simp: find_Some_iff image_iff)
    then show ?thesis using Some mo gone_keys [of k ?prev ?rs] build_fragments [OF assms n, of k]
      by (auto simp: apply_diff_def d map_add_def active_def is_added_def is_changed_def split: option.splits if_splits)
  qed
qed

section \<open>Managers and their consumers\<close>

definition view_of :: "ctx_records \<Rightarrow> string \<Rightarrow> string \<rightharpoonup> string" where
  "view_of rs p = (case fmlookup rs p of Some r \<Rightarrow> active r | None \<Rightarrow> (\<lambda>k. None))"

definition apply_results :: "provider_result list \<Rightarrow> (string \<Rightarrow> string \<rightharpoonup> string) \<Rightarrow> string \<Rightarrow> string \<rightharpoonup> string" where
  "apply_results rs v = fold (\<lambda>r v. v(pb_ProviderKey r := apply_diff (pb_Diff r) (v (pb_ProviderKey r)))) rs v"

lemma apply_no_diff [simp]: "apply_diff no_diff v = v"
  by (simp add: apply_diff_def no_diff_def fun_eq_iff)

lemma active_none: "active no_provider_record = (\<lambda>k. None)"
  by (simp add: active_def no_provider_record_def fun_eq_iff)

lemma view_update: "view_of (fmupd p r rs) = (view_of rs)(p := active r)"
  by (auto simp: view_of_def fun_eq_iff)

lemma render_provider_cases:
  assumes "render_provider sha req prevs q w = (Inr r, w')"
  shows "pb_ProviderKey r = pd_Key q \<and>
    ((\<exists>prev. fmlookup prevs (pd_Key q) = Some prev \<and> pb_Skipped r \<and> pb_Diff r = no_diff \<and> pb_Record r = prev) \<or>
     (\<exists>pc. \<not> pb_Skipped r \<and> buildProviderRecord sha (pd_Key q)
        (case fmlookup prevs (pd_Key q) of Some r \<Rightarrow> r | None \<Rightarrow> no_provider_record) pc = Inr (pb_Record r, pb_Diff r)))"
  using assms unfolding render_provider_def Let_def
  by (force simp: rbind_Inr_iff split: option.splits prod.splits sum.splits if_splits)

lemma render_provider_view:
  assumes "render_provider sha req prevs q w = (Inr r, w')"
  shows "pb_ProviderKey r = pd_Key q \<and> apply_diff (pb_Diff r) (view_of prevs (pd_Key q)) = active (pb_Record r) \<and>
    (pb_Skipped r \<longrightarrow> view_of prevs (pd_Key q) = active (pb_Record r))"
proof -
  have "view_of prevs (pd_Key q) = active (case fmlookup prevs (pd_Key q) of Some r \<Rightarrow> r | None \<Rightarrow> no_provider_record)"
    by (auto simp: view_of_def active_none split: option.splits)
  with render_provider_cases [OF assms] diff_active show ?thesis by (auto simp: view_of_def)
qed

lemma next_records_view:
  assumes "render_all sha req prevs qs w = (Inr rs, w')" "distinct (map pd_Key qs)"
    and "\<forall>q \<in> set qs. fmlookup m (pd_Key q) = fmlookup prevs (pd_Key q)"
  shows "apply_results rs (view_of m) = view_of (next_records m rs)"
  using assms
proof (induction qs arbitrary: w w' m rs)
  case (Cons q qs)
  obtain r w1 where r: "render_provider sha req prevs q w = (Inr r, w1)"
    using Cons.prems(1) by (auto split: prod.splits sum.splits)
  then obtain rs1 w2 where rs: "render_all sha req prevs qs w1 = (Inr rs1, w2)" "rs = r # rs1"
    using Cons.prems(1) by (auto simp: rbind_Inr_iff split: prod.splits)
  note v = render_provider_view [OF r]
  have key: "view_of m (pd_Key q) = view_of prevs (pd_Key q)" using Cons.prems(3) by (simp add: view_of_def)
  let ?m = "if pb_Skipped r then m else fmupd (pb_ProviderKey r) (pb_Record r) m"
  have "(view_of m)(pb_ProviderKey r := apply_diff (pb_Diff r) (view_of m (pb_ProviderKey r))) = view_of ?m"
    using v key by (auto simp: view_update fun_upd_idem)
  moreover have "\<forall>q' \<in> set qs. fmlookup ?m (pd_Key q') = fmlookup prevs (pd_Key q')" using v Cons.prems(2,3) by (auto intro: rev_image_eqI)
  ultimately show ?case using Cons.IH [OF rs(1), of ?m] Cons.prems(2) by (simp add: apply_results_def next_records_def rs(2))
qed (simp add: apply_results_def next_records_def)

text \<open>
  A manager with the renders prepared from it, and a consumer who starts from nothing and applies the
  result of every render that is committed. Any number of renders may be open; the world may change at
  any time. A consumer is told when the records are replaced.
\<close>

record 'w ctx_system =
  cs_manager :: "'w ctx_manager"
  cs_renders :: "prepared_render list"
  cs_seen :: "string \<Rightarrow> string \<rightharpoonup> string"
  cs_world :: 'w

definition new_ctx_system :: "'w \<Rightarrow> 'w ctx_system" where
  "new_ctx_system w = \<lparr>cs_manager = NewCtxManager, cs_renders = [], cs_seen = (\<lambda>p k. None), cs_world = w\<rparr>"

inductive ctx_step :: "(string \<Rightarrow> string) \<Rightarrow> 'w ctx_system \<Rightarrow> 'w ctx_system \<Rightarrow> bool" for sha where
  Register: "Manager_Register qs (cs_manager s) = (e, m) \<Longrightarrow> ctx_step sha s (s\<lparr>cs_manager := m\<rparr>)"
| Prepare: "Manager_Prepare sha req (cs_manager s) (cs_world s) = (Inr r, w) \<Longrightarrow>
    ctx_step sha s (s\<lparr>cs_renders := cs_renders s @ [r], cs_world := w\<rparr>)"
| PrepareFails: "Manager_Prepare sha req (cs_manager s) (cs_world s) = (Inl e, w) \<Longrightarrow> ctx_step sha s (s\<lparr>cs_world := w\<rparr>)"
| Commit: "i < length (cs_renders s) \<Longrightarrow> Render_Commit (cs_renders s ! i) (cs_manager s) = (None, r, m) \<Longrightarrow>
    ctx_step sha s (s\<lparr>cs_manager := m, cs_renders := (cs_renders s)[i := r],
      cs_seen := apply_results (bd_Providers (pp_Result r)) (cs_seen s)\<rparr>)"
| CommitFails: "i < length (cs_renders s) \<Longrightarrow> Render_Commit (cs_renders s ! i) (cs_manager s) = (Some e, r, m) \<Longrightarrow>
    ctx_step sha s (s\<lparr>cs_manager := m, cs_renders := (cs_renders s)[i := r]\<rparr>)"
| Rollback: "i < length (cs_renders s) \<Longrightarrow> ctx_step sha s (s\<lparr>cs_renders := (cs_renders s)[i := Render_Rollback (cs_renders s ! i)]\<rparr>)"
| SetRecords: "ctx_step sha s (s\<lparr>cs_manager := Manager_SetRecords rs (cs_manager s), cs_seen := view_of rs\<rparr>)"
| World: "ctx_step sha s (s\<lparr>cs_world := w\<rparr>)"

definition render_ok :: "'w ctx_manager \<Rightarrow> prepared_render \<Rightarrow> bool" where
  "render_ok m r \<longleftrightarrow> pp_version r \<le> cm_version m \<and> (pp_version r = cm_version m \<longrightarrow>
     apply_results (bd_Providers (pp_Result r)) (view_of (cm_records m)) = view_of (pp_records r))"

definition ctx_inv :: "'w ctx_system \<Rightarrow> bool" where
  "ctx_inv s \<longleftrightarrow> cs_seen s = view_of (cm_records (cs_manager s)) \<and> distinct (map pd_Key (cm_providers (cs_manager s))) \<and>
     (\<forall>r \<in> set (cs_renders s). render_ok (cs_manager s) r)"

lemma register_distinct: "register_loop ps qs = (e, ps') \<Longrightarrow> distinct (map pd_Key ps) \<Longrightarrow> distinct (map pd_Key ps')"
  by (induction ps qs arbitrary: e ps' rule: register_loop.induct) (auto split: if_splits)

lemma Manager_Register_kept:
  assumes "Manager_Register qs m = (e, m')" "distinct (map pd_Key (cm_providers m))"
  shows "cm_records m' = cm_records m \<and> cm_version m' = cm_version m \<and> distinct (map pd_Key (cm_providers m'))"
proof -
  obtain e' ps where r: "register_loop (cm_providers m) qs = (e', ps)" by fastforce
  have "mset (map pd_Key (sort_key pd_Key ps)) = mset (map pd_Key ps)" by simp
  with register_distinct [OF r assms(2)] have "distinct (map pd_Key (sort_key pd_Key ps))" by (metis mset_eq_imp_distinct_iff)
  then show ?thesis using assms(1) r register_distinct [OF r assms(2)] by (auto simp: Manager_Register_def split: option.splits)
qed

lemma Manager_Prepare_ok:
  assumes "Manager_Prepare sha req m w = (Inr r, w')" "distinct (map pd_Key (cm_providers m))"
  shows "render_ok m r"
proof -
  obtain rs where "render_all sha req (cm_records m) (cm_providers m) w = (Inr rs, w')" "bd_Providers (pp_Result r) = rs"
    "pp_records r = next_records (cm_records m) rs" "pp_version r = cm_version m"
    using assms(1) by (auto simp: Manager_Prepare_def split: prod.splits sum.splits)
  then show ?thesis using next_records_view assms(2) unfolding render_ok_def by fastforce
qed

lemma render_ok_later: "render_ok m r \<Longrightarrow> cm_version m' = cm_version m + 1 \<Longrightarrow> render_ok m' r"
  by (simp add: render_ok_def)

lemma render_ok_done: "render_ok m r \<Longrightarrow> render_ok m (r\<lparr>pp_done := d\<rparr>)"
  by (simp add: render_ok_def)

lemma ctx_inv_step: "ctx_step sha s s' \<Longrightarrow> ctx_inv s \<Longrightarrow> ctx_inv s'"
proof (induction rule: ctx_step.induct)
  case (Register qs s e m)
  then show ?case using Manager_Register_kept [OF Register(1)] by (auto simp: ctx_inv_def render_ok_def)
next
  case (Prepare req s r w)
  then show ?case using Manager_Prepare_ok [OF Prepare(1)] by (auto simp: ctx_inv_def)
next
  case (Commit i s r m)
  let ?m = "cs_manager s" and ?r = "cs_renders s ! i"
  from Commit(2) have c: "pp_version ?r = cm_version ?m" "r = ?r\<lparr>pp_done := True\<rparr>"
    "m = ?m\<lparr>cm_records := pp_records ?r, cm_version := cm_version ?m + 1\<rparr>"
    by (auto simp: Render_Commit_def split: if_splits)
  have ok: "\<forall>r \<in> set (cs_renders s). render_ok ?m r" and seen: "cs_seen s = view_of (cm_records ?m)"
    using Commit(3) by (simp_all add: ctx_inv_def)
  have i: "render_ok ?m ?r" using ok Commit(1) by simp
  then have "apply_results (bd_Providers (pp_Result r)) (cs_seen s) = view_of (pp_records ?r)"
    using c(1,2) seen by (simp add: render_ok_def)
  moreover have "render_ok m r'" if "r' \<in> set ((cs_renders s)[i := r])" for r'
  proof -
    have "r' = r \<or> r' \<in> set (cs_renders s)" using subsetD [OF set_update_subset_insert that] by simp
    then have "render_ok ?m r'" using ok render_ok_done [OF i] c(2) by auto
    then show ?thesis by (rule render_ok_later) (simp add: c(3))
  qed
  ultimately show ?case using Commit(3) c(3) by (simp add: ctx_inv_def)
next
  case (CommitFails i s e r m)
  then have "r = cs_renders s ! i" "m = cs_manager s" by (auto simp: Render_Commit_def split: if_splits)
  then show ?case using CommitFails(3) by (simp add: ctx_inv_def)
next
  case (Rollback i s)
  then show ?case using set_update_subset_insert [of "cs_renders s" i "Render_Rollback (cs_renders s ! i)"] nth_mem [OF Rollback(1)]
    by (auto simp: ctx_inv_def Render_Rollback_def render_ok_done)
next
  case (SetRecords s rs)
  then show ?case by (auto simp: ctx_inv_def Manager_SetRecords_def intro: render_ok_later)
qed (auto simp: ctx_inv_def)


definition demo_fragment :: context_fragment where
  "demo_fragment = no_fragment\<lparr>cf_Key := ''k'', cf_Content := ''text'', cf_Fingerprint := ''f''\<rparr>"

definition demo_provider :: "unit provider" where
  "demo_provider = \<lparr>pd_Key = ''p'', pd_StateFingerprint = None,
     pd_GetContext = (\<lambda>req w. (Inr \<lparr>pcx_Fragments = [demo_fragment], pcx_Snapshot = None, pcx_Fingerprint = []\<rparr>, w))\<rparr>"

definition demo_build :: build_request where
  "demo_build = \<lparr>brq_ThreadID = ''t'', brq_BranchID = ''main'', brq_TurnID = ''step_1'', brq_Preference = [], brq_TokenBudget = 0,
     brq_Reason = ''turn''\<rparr>"

definition demo_ctx1 :: "unit ctx_system" where
  "demo_ctx1 = (new_ctx_system ())\<lparr>cs_manager := snd (Manager_Register [Some demo_provider] NewCtxManager)\<rparr>"

definition demo_prepared :: prepared_render where
  "demo_prepared = projr (fst (Manager_Prepare id demo_build (cs_manager demo_ctx1) ()))"

definition demo_ctx2 :: "unit ctx_system" where
  "demo_ctx2 = demo_ctx1\<lparr>cs_renders := [demo_prepared, demo_prepared], cs_world := ()\<rparr>"

definition demo_ctx3 :: "unit ctx_system" where
  "demo_ctx3 = demo_ctx2\<lparr>cs_manager := snd (snd (Render_Commit demo_prepared (cs_manager demo_ctx2))),
     cs_renders := [demo_prepared\<lparr>pp_done := True\<rparr>, demo_prepared],
     cs_seen := apply_results (bd_Providers (pp_Result demo_prepared)) (cs_seen demo_ctx2)\<rparr>"

lemma demo_ctx3_reachable: "(ctx_step id)\<^sup>*\<^sup>* (new_ctx_system ()) demo_ctx3"
proof -
  let ?m1 = "cs_manager demo_ctx1"
  have r: "Manager_Register [Some demo_provider] (cs_manager (new_ctx_system ())) = (None, ?m1)"
    by (simp add: demo_ctx1_def new_ctx_system_def Manager_Register_def NewCtxManager_def demo_provider_def)
  have 1: "ctx_step id (new_ctx_system ()) demo_ctx1"
    using ctx_step.Register [OF r, of id] by (simp add: demo_ctx1_def)
  have "isl (fst (Manager_Prepare id demo_build ?m1 ())) = False" by code_simp
  then have p: "Manager_Prepare id demo_build ?m1 () = (Inr demo_prepared, ())"
    unfolding demo_prepared_def by (cases "Manager_Prepare id demo_build ?m1 ()") (auto simp: isl_def split: sum.splits)
  let ?s = "demo_ctx1\<lparr>cs_renders := [demo_prepared], cs_world := ()\<rparr>"
  have n: "cs_renders demo_ctx1 = []" by (simp add: demo_ctx1_def new_ctx_system_def)
  have 2: "ctx_step id demo_ctx1 ?s" using ctx_step.Prepare [of id demo_build demo_ctx1 demo_prepared "()"] p n by simp
  have 3: "ctx_step id ?s demo_ctx2"
    using ctx_step.Prepare [of id demo_build ?s demo_prepared "()"] p by (simp add: demo_ctx2_def)
  have c: "\<not> pp_done demo_prepared" "cm_version (cs_manager demo_ctx2) = pp_version demo_prepared" by code_simp+
  then have "Render_Commit demo_prepared (cs_manager demo_ctx2) =
      (None, demo_prepared\<lparr>pp_done := True\<rparr>, snd (snd (Render_Commit demo_prepared (cs_manager demo_ctx2))))"
    by (simp add: Render_Commit_def)
  then have 4: "ctx_step id demo_ctx2 demo_ctx3"
    using ctx_step.Commit [of 0 demo_ctx2 "demo_prepared\<lparr>pp_done := True\<rparr>" _ id] by (simp add: demo_ctx3_def demo_ctx2_def)
  from 1 2 3 4 show ?thesis by (meson converse_rtranclp_into_rtranclp rtranclp.rtrancl_refl)
qed


text \<open>A registration that fails has registered the providers before the one it refuses, unsorted.\<close>

lemma failed_register_keeps_earlier:
  assumes "pd_Key q \<noteq> []" "pd_Key q \<notin> pd_Key ` set (cm_providers m)"
  shows "Manager_Register [Some q, None] m = (Some ProviderNil, m\<lparr>cm_providers := cm_providers m @ [q]\<rparr>)"
  using assms by (simp add: Manager_Register_def)

end
