(* ===== verification/Live_Log.thy ===== *)
theory Live_Log
  imports Jsonl_Store
begin

text \<open>
  The interface \<^verbatim>\<open>thread.Live\<close> together with \<^verbatim>\<open>thread.Store.Read\<close>, as its clients in \<^verbatim>\<open>src/runtime\<close> use it: a
  handle appends events to one branch, and reading the thread back shows that branch with the events
  at its end. The contract is a locale; the memory store and the JSON line store provide it.
\<close>

text \<open>What an event looks like in the log: what its writer set is kept.\<close>

definition logged :: "string \<Rightarrow> event \<Rightarrow> event \<Rightarrow> bool" where
  "logged b e n \<longleftrightarrow> ev_Kind n = ev_Kind e \<and> ev_Payload n = ev_Payload e \<and> ev_NodeID n = ev_NodeID e \<and>
     ev_ParentNodeID n = ev_ParentNodeID e \<and> ev_BranchID n = (if ev_BranchID e = [] then b else ev_BranchID e) \<and>
     (ev_At e \<noteq> zero_time \<longrightarrow> ev_At n = ev_At e) \<and> (ev_Source e \<noteq> no_source \<longrightarrow> ev_Source n = ev_Source e)"

text \<open>An event a client writes to its branch: none of those by which the store describes the thread itself.\<close>

definition own_event :: "string \<Rightarrow> event \<Rightarrow> bool" where
  "own_event b e \<longleftrightarrow> ev_Kind e \<notin> set core_kinds \<and> (ev_BranchID e = [] \<or> ev_BranchID e = b)"

definition read_view :: "('e, stored) result \<Rightarrow> string \<Rightarrow> event list option" where
  "read_view r b =
     (case r of Inl _ \<Rightarrow> None | Inr st \<Rightarrow> (case EventsForBranch st b of Some (Inr es) \<Rightarrow> Some es | _ \<Rightarrow> None))"

text \<open>
  A handle: \<^term>\<open>append\<close> over its state, the events a reader finds on its branch, the states in which it is
  the writer of its branch, and those whose numbers the store can represent.
\<close>

locale live_log =
  fixes append :: "go_ctx \<Rightarrow> gen \<Rightarrow> event list \<Rightarrow> 's \<Rightarrow> ('e, unit) result \<times> 's"
    and view :: "'s \<Rightarrow> event list option"
    and branch :: string
    and ok :: "'s \<Rightarrow> bool"
    and fits :: "'s \<Rightarrow> bool"
  assumes branch_named: "ok s \<Longrightarrow> branch \<noteq> []"
    and view_some: "ok s \<Longrightarrow> \<exists>es. view s = Some es"
    and append_ok: "ok s \<Longrightarrow> append ctx g es s = (Inr (), s') \<Longrightarrow> \<forall>e \<in> set es. own_event branch e \<Longrightarrow> fits s' \<Longrightarrow> ok s'"
    and append_logged: "ok s \<Longrightarrow> append ctx g es s = (Inr (), s') \<Longrightarrow> \<forall>e \<in> set es. own_event branch e \<Longrightarrow> fits s' \<Longrightarrow>
      view s = Some old \<Longrightarrow> \<exists>new. view s' = Some (old @ new) \<and> list_all2 (logged branch) es new"

section \<open>What the stores log\<close>

lemma logged_trans: "logged b e n \<Longrightarrow> logged b n n' \<Longrightarrow> b \<noteq> [] \<Longrightarrow> logged b e n'"
  by (auto simp: logged_def split: if_splits)

lemma logged_live_event: "logged (ml_branchID l) e (live_event l e)"
  by (auto simp: logged_def live_event_def Let_def no_source_def)

lemma logged_stamp: "b \<noteq> [] \<Longrightarrow> logged b e (stamp_event g b t e)"
  by (auto simp: logged_def stamp_event_def Let_def)

lemma appendLocked_logged:
  assumes "b \<noteq> []"
  shows "\<exists>new. mt_events (appendLocked g b t es) = mt_events t @ new \<and> list_all2 (logged b) es new"
proof (induction es arbitrary: t)
  case (Cons e es)
  let ?n = "stamp_event g b t e"
  let ?t = "t\<lparr>mt_nextSeq := mt_nextSeq t + 1, mt_events := mt_events t @ [?n], mt_updatedAt := ev_At ?n\<rparr>"
  obtain new where "mt_events (appendLocked g b ?t es) = mt_events ?t @ new" "list_all2 (logged b) es new"
    using Cons.IH [of ?t] by blast
  then show ?case using logged_stamp [OF assms, of e g t] by (intro exI [of _ "?n # new"]) (simp add: Let_def)
qed simp

text \<open>An append through a handle of a memory store, seen on the branch of the handle.\<close>

lemma memory_append_logged:
  assumes "store_inv s" "memoryLive_Append ctx g l es s = (Inr (), s')" "ml_branchID l \<noteq> []"
    "fmlookup (ms_threads s) (ml_threadID l) = Some t" "fmlookup (mt_branches t) (ml_branchID l) = Some br"
    and own: "\<forall>e \<in> set es. ev_BranchID e = [] \<or> ev_BranchID e = ml_branchID l"
  obtains t' new old where "fmlookup (ms_threads s') (ml_threadID l) = Some t'" "mt_branches t' = mt_branches t"
    "EventsForBranch (snapshot t) (ml_branchID l) = Some (Inr old)"
    "EventsForBranch (snapshot t') (ml_branchID l) = Some (Inr (old @ new))" "list_all2 (logged (ml_branchID l)) es new"
proof -
  let ?b = "ml_branchID l"
  from append_view [OF assms(1-5)] obtain t' new old where n: "fmlookup (ms_threads s') (ml_threadID l) = Some t'"
    "mt_events t' = mt_events t @ new" "EventsForBranch (snapshot t) ?b = Some (Inr old)"
    "EventsForBranch (snapshot t') ?b = Some (Inr (old @ filter (\<lambda>e. ev_BranchID e = ?b) new))" by blast
  have l: "list_all2 (logged ?b) es new \<and> mt_branches t' = mt_branches t"
  proof (cases "es = []")
    case True
    then have "s' = s" using assms(2) by (simp add: memoryLive_Append_def split: option.splits)
    with True n(1,2) assms(4) show ?thesis by simp
  next
    case False
    obtain batch where batch: "live_batch s l es = Inr batch"
      and s': "s' = put_thread (ml_threadID l) (appendLocked g ?b t batch) s"
      using Append_success [OF assms(2) False] assms(4) by (metis option.inject)
    then have t': "t' = appendLocked g ?b t batch" using n(1) by (simp add: put_thread_def)
    obtain new' where "mt_events t' = mt_events t @ new'" "list_all2 (logged ?b) batch new'"
      using appendLocked_logged [OF assms(3)] t' by blast
    then have "list_all2 (logged ?b) (map (live_event l) es) new" using n(2) live_batch_map [OF batch] by simp
    then have "list_all2 (logged ?b) es new"
      unfolding list_all2_map1 by (rule list_all2_mono) (metis logged_trans logged_live_event assms(3))
    then show ?thesis unfolding t' by simp
  qed
  have "\<forall>e \<in> set new. ev_BranchID e = ?b"
    using conjunct1 [OF l] own by (induction rule: list_all2_induct) (auto simp: logged_def)
  then have "filter (\<lambda>e. ev_BranchID e = ?b) new = new" by (simp add: filter_True)
  with n l show thesis using that by simp
qed

section \<open>The memory store\<close>

definition memory_view :: "memory_live \<Rightarrow> memory_store \<Rightarrow> event list option" where
  "memory_view l s = read_view (MemoryStore_Read None (ml_threadID l) s) (ml_branchID l)"

definition memory_ok :: "memory_live \<Rightarrow> memory_store \<Rightarrow> bool" where
  "memory_ok l s \<longleftrightarrow> store_inv s \<and> ml_branchID l \<noteq> [] \<and>
     (\<exists>t. fmlookup (ms_threads s) (ml_threadID l) = Some t \<and> fmlookup (mt_branches t) (ml_branchID l) \<noteq> None)"

lemma memory_view_eq:
  "fmlookup (ms_threads s) (ml_threadID l) = Some t \<Longrightarrow> EventsForBranch (snapshot t) (ml_branchID l) = Some (Inr es) \<Longrightarrow>
     memory_view l s = Some es"
  by (simp add: memory_view_def read_view_def MemoryStore_Read_def)

interpretation mem_log: live_log "\<lambda>ctx g es s. memoryLive_Append ctx g l es s" "memory_view l" "ml_branchID l" "memory_ok l" "\<lambda>_. True"
  for l :: memory_live
proof unfold_locales
  fix s
  assume "memory_ok l s"
  then obtain t br where t: "store_inv s" "fmlookup (ms_threads s) (ml_threadID l) = Some t" "fmlookup (mt_branches t) (ml_branchID l) = Some br"
    by (auto simp: memory_ok_def)
  then have "thread_inv t" using store_invD by blast
  then show "\<exists>es. memory_view l s = Some es" using view_exists [OF _ t(3)] memory_view_eq [OF t(2)] by metis
next
  fix s ctx g es s'
  assume ok: "memory_ok l s" and a: "memoryLive_Append ctx g l es s = (Inr (), s')" and own: "\<forall>e \<in> set es. own_event (ml_branchID l) e"
  then obtain t br where t: "store_inv s" "ml_branchID l \<noteq> []" "fmlookup (ms_threads s) (ml_threadID l) = Some t"
    "fmlookup (mt_branches t) (ml_branchID l) = Some br" by (auto simp: memory_ok_def)
  obtain t' new old where n: "fmlookup (ms_threads s') (ml_threadID l) = Some t'" "mt_branches t' = mt_branches t"
    "EventsForBranch (snapshot t) (ml_branchID l) = Some (Inr old)"
    "EventsForBranch (snapshot t') (ml_branchID l) = Some (Inr (old @ new))" "list_all2 (logged (ml_branchID l)) es new"
    by (rule memory_append_logged [OF t(1) a t(2-4)]) (use own in \<open>auto simp: own_event_def\<close>)
  have "store_inv s'" using Append_inv [OF t(1) a] by simp
  then show "memory_ok l s'" using n(1,2) t(2,4) by (simp add: memory_ok_def)
  show "\<exists>new. memory_view l s' = Some (old' @ new) \<and> list_all2 (logged (ml_branchID l)) es new" if "memory_view l s = Some old'" for old'
    using that memory_view_eq [OF n(1,4)] memory_view_eq [OF t(3) n(3)] n(5) by simp
qed (simp add: memory_ok_def)

section \<open>The JSON line store\<close>

definition jsonl_append :: "go_ctx \<Rightarrow> gen \<Rightarrow> event list \<Rightarrow> live_thread \<times> jsonl_store \<Rightarrow> (jsonl_error, unit) result \<times> live_thread \<times> jsonl_store" where
  "jsonl_append ctx g es st = (case st of (l, s) \<Rightarrow> liveThread_Append ctx g es l s)"

definition jsonl_view :: "string \<Rightarrow> string \<Rightarrow> live_thread \<times> jsonl_store \<Rightarrow> event list option" where
  "jsonl_view tid b st = read_view (jsonl_Read None tid (snd st)) b"

definition jsonl_ok :: "string \<Rightarrow> string \<Rightarrow> live_thread \<times> jsonl_store \<Rightarrow> bool" where
  "jsonl_ok tid b st \<longleftrightarrow> (case st of (l, s) \<Rightarrow> lt_threadID l = tid \<and> lt_branchID l = b \<and> (\<exists>m. synced s m l) \<and>
     (\<exists>t. fmlookup (ms_threads (lt_memory l)) tid = Some t \<and> fmlookup (mt_branches t) b \<noteq> None))"

lemma EventsForBranch_cong:
  "st_Branches st = st_Branches st' \<Longrightarrow> st_Events st = st_Events st' \<Longrightarrow> st_BranchID st = st_BranchID st' \<Longrightarrow>
     EventsForBranch st b = EventsForBranch st' b"
  by (simp add: EventsForBranch_def branchWindows_def Let_def)

lemma same_thread_view: "same_thread t t' \<Longrightarrow> EventsForBranch (snapshot t') b = EventsForBranch (snapshot t) b"
  by (rule EventsForBranch_cong) (simp_all add: snapshot_def same_thread_iff)

lemma jsonl_view_eq:
  assumes "synced s m l" "fmlookup (ms_threads (lt_memory l)) (lt_threadID l) = Some t"
    "EventsForBranch (snapshot t) b = Some (Inr es)"
  shows "jsonl_view (lt_threadID l) b (l, s) = Some es"
proof -
  obtain tm where tm: "disk_rep s m" "fmlookup (ms_threads m) (lt_threadID l) = Some tm" "same_thread tm t"
    using assms(1,2) by (auto simp: synced_def handle_ok_def)
  obtain m' where m': "loadMemory None s = Inr m'" "same_store m m'" using load_disk [OF tm(1)] by blast
  then obtain t' where t': "fmlookup (ms_threads m') (lt_threadID l) = Some t'" "same_thread tm t'"
    using tm(2) by (auto simp: same_store_def dest!: spec [of _ "lt_threadID l"] elim: option.rel_cases)
  have "EventsForBranch (snapshot t') b = Some (Inr es)"
    using same_thread_view [OF t'(2)] same_thread_view [OF tm(3)] assms(3) by simp
  then show ?thesis using m'(1) t'(1) by (simp add: jsonl_view_def jsonl_Read_def read_view_def MemoryStore_Read_def lift_thread_def)
qed

lemma jsonl_okE:
  assumes "jsonl_ok tid b (l, s)"
  obtains m t br where "synced s m l" "handle_ok l t" "lt_threadID l = tid" "lt_branchID l = b"
    "fmlookup (ms_threads (lt_memory l)) tid = Some t" "fmlookup (mt_branches t) b = Some br" "store_inv (lt_memory l)" "b \<noteq> []"
proof -
  obtain m t br where h: "synced s m l" "lt_threadID l = tid" "lt_branchID l = b"
    "fmlookup (ms_threads (lt_memory l)) tid = Some t" "fmlookup (mt_branches t) b = Some br"
    using assms unfolding jsonl_ok_def by auto
  obtain t1 where "handle_ok l t1" using h(1) unfolding synced_def by blast
  moreover from this have "t1 = t" "store_inv (lt_memory l)" "b \<noteq> []" using h(2-4) by (auto simp: handle_ok_def)
  ultimately show thesis using that h by blast
qed

lemma jsonl_append_logged:
  assumes "jsonl_ok tid b (l, s)" "liveThread_Append ctx g es l s = (Inr (), l', s')" "\<forall>e \<in> set es. own_event b e" "ints_ok (lt_memory l')"
  shows "jsonl_ok tid b (l', s') \<and> (\<exists>old new. jsonl_view tid b (l, s) = Some old \<and> jsonl_view tid b (l', s') = Some (old @ new) \<and>
    list_all2 (logged b) es new)"
proof -
  obtain m t br where h: "synced s m l" "handle_ok l t" "lt_threadID l = tid" "lt_branchID l = b"
    "fmlookup (ms_threads (lt_memory l)) tid = Some t" "fmlookup (mt_branches t) b = Some br" "store_inv (lt_memory l)" "b \<noteq> []"
    using assms(1) by (rule jsonl_okE)
  show ?thesis
  proof (cases "es = []")
    case True
    then have same: "l' = l" "s' = s" using assms(2) by (auto simp: liveThread_Append_def split: if_splits)
    have "thread_inv t" using store_invD [OF h(7,5)] by simp
    then obtain old where "jsonl_view tid b (l, s) = Some old"
      using view_exists [OF _ h(6)] jsonl_view_eq [OF h(1), of t b] h(3,5) by metis
    then show ?thesis using True same assms(1) by simp
  next
    case False
    let ?live = "\<lparr>ml_threadID = tid, ml_branchID = b, ml_source = lt_source l, ml_closed = False\<rparr>"
    obtain n where a: "memoryLive_Append None g ?live es (lt_memory l) = (Inr (), lt_memory l')"
      and l': "l' = l\<lparr>lt_memory := lt_memory l', lt_nextSeq := n\<rparr>"
      using live_append_success [OF h(2) assms(2) False] h(3,4) by blast
    have pl: "\<forall>e \<in> set es. plain_event t e" using assms(3) h(6) by (auto simp: own_event_def plain_event_def)
    obtain m2 where m2: "synced s' m2 l'"
      using live_append_on_disk [OF h(1) assms(2) False assms(4) _ pl] h(3,5) by blast
    obtain t' new old where n: "fmlookup (ms_threads (lt_memory l')) tid = Some t'" "mt_branches t' = mt_branches t"
      "EventsForBranch (snapshot t) b = Some (Inr old)" "EventsForBranch (snapshot t') b = Some (Inr (old @ new))" "list_all2 (logged b) es new"
      by (rule memory_append_logged [OF h(7) a]) (use h(5,6,8) assms(3) in \<open>auto simp: own_event_def\<close>)
    have i: "lt_threadID l' = tid" "lt_branchID l' = b" using h(3,4) by (subst l', simp)+
    have "jsonl_ok tid b (l', s')" using m2 n(1,2) h(6) i by (auto simp: jsonl_ok_def)
    moreover have "jsonl_view tid b (l', s') = Some (old @ new)" using jsonl_view_eq [OF m2, of t' b] n(1,4) i by simp
    moreover have "jsonl_view tid b (l, s) = Some old" using jsonl_view_eq [OF h(1), of t b] n(3) h(3,5) by simp
    ultimately show ?thesis using n(5) by blast
  qed
qed

interpretation jsonl_log: live_log jsonl_append "jsonl_view tid b" b "jsonl_ok tid b" "\<lambda>st. ints_ok (lt_memory (fst st))"
  for tid b :: string
proof unfold_locales
  fix st :: "live_thread \<times> jsonl_store"
  assume ok: "jsonl_ok tid b st"
  then obtain l s m t br where st: "st = (l, s)" "synced s m l" "fmlookup (ms_threads (lt_memory l)) tid = Some t" "fmlookup (mt_branches t) b = Some br"
    "lt_threadID l = tid" "store_inv (lt_memory l)" "b \<noteq> []" by (cases st) (auto elim: jsonl_okE)
  then show "b \<noteq> []" by simp
  have "thread_inv t" using store_invD [OF st(6,3)] by simp
  then show "\<exists>es. jsonl_view tid b st = Some es" using view_exists [OF _ st(4)] jsonl_view_eq [OF st(2), of t b] st(1,3,5) by metis
next
  fix st ctx g es st'
  assume a: "jsonl_ok tid b st" "jsonl_append ctx g es st = (Inr (), st')" "\<forall>e \<in> set es. own_event b e" "ints_ok (lt_memory (fst st'))"
  obtain l s l' s' where st: "st = (l, s)" "st' = (l', s')" by (metis surj_pair)
  have *: "jsonl_ok tid b st' \<and> (\<exists>old new. jsonl_view tid b st = Some old \<and> jsonl_view tid b st' = Some (old @ new) \<and> list_all2 (logged b) es new)"
    unfolding st by (rule jsonl_append_logged) (use a in \<open>simp_all add: st jsonl_append_def\<close>)
  then show "jsonl_ok tid b st'" ..
  show "\<exists>new. jsonl_view tid b st' = Some (old @ new) \<and> list_all2 (logged b) es new" if "jsonl_view tid b st = Some old" for old
    using * that by auto
qed

end
