(* ===== verification/Go_Base64.thy ===== *)
theory Go_Base64
  imports Prelude
begin

text \<open>
  \<^verbatim>\<open>base64.StdEncoding\<close>, with which \<^verbatim>\<open>encoding/json\<close> writes a byte slice as a string: encoding with padding,
  and decoding, which skips line breaks and does not check the bits behind the last byte.
\<close>

definition b64_digit :: "nat \<Rightarrow> char" where
  "b64_digit n =
     (if n < 26 then char_of (65 + n) else if n < 52 then char_of (71 + n) else if n < 62 then char_of (n - 4)
      else if n = 62 then CHR ''+'' else CHR ''/'')"

definition b64_val :: "char \<Rightarrow> nat option" where
  "b64_val c =
     (let n = of_char c in
      if 65 \<le> n \<and> n \<le> 90 then Some (n - 65) else if 97 \<le> n \<and> n \<le> 122 then Some (n - 71)
      else if 48 \<le> n \<and> n \<le> 57 then Some (n + 4) else if c = CHR ''+'' then Some 62 else if c = CHR ''/'' then Some 63
      else None)"

fun b64_enc :: "nat list \<Rightarrow> string" where
  "b64_enc [] = []"
| "b64_enc [a] = [b64_digit (a div 4), b64_digit (a mod 4 * 16), CHR ''='', CHR ''='']"
| "b64_enc [a, b] = [b64_digit (a div 4), b64_digit (a mod 4 * 16 + b div 16), b64_digit (b mod 16 * 4), CHR ''='']"
| "b64_enc (a # b # c # bs) =
     b64_digit (a div 4) # b64_digit (a mod 4 * 16 + b div 16) # b64_digit (b mod 16 * 4 + c div 64) # b64_digit (c mod 64) # b64_enc bs"

fun b64_dec :: "string \<Rightarrow> nat list option" where
  "b64_dec [] = Some []"
| "b64_dec (p # q # r # s # cs) =
     (case (b64_val p, b64_val q) of
        (Some x, Some y) \<Rightarrow>
          if r = CHR ''='' \<and> s = CHR ''='' \<and> cs = [] then Some [x * 4 + y div 16]
          else (case b64_val r of
            None \<Rightarrow> None
          | Some z \<Rightarrow>
              if s = CHR ''='' \<and> cs = [] then Some [x * 4 + y div 16, y mod 16 * 16 + z div 4]
              else (case b64_val s of
                None \<Rightarrow> None
              | Some w \<Rightarrow> map_option (\<lambda>bs. (x * 4 + y div 16) # (y mod 16 * 16 + z div 4) # (z mod 4 * 64 + w) # bs) (b64_dec cs)))
      | _ \<Rightarrow> None)"
| "b64_dec _ = None"

definition Base64_Encode :: "string \<Rightarrow> string" where
  "Base64_Encode s = b64_enc (map of_char s)"

definition Base64_Decode :: "string \<Rightarrow> string option" where
  "Base64_Decode s = map_option (map char_of) (b64_dec (filter (\<lambda>c. c \<noteq> CHR 0x0A \<and> c \<noteq> CHR 0x0D) s))"

lemma b64_val_digit [simp]: "n < 64 \<Longrightarrow> b64_val (b64_digit n) = Some n"
  by (auto simp: b64_val_def b64_digit_def Let_def)

lemma b64_no_digit: "b64_val (CHR ''='') = None" "b64_val (CHR 0x0A) = None" "b64_val (CHR 0x0D) = None"
  by (simp_all add: b64_val_def)

lemma b64_digit_sel [simp]:
  "n < 64 \<Longrightarrow> b64_digit n \<noteq> CHR ''=''" "n < 64 \<Longrightarrow> b64_digit n \<noteq> CHR 0x0A" "n < 64 \<Longrightarrow> b64_digit n \<noteq> CHR 0x0D"
  using b64_val_digit b64_no_digit by (metis option.distinct(1))+

lemma b64_small [simp]:
  "a < 256 \<Longrightarrow> a div 4 < (64 :: nat)" "b < 256 \<Longrightarrow> a mod 4 * 16 + b div 16 < (64 :: nat)" "c < 256 \<Longrightarrow> b mod 16 * 4 + c div 64 < (64 :: nat)"
  "a mod 4 * 16 < (64 :: nat)" "b mod 16 * 4 < (64 :: nat)"
proof -
  have m: "a mod 4 \<le> 3" "b mod 16 \<le> 15" using mod_less_divisor [of 4 a] mod_less_divisor [of 16 b] by linarith+
  show "a < 256 \<Longrightarrow> a div 4 < 64" by (simp add: div_less_iff_less_mult)
  show "a mod 4 * 16 < 64" "b mod 16 * 4 < 64" using m by linarith+
  show "b < 256 \<Longrightarrow> a mod 4 * 16 + b div 16 < 64"
    using m(1) div_less_iff_less_mult [of 16 b 16] by linarith
  show "c < 256 \<Longrightarrow> b mod 16 * 4 + c div 64 < 64"
    using m(2) div_less_iff_less_mult [of 64 c 4] by linarith
qed

lemma b64_bits [simp]:
  "b < 256 \<Longrightarrow> b div 16 div 16 = (0 :: nat)" "b < 256 \<Longrightarrow> b div 16 mod 16 * 16 + b mod 16 = (b :: nat)"
  "c < 256 \<Longrightarrow> c div 64 div 4 = (0 :: nat)" "c < 256 \<Longrightarrow> c div 64 mod 4 * 64 + c mod 64 = (c :: nat)"
  by (simp_all add: div_mult2_eq [symmetric] mod_less div_less_iff_less_mult)

lemma b64_dec_enc: "\<forall>b \<in> set bs. b < 256 \<Longrightarrow> b64_dec (b64_enc bs) = Some bs"
  by (induction bs rule: b64_enc.induct) simp_all

lemma b64_enc_lines: "\<forall>b \<in> set bs. b < 256 \<Longrightarrow> filter (\<lambda>c. c \<noteq> CHR 0x0A \<and> c \<noteq> CHR 0x0D) (b64_enc bs) = b64_enc bs"
  by (induction bs rule: b64_enc.induct) simp_all

lemma Base64_roundtrip [simp]: "Base64_Decode (Base64_Encode s) = Some s"
  using b64_dec_enc [of "map of_char s"] b64_enc_lines [of "map of_char s"]
  by (simp add: Base64_Decode_def Base64_Encode_def comp_def)

end
