(* ===== verification/Context_Runtime.thy ===== *)
theory Context_Runtime
  imports Agent_Context Live_Log Go_Base64
begin

text \<open>
  Context renders in a thread (the context part of \<^verbatim>\<open>src/runtime/thread_runtime.go\<close>): the events a render
  appends, the payloads and their JSON, and the replay that gives a resumed manager its records. The
  capability part of the runtime is in the theory of capabilities.
\<close>

section \<open>JSON of render records\<close>

fun dec_map_entries :: "'a decoder \<Rightarrow> 'a \<Rightarrow> (string, 'a) fmap \<Rightarrow> (string \<times> json) list \<Rightarrow> (json_error, (string, 'a) fmap) result" where
  "dec_map_entries dec z m [] = Inr m"
| "dec_map_entries dec z m ((k, j) # kvs) = rbind (dec j z) (\<lambda>v. dec_map_entries dec z (fmupd k v m) kvs)"

fun dec_map :: "'a decoder \<Rightarrow> 'a \<Rightarrow> (string, 'a) fmap decoder" where
  "dec_map dec z (JObj kvs) m = dec_map_entries dec z m kvs"
| "dec_map dec z JNull m = Inr fmempty"
| "dec_map dec z _ m = Inl TypeMismatch"

definition enc_map :: "('a \<Rightarrow> json) \<Rightarrow> (string, 'a) fmap \<Rightarrow> json" where
  "enc_map enc m = JObj (map (\<lambda>k. (k, enc (the (fmlookup m k)))) (fm_keys m))"

fun dec_bytes :: "string decoder" where
  "dec_bytes (JStr t) s = (case Base64_Decode t of None \<Rightarrow> Inl TypeMismatch | Some d \<Rightarrow> Inr d)"
| "dec_bytes JNull s = Inr []"
| "dec_bytes _ s = Inl TypeMismatch"

definition enc_bytes :: "string \<Rightarrow> json" where
  "enc_bytes d = (if d = [] then JNull else JStr (Base64_Encode d))"

text \<open>A pointer: \<^verbatim>\<open>null\<close> is the nil pointer.\<close>

fun dec_ptr :: "'a decoder \<Rightarrow> 'a \<Rightarrow> 'a option decoder" where
  "dec_ptr dec z JNull p = Inr None"
| "dec_ptr dec z j p = map_sum id Some (dec j (case p of None \<Rightarrow> z | Some x \<Rightarrow> x))"

definition enc_ptr :: "('a \<Rightarrow> json) \<Rightarrow> 'a option \<Rightarrow> json" where
  "enc_ptr enc p = (case p of None \<Rightarrow> JNull | Some x \<Rightarrow> enc x)"

lemma dec_entries_fold:
  "(\<And>k v. (k, v) \<in> set kvs \<Longrightarrow> dec (enc v) z = Inr v) \<Longrightarrow>
     dec_map_entries dec z m (map (\<lambda>(k, v). (k, enc v)) kvs) = Inr (fold (\<lambda>(k, v). fmupd k v) kvs m)"
  by (induction kvs arbitrary: m) (auto, metis list.set_intros(1) rbind.simps(2))

lemma fold_fmupd_lookup:
  "distinct (map fst kvs) \<Longrightarrow> fmlookup (fold (\<lambda>(k, v). fmupd k v) kvs m) k = (case map_of kvs k of Some v \<Rightarrow> Some v | None \<Rightarrow> fmlookup m k)"
proof (induction kvs arbitrary: m)
  case (Cons kv kvs)
  obtain k' v where kv: "kv = (k', v)" by (cases kv)
  then have "map_of kvs k' = None" using Cons.prems by (auto simp: map_of_eq_None_iff)
  then show ?case using Cons kv by (auto split: option.splits)
qed simp

lemma dec_enc_map:
  assumes "\<And>k v. fmlookup m k = Some v \<Longrightarrow> dec (enc v) z = Inr v"
  shows "dec_map dec z (enc_map enc m) fmempty = Inr m"
proof -
  let ?kvs = "map (\<lambda>k. (k, the (fmlookup m k))) (fm_keys m)"
  have e: "enc_map enc m = JObj (map (\<lambda>(k, v). (k, enc v)) ?kvs)" by (simp add: enc_map_def comp_def)
  have "dec_map_entries dec z fmempty (map (\<lambda>(k, v). (k, enc v)) ?kvs) = Inr (fold (\<lambda>(k, v). fmupd k v) ?kvs fmempty)"
    using assms by (intro dec_entries_fold) (auto simp: fmlookup_dom_iff)
  moreover have "fold (\<lambda>(k, v). fmupd k v) ?kvs fmempty = m"
  proof (rule fmap_ext)
    fix k
    have d: "distinct (map fst ?kvs)" by (simp add: comp_def fm_keys_def)
    have "map_of ?kvs k = fmlookup m k"
    proof (cases "fmlookup m k")
      case None
      then show ?thesis by (auto simp: map_of_eq_None_iff fmlookup_dom_iff)
    next
      case (Some v)
      then have "(k, v) \<in> set ?kvs" by (auto simp: fmlookup_dom_iff image_iff)
      then show ?thesis using Some map_of_is_SomeI [OF d] by simp
    qed
    then show "fmlookup (fold (\<lambda>(k, v). fmupd k v) ?kvs fmempty) k = fmlookup m k"
      by (simp only: fold_fmupd_lookup [OF d]) (simp split: option.splits)
  qed
  ultimately show ?thesis by (simp add: e)
qed

definition cache_policy_handlers :: "cache_policy handler list" where
  "cache_policy_handlers =
     [(''Stable'', at_field dec_bool cp_Stable (\<lambda>v p. p\<lparr>cp_Stable := v\<rparr>)),
      (''MaxAge'', at_field dec_int cp_MaxAge (\<lambda>v p. p\<lparr>cp_MaxAge := v\<rparr>)),
      (''Scope'', at_field dec_string cp_Scope (\<lambda>v p. p\<lparr>cp_Scope := v\<rparr>))]"

definition enc_cache_policy :: "cache_policy \<Rightarrow> json" where
  "enc_cache_policy p = JObj (fld ''Stable'' (JBool (cp_Stable p)) @ fld ''MaxAge'' (JNum (cp_MaxAge p)) @ fld ''Scope'' (JStr (cp_Scope p)))"

definition no_cache_policy :: cache_policy where
  "no_cache_policy = \<lparr>cp_Stable = False, cp_MaxAge = 0, cp_Scope = []\<rparr>"

definition fragment_handlers :: "context_fragment handler list" where
  "fragment_handlers =
     [(''Key'', at_field dec_string cf_Key (\<lambda>v f. f\<lparr>cf_Key := v\<rparr>)),
      (''Role'', at_field dec_string cf_Role (\<lambda>v f. f\<lparr>cf_Role := v\<rparr>)),
      (''StartMarker'', at_field dec_string cf_StartMarker (\<lambda>v f. f\<lparr>cf_StartMarker := v\<rparr>)),
      (''EndMarker'', at_field dec_string cf_EndMarker (\<lambda>v f. f\<lparr>cf_EndMarker := v\<rparr>)),
      (''Content'', at_field dec_string cf_Content (\<lambda>v f. f\<lparr>cf_Content := v\<rparr>)),
      (''Fingerprint'', at_field dec_string cf_Fingerprint (\<lambda>v f. f\<lparr>cf_Fingerprint := v\<rparr>)),
      (''Authority'', at_field dec_string cf_Authority (\<lambda>v f. f\<lparr>cf_Authority := v\<rparr>)),
      (''CachePolicy'', at_field (dec_struct cache_policy_handlers) cf_CachePolicy (\<lambda>v f. f\<lparr>cf_CachePolicy := v\<rparr>))]"

definition enc_fragment :: "context_fragment \<Rightarrow> json" where
  "enc_fragment f = JObj (fld ''Key'' (JStr (cf_Key f)) @ fld ''Role'' (JStr (cf_Role f)) @ fld ''StartMarker'' (JStr (cf_StartMarker f)) @
     fld ''EndMarker'' (JStr (cf_EndMarker f)) @ fld ''Content'' (JStr (cf_Content f)) @ fld ''Fingerprint'' (JStr (cf_Fingerprint f)) @
     fld ''Authority'' (JStr (cf_Authority f)) @ fld ''CachePolicy'' (enc_cache_policy (cf_CachePolicy f)))"

definition fragment_record_handlers :: "fragment_record handler list" where
  "fragment_record_handlers =
     [(''Key'', at_field dec_string rf_Key (\<lambda>v r. r\<lparr>rf_Key := v\<rparr>)),
      (''Fingerprint'', at_field dec_string rf_Fingerprint (\<lambda>v r. r\<lparr>rf_Fingerprint := v\<rparr>)),
      (''Fragment'', at_field (dec_struct fragment_handlers) rf_Fragment (\<lambda>v r. r\<lparr>rf_Fragment := v\<rparr>)),
      (''Removed'', at_field dec_bool rf_Removed (\<lambda>v r. r\<lparr>rf_Removed := v\<rparr>))]"

definition enc_fragment_record :: "fragment_record \<Rightarrow> json" where
  "enc_fragment_record r = JObj (fld ''Key'' (JStr (rf_Key r)) @ fld ''Fingerprint'' (JStr (rf_Fingerprint r)) @
     fld ''Fragment'' (enc_fragment (rf_Fragment r)) @ fld ''Removed'' (JBool (rf_Removed r)))"

definition no_fragment_record :: fragment_record where
  "no_fragment_record = \<lparr>rf_Key = [], rf_Fingerprint = [], rf_Fragment = no_fragment, rf_Removed = False\<rparr>"

definition snapshot_handlers :: "provider_snapshot handler list" where
  "snapshot_handlers =
     [(''Fingerprint'', at_field dec_string psn_Fingerprint (\<lambda>v s. s\<lparr>psn_Fingerprint := v\<rparr>)),
      (''Data'', at_field dec_bytes psn_Data (\<lambda>v s. s\<lparr>psn_Data := v\<rparr>))]"

definition enc_snapshot :: "provider_snapshot \<Rightarrow> json" where
  "enc_snapshot s = JObj (fld ''Fingerprint'' (JStr (psn_Fingerprint s)) @ fld ''Data'' (enc_bytes (psn_Data s)))"

definition no_snapshot :: provider_snapshot where
  "no_snapshot = \<lparr>psn_Fingerprint = [], psn_Data = []\<rparr>"

definition provider_record_handlers :: "provider_record handler list" where
  "provider_record_handlers =
     [(''ProviderKey'', at_field dec_string pv_ProviderKey (\<lambda>v r. r\<lparr>pv_ProviderKey := v\<rparr>)),
      (''Fingerprint'', at_field dec_string pv_Fingerprint (\<lambda>v r. r\<lparr>pv_Fingerprint := v\<rparr>)),
      (''Snapshot'', at_field (dec_ptr (dec_struct snapshot_handlers) no_snapshot) pv_Snapshot (\<lambda>v r. r\<lparr>pv_Snapshot := v\<rparr>)),
      (''Fragments'', at_field (dec_map (dec_struct fragment_record_handlers) no_fragment_record) pv_Fragments (\<lambda>v r. r\<lparr>pv_Fragments := v\<rparr>))]"

definition enc_provider_record :: "provider_record \<Rightarrow> json" where
  "enc_provider_record r = JObj (fld ''ProviderKey'' (JStr (pv_ProviderKey r)) @ fld ''Fingerprint'' (JStr (pv_Fingerprint r)) @
     fld ''Snapshot'' (enc_ptr enc_snapshot (pv_Snapshot r)) @ fld ''Fragments'' (enc_map enc_fragment_record (pv_Fragments r)))"

definition committed_handlers :: "ctx_records handler list" where
  "committed_handlers = [(''records'', at_field (dec_map (dec_struct provider_record_handlers) no_provider_record) id (\<lambda>v r. v))]"

definition enc_committed :: "ctx_records \<Rightarrow> json" where
  "enc_committed rs = JObj (fld ''records'' (enc_map enc_provider_record rs))"

lemma context_names [simp]:
  "fold_name ''Stable'' = ''stable''" "fold_name ''MaxAge'' = ''maxage''" "fold_name ''Scope'' = ''scope''" "fold_name ''Key'' = ''key''"
  "fold_name ''Role'' = ''role''" "fold_name ''StartMarker'' = ''startmarker''" "fold_name ''EndMarker'' = ''endmarker''"
  "fold_name ''Content'' = ''content''" "fold_name ''Fingerprint'' = ''fingerprint''" "fold_name ''Authority'' = ''authority''"
  "fold_name ''CachePolicy'' = ''cachepolicy''" "fold_name ''Fragment'' = ''fragment''" "fold_name ''Removed'' = ''removed''"
  "fold_name ''Data'' = ''data''" "fold_name ''ProviderKey'' = ''providerkey''" "fold_name ''Snapshot'' = ''snapshot''"
  "fold_name ''Fragments'' = ''fragments''" "fold_name ''records'' = ''records''"
  by code_simp+

interpretation cache_policy_codec: codec enc_cache_policy "dec_struct cache_policy_handlers" no_cache_policy "\<lambda>p. int64_range (cp_MaxAge p)"
  by unfold_locales (simp add: enc_cache_policy_def cache_policy_handlers_def no_cache_policy_def at_field_def)

interpretation fragment_codec: codec enc_fragment "dec_struct fragment_handlers" no_fragment "\<lambda>f. int64_range (cp_MaxAge (cf_CachePolicy f))"
proof unfold_locales
  fix f :: context_fragment
  assume "int64_range (cp_MaxAge (cf_CachePolicy f))"
  then have "dec_struct cache_policy_handlers (enc_cache_policy (cf_CachePolicy f)) \<lparr>cp_Stable = False, cp_MaxAge = 0, cp_Scope = []\<rparr> =
    Inr (cf_CachePolicy f)" using cache_policy_codec.dec_enc by (simp add: no_cache_policy_def)
  then show "dec_struct fragment_handlers (enc_fragment f) no_fragment = Inr f"
    by (simp add: enc_fragment_def fragment_handlers_def no_fragment_def at_field_def)
qed

interpretation fragment_record_codec: codec enc_fragment_record "dec_struct fragment_record_handlers" no_fragment_record
  "\<lambda>r. int64_range (cp_MaxAge (cf_CachePolicy (rf_Fragment r)))"
  by unfold_locales
    (simp add: enc_fragment_record_def fragment_record_handlers_def no_fragment_record_def at_field_def fragment_codec.dec_enc)

lemma dec_enc_bytes [simp]: "dec_bytes (enc_bytes d) s = Inr d"
  by (simp add: enc_bytes_def)

interpretation snapshot_codec: codec enc_snapshot "dec_struct snapshot_handlers" no_snapshot "\<lambda>s. True"
  by unfold_locales (simp add: enc_snapshot_def snapshot_handlers_def no_snapshot_def at_field_def)

definition record_ok :: "provider_record \<Rightarrow> bool" where
  "record_ok r \<longleftrightarrow> (\<forall>f \<in> fmran' (pv_Fragments r). int64_range (cp_MaxAge (cf_CachePolicy (rf_Fragment f))))"

definition records_ok :: "ctx_records \<Rightarrow> bool" where
  "records_ok rs \<longleftrightarrow> (\<forall>r \<in> fmran' rs. record_ok r)"

lemma dec_enc_snapshot_ptr [simp]:
  "dec_ptr (dec_struct snapshot_handlers) no_snapshot (enc_ptr enc_snapshot p) None = Inr p"
proof (cases p)
  case (Some s)
  then show ?thesis using snapshot_codec.dec_enc [of s] by (simp add: enc_ptr_def enc_snapshot_def del: dec_struct.simps)
qed (simp add: enc_ptr_def)

interpretation provider_record_codec: codec enc_provider_record "dec_struct provider_record_handlers" no_provider_record record_ok
proof unfold_locales
  fix r :: provider_record
  assume "record_ok r"
  then have "dec_map (dec_struct fragment_record_handlers) no_fragment_record (enc_map enc_fragment_record (pv_Fragments r)) fmempty = Inr (pv_Fragments r)"
    by (intro dec_enc_map fragment_record_codec.dec_enc) (auto simp: record_ok_def intro: fmran'I)
  then show "dec_struct provider_record_handlers (enc_provider_record r) no_provider_record = Inr r"
    by (simp add: enc_provider_record_def provider_record_handlers_def no_provider_record_def at_field_def)
qed

interpretation committed_codec: codec enc_committed "dec_struct committed_handlers" fmempty records_ok
proof unfold_locales
  fix rs :: ctx_records
  assume "records_ok rs"
  then have "dec_map (dec_struct provider_record_handlers) no_provider_record (enc_map enc_provider_record rs) fmempty = Inr rs"
    by (intro dec_enc_map provider_record_codec.dec_enc) (auto simp: records_ok_def intro: fmran'I)
  then show "dec_struct committed_handlers (enc_committed rs) fmempty = Inr rs"
    by (simp add: enc_committed_def committed_handlers_def at_field_def)
qed

section \<open>Events of a render\<close>

definition EventContextFragmentRecorded :: string where "EventContextFragmentRecorded = ''conversation.context_fragment''"
definition EventContextFragmentRemoved :: string where "EventContextFragmentRemoved = ''conversation.context_fragment_removed''"
definition EventContextSnapshotRecorded :: string where "EventContextSnapshotRecorded = ''harness.context_snapshot_recorded''"
definition EventContextRenderCommitted :: string where "EventContextRenderCommitted = ''harness.context_render_committed''"

lemmas context_kind_defs = EventContextFragmentRecorded_def EventContextFragmentRemoved_def EventContextSnapshotRecorded_def
  EventContextRenderCommitted_def

record fragment_recorded =
  fd_ProviderKey :: string
  fd_FragmentKey :: string
  fd_Role :: string
  fd_Authority :: string
  fd_StartMarker :: string
  fd_EndMarker :: string
  fd_Content :: string
  fd_Fingerprint :: string
  fd_CachePolicy :: cache_policy

definition no_fragment_recorded :: fragment_recorded where
  "no_fragment_recorded = \<lparr>fd_ProviderKey = [], fd_FragmentKey = [], fd_Role = [], fd_Authority = [], fd_StartMarker = [],
     fd_EndMarker = [], fd_Content = [], fd_Fingerprint = [], fd_CachePolicy = no_cache_policy\<rparr>"

definition enc_fragment_recorded :: "fragment_recorded \<Rightarrow> json" where
  "enc_fragment_recorded r = JObj (fld ''provider_key'' (JStr (fd_ProviderKey r)) @ fld ''fragment_key'' (JStr (fd_FragmentKey r)) @
     omit_str ''role'' (fd_Role r) @ omit_str ''authority'' (fd_Authority r) @ omit_str ''start_marker'' (fd_StartMarker r) @
     omit_str ''end_marker'' (fd_EndMarker r) @ fld ''content'' (JStr (fd_Content r)) @ fld ''fingerprint'' (JStr (fd_Fingerprint r)) @
     fld ''cache_policy'' (enc_cache_policy (fd_CachePolicy r)))"

definition fragment_recorded_handlers :: "fragment_recorded handler list" where
  "fragment_recorded_handlers =
     [(''provider_key'', at_field dec_string fd_ProviderKey (\<lambda>v r. r\<lparr>fd_ProviderKey := v\<rparr>)),
      (''fragment_key'', at_field dec_string fd_FragmentKey (\<lambda>v r. r\<lparr>fd_FragmentKey := v\<rparr>)),
      (''role'', at_field dec_string fd_Role (\<lambda>v r. r\<lparr>fd_Role := v\<rparr>)),
      (''authority'', at_field dec_string fd_Authority (\<lambda>v r. r\<lparr>fd_Authority := v\<rparr>)),
      (''start_marker'', at_field dec_string fd_StartMarker (\<lambda>v r. r\<lparr>fd_StartMarker := v\<rparr>)),
      (''end_marker'', at_field dec_string fd_EndMarker (\<lambda>v r. r\<lparr>fd_EndMarker := v\<rparr>)),
      (''content'', at_field dec_string fd_Content (\<lambda>v r. r\<lparr>fd_Content := v\<rparr>)),
      (''fingerprint'', at_field dec_string fd_Fingerprint (\<lambda>v r. r\<lparr>fd_Fingerprint := v\<rparr>)),
      (''cache_policy'', at_field (dec_struct cache_policy_handlers) fd_CachePolicy (\<lambda>v r. r\<lparr>fd_CachePolicy := v\<rparr>))]"

definition no_fragment_removed :: fragment_removed where
  "no_fragment_removed = \<lparr>fr_ProviderKey = [], fr_FragmentKey = [], fr_PreviousFingerprint = []\<rparr>"

definition enc_fragment_removed :: "fragment_removed \<Rightarrow> json" where
  "enc_fragment_removed r = JObj (fld ''provider_key'' (JStr (fr_ProviderKey r)) @ fld ''fragment_key'' (JStr (fr_FragmentKey r)) @
     fld ''previous_fingerprint'' (JStr (fr_PreviousFingerprint r)))"

definition fragment_removed_handlers :: "fragment_removed handler list" where
  "fragment_removed_handlers =
     [(''provider_key'', at_field dec_string fr_ProviderKey (\<lambda>v r. r\<lparr>fr_ProviderKey := v\<rparr>)),
      (''fragment_key'', at_field dec_string fr_FragmentKey (\<lambda>v r. r\<lparr>fr_FragmentKey := v\<rparr>)),
      (''previous_fingerprint'', at_field dec_string fr_PreviousFingerprint (\<lambda>v r. r\<lparr>fr_PreviousFingerprint := v\<rparr>))]"

definition enc_snapshot_ref :: "provider_record \<Rightarrow> json" where
  "enc_snapshot_ref r =
     (let fp = (case pv_Snapshot r of Some sn \<Rightarrow> if pv_Fingerprint r = [] then psn_Fingerprint sn else pv_Fingerprint r | None \<Rightarrow> pv_Fingerprint r);
          inl = (case pv_Snapshot r of Some sn \<Rightarrow> psn_Data sn | None \<Rightarrow> [])
      in JObj (omit_str ''fingerprint'' fp @ (if inl = [] then [] else fld ''inline'' (enc_bytes inl))))"

text \<open>\<^verbatim>\<open>contextSnapshotFromRender\<close>: the last result of a provider key wins, as in a Go map.\<close>

definition contextSnapshotFromRender :: "prepared_render \<Rightarrow> json" where
  "contextSnapshotFromRender r =
     (let refs = fold (\<lambda>p m. fmupd (pb_ProviderKey p) (pb_Record p) m) (bd_Providers (pp_Result r)) fmempty
      in JObj (omit_str ''turn_id'' (bd_TurnID (pp_Result r)) @ omit_str ''reason'' (bd_Reason (pp_Result r)) @
           (if refs = fmempty then [] else fld ''providers'' (enc_map enc_snapshot_ref refs))))"

definition providerKeyForFragment :: "build_result \<Rightarrow> string \<Rightarrow> string" where
  "providerKeyForFragment b k =
     (case find (\<lambda>p. fmlookup (pv_Fragments (pb_Record p)) k \<noteq> None) (bd_Providers b) of
        Some p \<Rightarrow> pb_ProviderKey p | None \<Rightarrow> [])"

definition fragment_event :: "build_result \<Rightarrow> context_fragment \<Rightarrow> fragment_recorded" where
  "fragment_event b f = \<lparr>fd_ProviderKey = providerKeyForFragment b (cf_Key f), fd_FragmentKey = cf_Key f, fd_Role = cf_Role f,
     fd_Authority = cf_Authority f, fd_StartMarker = cf_StartMarker f, fd_EndMarker = cf_EndMarker f, fd_Content = cf_Content f,
     fd_Fingerprint = cf_Fingerprint f, fd_CachePolicy = cf_CachePolicy f\<rparr>"

definition context_event :: "event_source \<Rightarrow> string \<Rightarrow> json \<Rightarrow> event" where
  "context_event src kind j = no_event\<lparr>ev_Kind := kind, ev_Payload := Doc j, ev_Source := src\<rparr>"

definition contextRenderEvents :: "event_source \<Rightarrow> prepared_render \<Rightarrow> event list" where
  "contextRenderEvents src r =
     (let b = pp_Result r in
      map (\<lambda>f. context_event src EventContextFragmentRecorded (enc_fragment_recorded (fragment_event b f))) (bd_Added b @ bd_Updated b) @
      map (\<lambda>d. context_event src EventContextFragmentRemoved (enc_fragment_removed d)) (bd_Removed b) @
      [context_event src EventContextSnapshotRecorded (contextSnapshotFromRender r),
       context_event src EventContextRenderCommitted (enc_committed (pp_records r))])"

section \<open>Replay\<close>

datatype 'e runtime_error = RtContext ctx_error | RtThread 'e

definition record_for :: "ctx_records \<Rightarrow> string \<Rightarrow> provider_record" where
  "record_for rs p = (case fmlookup rs p of Some r \<Rightarrow> r\<lparr>pv_ProviderKey := p\<rparr> | None \<Rightarrow> no_provider_record\<lparr>pv_ProviderKey := p\<rparr>)"

definition put_fragment :: "(string \<Rightarrow> string) \<Rightarrow> string \<Rightarrow> fragment_record \<Rightarrow> ctx_records \<Rightarrow> ctx_records" where
  "put_fragment sha p f rs =
     (let r = record_for rs p; r1 = r\<lparr>pv_Fragments := fmupd (rf_Key f) f (pv_Fragments r)\<rparr>
      in fmupd p (r1\<lparr>pv_Fingerprint := ProviderFingerprint sha (ActiveFragments r1)\<rparr>) rs)"

definition applyContextFragmentRecorded :: "(string \<Rightarrow> string) \<Rightarrow> rawmsg \<Rightarrow> ctx_records \<Rightarrow> (json_error, ctx_records) result" where
  "applyContextFragmentRecorded sha raw rs =
     (case Unmarshal (dec_struct fragment_recorded_handlers) raw no_fragment_recorded of
        Inl e \<Rightarrow> Inl e
      | Inr p \<Rightarrow>
          let f0 = \<lparr>cf_Key = fd_FragmentKey p, cf_Role = fd_Role p, cf_StartMarker = fd_StartMarker p, cf_EndMarker = fd_EndMarker p,
                cf_Content = fd_Content p, cf_Fingerprint = fd_Fingerprint p, cf_Authority = fd_Authority p,
                cf_CachePolicy = fd_CachePolicy p\<rparr>;
              f = (if cf_Fingerprint f0 = [] then f0\<lparr>cf_Fingerprint := FragmentFingerprint sha f0\<rparr> else f0)
          in Inr (put_fragment sha (fd_ProviderKey p)
               \<lparr>rf_Key = cf_Key f, rf_Fingerprint = cf_Fingerprint f, rf_Fragment = f, rf_Removed = False\<rparr> rs))"

definition applyContextFragmentRemoved :: "(string \<Rightarrow> string) \<Rightarrow> rawmsg \<Rightarrow> ctx_records \<Rightarrow> (json_error, ctx_records) result" where
  "applyContextFragmentRemoved sha raw rs =
     (case Unmarshal (dec_struct fragment_removed_handlers) raw no_fragment_removed of
        Inl e \<Rightarrow> Inl e
      | Inr p \<Rightarrow> Inr (put_fragment sha (fr_ProviderKey p)
           \<lparr>rf_Key = fr_FragmentKey p, rf_Fingerprint = fr_PreviousFingerprint p, rf_Fragment = no_fragment, rf_Removed = True\<rparr> rs))"

text \<open>The loop of \<^verbatim>\<open>ReplayContextRenders\<close>: the records of single events and the latest committed render.\<close>

fun replay_renders ::
  "(string \<Rightarrow> string) \<Rightarrow> ctx_records \<Rightarrow> ctx_records option \<Rightarrow> event list \<Rightarrow> (json_error, ctx_records \<times> ctx_records option) result" where
  "replay_renders sha rs latest [] = Inr (rs, latest)"
| "replay_renders sha rs latest (e # es) =
     (if ev_Kind e = EventContextFragmentRecorded then
        rbind (applyContextFragmentRecorded sha (ev_Payload e) rs) (\<lambda>rs'. replay_renders sha rs' latest es)
      else if ev_Kind e = EventContextFragmentRemoved then
        rbind (applyContextFragmentRemoved sha (ev_Payload e) rs) (\<lambda>rs'. replay_renders sha rs' latest es)
      else if ev_Kind e = EventContextRenderCommitted then
        (case Unmarshal (dec_struct committed_handlers) (ev_Payload e) fmempty of
           Inl err \<Rightarrow> Inl err
         | Inr p \<Rightarrow> replay_renders sha rs (Some p) es)
      else replay_renders sha rs latest es)"

definition ReplayContextRenders :: "(string \<Rightarrow> string) \<Rightarrow> event list \<Rightarrow> 'w ctx_manager \<Rightarrow> (json_error, 'w ctx_manager) result" where
  "ReplayContextRenders sha es m =
     rbind (replay_renders sha fmempty None es) (\<lambda>(rs, latest). Inr
       (case latest of
          Some p \<Rightarrow> Manager_SetRecords p m
        | None \<Rightarrow> if rs \<noteq> fmempty then Manager_SetRecords rs m else m))"

text \<open>The live thread is used through its \<^verbatim>\<open>Append\<close>, here with the context and the identifiers of the call.\<close>

definition renderAndCommitContext ::
  "(string \<Rightarrow> string) \<Rightarrow> (event list \<Rightarrow> 's \<Rightarrow> ('e, unit) result \<times> 's) \<Rightarrow> build_request \<Rightarrow> event_source \<Rightarrow> 'w ctx_manager \<Rightarrow> 'w \<Rightarrow> 's \<Rightarrow>
    ('e runtime_error, build_result) result \<times> 'w ctx_manager \<times> 'w \<times> 's" where
  "renderAndCommitContext sha app req src m w s =
     (case Manager_Prepare sha req m w of
        (Inl e, w1) \<Rightarrow> (Inl (RtContext e), m, w1, s)
      | (Inr r, w1) \<Rightarrow>
          (case app (contextRenderEvents src r) s of
             (Inl e, s1) \<Rightarrow> (Inl (RtThread e), m, w1, s1)
           | (Inr _, s1) \<Rightarrow>
               (case Render_Commit r m of
                  (Some e, _, m1) \<Rightarrow> (Inl (RtContext e), m1, w1, s1)
                | (None, r1, m1) \<Rightarrow> (Inr (pp_Result r1), m1, w1, s1))))"

section \<open>A resumed manager\<close>

lemma context_event_names [simp]:
  "fold_name ''provider_key'' = ''provider_key''" "fold_name ''fragment_key'' = ''fragment_key''" "fold_name ''role'' = ''role''"
  "fold_name ''authority'' = ''authority''" "fold_name ''start_marker'' = ''start_marker''" "fold_name ''end_marker'' = ''end_marker''"
  "fold_name ''content'' = ''content''" "fold_name ''fingerprint'' = ''fingerprint''" "fold_name ''cache_policy'' = ''cache_policy''"
  "fold_name ''previous_fingerprint'' = ''previous_fingerprint''"
  by code_simp+

interpretation fragment_recorded_codec: codec enc_fragment_recorded "dec_struct fragment_recorded_handlers" no_fragment_recorded
  "\<lambda>r. int64_range (cp_MaxAge (fd_CachePolicy r))"
  by unfold_locales
    (simp add: enc_fragment_recorded_def fragment_recorded_handlers_def no_fragment_recorded_def at_field_def
      dec_fields_append dec_fields_omit_str omit_str_def cache_policy_codec.dec_enc)

interpretation fragment_removed_codec: codec enc_fragment_removed "dec_struct fragment_removed_handlers" no_fragment_removed "\<lambda>r. True"
  by unfold_locales (simp add: enc_fragment_removed_def fragment_removed_handlers_def no_fragment_removed_def at_field_def)

lemma rbind_rbind: "rbind (rbind r f) g = rbind r (\<lambda>x. rbind (f x) g)"
  by (cases r) simp_all

lemma replay_append:
  "replay_renders sha rs l (xs @ ys) = rbind (replay_renders sha rs l xs) (\<lambda>(rs', l'). replay_renders sha rs' l' ys)"
proof (induction xs arbitrary: rs l)
  case (Cons x xs)
  then show ?case by (simp add: rbind_rbind split: sum.splits)
qed simp

lemma replay_cong:
  "map (\<lambda>e. (ev_Kind e, ev_Payload e)) xs = map (\<lambda>e. (ev_Kind e, ev_Payload e)) ys \<Longrightarrow> replay_renders sha rs l xs = replay_renders sha rs l ys"
proof (induction xs arbitrary: ys rs l)
  case (Cons x xs)
  then obtain y ys' where y: "ys = y # ys'" "ev_Kind y = ev_Kind x" "ev_Payload y = ev_Payload x"
    "map (\<lambda>e. (ev_Kind e, ev_Payload e)) xs = map (\<lambda>e. (ev_Kind e, ev_Payload e)) ys'" by (cases ys) auto
  note IH = Cons.IH [OF y(4)]
  show ?case unfolding y(1) by (simp add: y(2,3) IH cong: sum.case_cong)
qed simp

lemma context_event_sel [simp]:
  "ev_Kind (context_event src k j) = k" "ev_Payload (context_event src k j) = Doc j" "ev_BranchID (context_event src k j) = []"
  by (simp_all add: context_event_def no_event_def)

lemma replay_recorded:
  "\<forall>f \<in> set fs. int64_range (cp_MaxAge (cf_CachePolicy f)) \<Longrightarrow> \<exists>rs'. replay_renders sha rs l
     (map (\<lambda>f. context_event src EventContextFragmentRecorded (enc_fragment_recorded (fragment_event b f))) fs) = Inr (rs', l)"
proof (induction fs arbitrary: rs)
  case (Cons f fs)
  have "Unmarshal (dec_struct fragment_recorded_handlers) (Doc (enc_fragment_recorded (fragment_event b f))) no_fragment_recorded =
      Inr (fragment_event b f)"
    using Cons.prems by (intro fragment_recorded_codec.unmarshal_marshal) (simp add: fragment_event_def)
  then obtain rs' where "applyContextFragmentRecorded sha (Doc (enc_fragment_recorded (fragment_event b f))) rs = Inr rs'"
    by (simp add: applyContextFragmentRecorded_def Let_def)
  then show ?case using Cons by (simp del: Unmarshal.simps)
qed simp

lemma replay_removed:
  "\<exists>rs'. replay_renders sha rs l (map (\<lambda>d. context_event src EventContextFragmentRemoved (enc_fragment_removed d)) ds) = Inr (rs', l)"
proof (induction ds arbitrary: rs)
  case (Cons d ds)
  have "Unmarshal (dec_struct fragment_removed_handlers) (Doc (enc_fragment_removed d)) no_fragment_removed = Inr d"
    by (intro fragment_removed_codec.unmarshal_marshal) simp
  then obtain rs' where "applyContextFragmentRemoved sha (Doc (enc_fragment_removed d)) rs = Inr rs'"
    by (simp add: applyContextFragmentRemoved_def)
  then show ?case using Cons by (simp add: context_kind_defs del: Unmarshal.simps)
qed simp

lemma replay_render_events:
  assumes "\<forall>f \<in> set (bd_Added (pp_Result r) @ bd_Updated (pp_Result r)). int64_range (cp_MaxAge (cf_CachePolicy f))"
    and "records_ok (pp_records r)"
  shows "\<exists>rs'. replay_renders sha rs l (contextRenderEvents src r) = Inr (rs', Some (pp_records r))"
proof -
  let ?b = "pp_Result r"
  obtain rs1 where 1: "replay_renders sha rs l (map (\<lambda>f. context_event src EventContextFragmentRecorded
      (enc_fragment_recorded (fragment_event ?b f))) (bd_Added ?b @ bd_Updated ?b)) = Inr (rs1, l)"
    using replay_recorded [OF assms(1)] by blast
  obtain rs2 where 2: "replay_renders sha rs1 l (map (\<lambda>d. context_event src EventContextFragmentRemoved (enc_fragment_removed d)) (bd_Removed ?b)) =
      Inr (rs2, l)" using replay_removed by blast
  have "Unmarshal (dec_struct committed_handlers) (Doc (enc_committed (pp_records r))) fmempty = Inr (pp_records r)"
    by (rule committed_codec.unmarshal_marshal) (rule assms(2))
  then have "replay_renders sha rs2 l [context_event src EventContextSnapshotRecorded (contextSnapshotFromRender r),
      context_event src EventContextRenderCommitted (enc_committed (pp_records r))] = Inr (rs2, Some (pp_records r))"
    by (simp add: context_kind_defs del: Unmarshal.simps)
  with 1 2 show ?thesis unfolding contextRenderEvents_def Let_def replay_append by simp
qed

lemma Manager_Prepare_records:
  assumes "cm_records m = cm_records m'" "cm_providers m = cm_providers m'"
  shows "map_sum id pp_Result (fst (Manager_Prepare sha req m w)) = map_sum id pp_Result (fst (Manager_Prepare sha req m' w))"
  using assms by (simp add: Manager_Prepare_def split: prod.splits sum.splits)

lemma renderAndCommit_Inr:
  assumes "renderAndCommitContext sha app req src m w s = (Inr res, m1, w1, s1)"
  obtains r where "Manager_Prepare sha req m w = (Inr r, w1)" "app (contextRenderEvents src r) s = (Inr (), s1)"
    "pp_Result r = res" "pp_records r = cm_records m1"
proof -
  obtain x w' where x: "Manager_Prepare sha req m w = (x, w')" by fastforce
  then obtain r where r: "x = Inr r" using assms by (cases x) (simp_all add: renderAndCommitContext_def)
  obtain y s' where y: "app (contextRenderEvents src r) s = (y, s')" by fastforce
  with x r obtain u where u: "y = Inr u" using assms by (cases y) (simp_all add: renderAndCommitContext_def)
  obtain e r1 m' where c: "Render_Commit r m = (e, r1, m')" by (metis prod_cases3)
  with x r y u have "e = None" using assms by (cases e) (simp_all add: renderAndCommitContext_def)
  with x r y u c show thesis using assms
    by (intro that [of r]) (auto simp: renderAndCommitContext_def Render_Commit_def split: if_splits)
qed

lemma render_events_own: "e \<in> set (contextRenderEvents src r) \<Longrightarrow> own_event b e"
  by (auto simp: contextRenderEvents_def Let_def own_event_def core_kinds_def thread_kind_defs context_kind_defs)

lemma logged_kinds:
  "list_all2 (logged b) es new \<Longrightarrow> map (\<lambda>e. (ev_Kind e, ev_Payload e)) new = map (\<lambda>e. (ev_Kind e, ev_Payload e)) es"
  by (induction rule: list_all2_induct) (simp_all add: logged_def)

text \<open>Over any live thread.\<close>

context live_log
begin

lemma render_resumes:
  assumes "ok s" "view s = Some old" "ReplayContextRenders sha old m0 = Inr mo"
    and "renderAndCommitContext sha (append ctx g) req src m w s = (Inr res, m1, w1, s1)" "fits s1" "records_ok (cm_records m1)"
    and "\<forall>f \<in> set (bd_Added res @ bd_Updated res). int64_range (cp_MaxAge (cf_CachePolicy f))"
  shows "\<exists>es m2. view s1 = Some es \<and> ReplayContextRenders sha es m0 = Inr m2 \<and>
    cm_records m2 = cm_records m1 \<and> (cm_providers m0 = cm_providers m1 \<longrightarrow> (\<forall>req w.
      map_sum id pp_Result (fst (Manager_Prepare sha req m2 w)) = map_sum id pp_Result (fst (Manager_Prepare sha req m1 w))))"
proof -
  obtain r where r: "Manager_Prepare sha req m w = (Inr r, w1)" "append ctx g (contextRenderEvents src r) s = (Inr (), s1)"
    "pp_Result r = res" "pp_records r = cm_records m1" using assms(4) by (rule renderAndCommit_Inr)
  obtain new where n: "view s1 = Some (old @ new)" "list_all2 (logged branch) (contextRenderEvents src r) new"
    using append_logged [OF assms(1) r(2) _ assms(5,2)] render_events_own by blast
  obtain rs latest where o: "replay_renders sha fmempty None old = Inr (rs, latest)"
    using assms(3) by (auto simp: ReplayContextRenders_def rbind_Inr_iff)
  obtain rs' where "replay_renders sha rs latest new = Inr (rs', Some (cm_records m1))"
    using replay_render_events [of r sha rs latest src] replay_cong [OF logged_kinds [OF n(2)]] assms(6,7) r(3,4) by auto
  then have "ReplayContextRenders sha (old @ new) m0 = Inr (Manager_SetRecords (cm_records m1) m0)"
    by (simp add: ReplayContextRenders_def replay_append o)
  moreover have "cm_records (Manager_SetRecords (cm_records m1) m0) = cm_records m1"
    "cm_providers (Manager_SetRecords (cm_records m1) m0) = cm_providers m0" by (simp_all add: Manager_SetRecords_def)
  ultimately show ?thesis
    using n(1) Manager_Prepare_records [of "Manager_SetRecords (cm_records m1) m0" m1 sha] by auto
qed

end

text \<open>On disk: another process that opens the directory resumes with the same records.\<close>

lemma context_render_durable:
  assumes "jsonl_ok tid b s" "jsonl_view tid b s = Some old" "ReplayContextRenders sha old m0 = Inr mo"
    and "renderAndCommitContext sha (jsonl_append ctx g) req src m w s = (Inr res, m1, w1, s1)" "ints_ok (lt_memory (fst s1))"
    and "records_ok (cm_records m1)" "\<forall>f \<in> set (bd_Added res @ bd_Updated res). int64_range (cp_MaxAge (cf_CachePolicy f))"
  shows "\<exists>es m2. jsonl_view tid b s1 = Some es \<and> ReplayContextRenders sha es m0 = Inr m2 \<and>
    cm_records m2 = cm_records m1 \<and> (cm_providers m0 = cm_providers m1 \<longrightarrow> (\<forall>req w.
      map_sum id pp_Result (fst (Manager_Prepare sha req m2 w)) = map_sum id pp_Result (fst (Manager_Prepare sha req m1 w))))"
  using jsonl_log.render_resumes [OF assms] .

text \<open>
  C32. A render that was committed and recorded in a thread survives the process: a manager that
  replays the events of the branch gets exactly the records the live manager has, so that with the
  same providers its next render yields the same additions, updates and removals.
\<close>

theorem context_render_resumes:
  assumes "memory_ok l s" "memory_view l s = Some old" "ReplayContextRenders sha old m0 = Inr mo"
    and "renderAndCommitContext sha (\<lambda>es. memoryLive_Append ctx g l es) req src m w s = (Inr res, m1, w1, s1)" "records_ok (cm_records m1)"
    and "\<forall>f \<in> set (bd_Added res @ bd_Updated res). int64_range (cp_MaxAge (cf_CachePolicy f))"
  shows "\<exists>es m2. memory_view l s1 = Some es \<and> ReplayContextRenders sha es m0 = Inr m2 \<and>
    cm_records m2 = cm_records m1 \<and> (cm_providers m0 = cm_providers m1 \<longrightarrow> (\<forall>req w.
      map_sum id pp_Result (fst (Manager_Prepare sha req m2 w)) = map_sum id pp_Result (fst (Manager_Prepare sha req m1 w))))"
  using mem_log.render_resumes [OF assms(1-4) _ assms(5,6)] by simp

definition demo_render :: "(thread_error runtime_error, build_result) result \<times> unit ctx_manager \<times> unit \<times> memory_store" where
  "demo_render = renderAndCommitContext id (\<lambda>es. memoryLive_Append None demo_gen demo_live es) demo_build no_source (cs_manager demo_ctx1) () demo_store"

lemma demo_view: "EventsForBranch (snapshot demo_thread) ''main'' = Some (Inr (mt_events demo_thread))"
  using demo_main by (simp add: EventsForBranch_def branchWindows_def snapshot_def branch_chain.simps demo_thread_def new_thread_def
      created_event_def demo_defs in_window_def)

lemma demo_memory: "memory_ok demo_live demo_store" "memory_view demo_live demo_store = Some (mt_events demo_thread)"
proof -
  have l: "ml_branchID demo_live = ''main''" "ml_threadID demo_live = ''t1''" by (simp_all add: demo_live_def)
  show "memory_ok demo_live demo_store" using demo_store_inv demo_lookup demo_main by (simp add: memory_ok_def l)
  show "memory_view demo_live demo_store = Some (mt_events demo_thread)" by (rule memory_view_eq [of _ _ demo_thread]) (simp_all only: l demo_lookup demo_view)
qed

lemma demo_render_ok:
  "\<not> isl (fst demo_render)" "fmlookup (cm_records (fst (snd demo_render))) ''p'' \<noteq> None"
  "\<not> isl (ReplayContextRenders id (mt_events demo_thread) (cs_manager demo_ctx1))"
  "list_all (\<lambda>f. int64_range (cp_MaxAge (cf_CachePolicy f))) (bd_Added (projr (fst demo_render)) @ bd_Updated (projr (fst demo_render)))"
  by code_simp+

lemma demo_records_ok: "records_ok (cm_records (fst (snd demo_render)))"
  by code_simp

theorem context_render_resumes_witness:
  "\<exists>es m2. memory_view demo_live (snd (snd (snd demo_render))) = Some es \<and> ReplayContextRenders id es (cs_manager demo_ctx1) = Inr m2 \<and>
    cm_records m2 = cm_records (fst (snd demo_render)) \<and> fmlookup (cm_records m2) ''p'' \<noteq> None"
proof -
  obtain mo where mo: "ReplayContextRenders id (mt_events demo_thread) (cs_manager demo_ctx1) = Inr mo"
    using demo_render_ok(3) sum.collapse(2) by metis
  have run: "renderAndCommitContext id (\<lambda>es. memoryLive_Append None demo_gen demo_live es) demo_build no_source (cs_manager demo_ctx1) () demo_store =
      (Inr (projr (fst demo_render)), fst (snd demo_render), fst (snd (snd demo_render)), snd (snd (snd demo_render)))"
    using demo_render_ok(1) unfolding demo_render_def by (metis prod.collapse sum.collapse(2))
  have f: "\<forall>f \<in> set (bd_Added (projr (fst demo_render)) @ bd_Updated (projr (fst demo_render))). int64_range (cp_MaxAge (cf_CachePolicy f))"
    using demo_render_ok(4) by (simp add: list_all_iff)
  obtain es m2 where "memory_view demo_live (snd (snd (snd demo_render))) = Some es" "ReplayContextRenders id es (cs_manager demo_ctx1) = Inr m2"
    "cm_records m2 = cm_records (fst (snd demo_render))"
    using context_render_resumes [OF demo_memory mo run demo_records_ok f] by blast
  then show ?thesis using demo_render_ok(2) by auto
qed

end
