(* ===== verification/History_Events.thy ===== *)
theory History_Events
  imports Conversation_Items Context_Runtime
begin

text \<open>
  The thread events of a conversation (\<^verbatim>\<open>src/runtime/history_events.go\<close>): every payload of a node is stored
  as one event, in a wire form that spells out the content parts. How the package \<^verbatim>\<open>unified\<close> writes and
  reads its own types is an argument (\<^verbatim>\<open>unified_json\<close>); what is relied on is that reading gives back what
  was written. A \<^verbatim>\<open>map[string]any\<close> is an association list sorted by key, the order in which it is encoded.
\<close>

section \<open>Wire types\<close>

datatype content_kind =
    KindText | KindImage | KindAudio | KindVideo | KindFile | KindReasoning | KindRefusal | KindNone | KindOther string

type_synonym 'a jcodec = "('a \<Rightarrow> json) \<times> 'a decoder"
type_synonym 'a ocodec = "('a \<Rightarrow> json option) \<times> 'a decoder"

text \<open>
  The JSON of the types of \<^verbatim>\<open>unified\<close>. Usage and extensions are fields with \<^verbatim>\<open>omitempty\<close>, which the
  encoder may leave out.
\<close>

record unified_json =
  uj_Role :: "role jcodec"
  uj_Kind :: "content_kind jcodec"
  uj_CacheControl :: "string jcodec"
  uj_BlobSource :: "blob_source jcodec"
  uj_ToolCall :: "tool_call jcodec"
  uj_Usage :: "string ocodec"
  uj_Extensions :: "(string, string) fmap ocodec"

definition no_blob :: blob_source where
  "no_blob = \<lparr>bs_URL = [], bs_Base64 = [], bs_Rest = []\<rparr>"

record wire_part =
  wp_Type :: content_kind
  wp_Text :: string
  wp_Signature :: string
  wp_CacheControl :: "string option"
  wp_Source :: "blob_source option"
  wp_Alt :: string
  wp_Filename :: string
  wp_MIMEType :: string

record wire_result =
  wr_ToolCallID :: string
  wr_Name :: string
  wr_Content :: "wire_part list"
  wr_IsError :: bool

record wire_message =
  wm_Role :: role
  wm_ID :: string
  wm_Name :: string
  wm_Phase :: string
  wm_Content :: "wire_part list"
  wm_ToolCalls :: "tool_call list"
  wm_ToolResults :: "wire_result list"
  wm_Meta :: "(string \<times> meta_value) list"

record wire_turn =
  wt_Message :: wire_message
  wt_FinishReason :: string
  wt_Usage :: string
  wt_Continuations :: "provider_continuation list"

definition no_part :: wire_part where
  "no_part = \<lparr>wp_Type = KindNone, wp_Text = [], wp_Signature = [], wp_CacheControl = None, wp_Source = None, wp_Alt = [],
     wp_Filename = [], wp_MIMEType = []\<rparr>"

definition no_wire_result :: wire_result where
  "no_wire_result = \<lparr>wr_ToolCallID = [], wr_Name = [], wr_Content = [], wr_IsError = False\<rparr>"

definition no_wire_message :: wire_message where
  "no_wire_message = \<lparr>wm_Role = RoleOther [], wm_ID = [], wm_Name = [], wm_Phase = [], wm_Content = [], wm_ToolCalls = [],
     wm_ToolResults = [], wm_Meta = []\<rparr>"

definition no_wire_turn :: wire_turn where
  "no_wire_turn = \<lparr>wt_Message = no_wire_message, wt_FinishReason = [], wt_Usage = [], wt_Continuations = []\<rparr>"

section \<open>To and from the wire\<close>

datatype wire_error = PayloadNil | PartNil | UnsupportedPart

fun contentPartToWire :: "content_part \<Rightarrow> (wire_error, wire_part) result" where
  "contentPartToWire (TextPart t) = Inr (no_part\<lparr>wp_Type := KindText, wp_Text := tp_Text t, wp_CacheControl := tp_CacheControl t\<rparr>)"
| "contentPartToWire (PtrTextPart None) = Inl PartNil"
| "contentPartToWire (PtrTextPart (Some t)) =
     Inr (no_part\<lparr>wp_Type := KindText, wp_Text := tp_Text t, wp_CacheControl := tp_CacheControl t\<rparr>)"
| "contentPartToWire (ImagePart m) = Inr (no_part\<lparr>wp_Type := KindImage, wp_Source := Some (im_Source m), wp_Alt := im_Alt m\<rparr>)"
| "contentPartToWire (AudioPart b) = Inr (no_part\<lparr>wp_Type := KindAudio, wp_Source := Some b\<rparr>)"
| "contentPartToWire (VideoPart b) = Inr (no_part\<lparr>wp_Type := KindVideo, wp_Source := Some b\<rparr>)"
| "contentPartToWire (FilePart f) = Inr (no_part\<lparr>wp_Type := KindFile, wp_Source := Some (fl_Source f), wp_Filename := fl_Filename f,
     wp_MIMEType := fl_MIMEType f\<rparr>)"
| "contentPartToWire (ReasoningPart r) = Inr (no_part\<lparr>wp_Type := KindReasoning, wp_Text := rs_Text r, wp_Signature := rs_Signature r\<rparr>)"
| "contentPartToWire (RefusalPart t) = Inr (no_part\<lparr>wp_Type := KindRefusal, wp_Text := t\<rparr>)"
| "contentPartToWire (PtrReasoningPart _) = Inl UnsupportedPart"
| "contentPartToWire (PtrImagePart _) = Inl UnsupportedPart"
| "contentPartToWire (PtrFilePart _) = Inl UnsupportedPart"

fun rmap :: "('a \<Rightarrow> ('e, 'b) result) \<Rightarrow> 'a list \<Rightarrow> ('e, 'b list) result" where
  "rmap f [] = Inr []"
| "rmap f (x # xs) = rbind (f x) (\<lambda>y. rbind (rmap f xs) (\<lambda>ys. Inr (y # ys)))"

definition contentPartsToWire :: "content_part list \<Rightarrow> (wire_error, wire_part list) result" where
  "contentPartsToWire = rmap contentPartToWire"

definition result_to_wire :: "tool_result \<Rightarrow> (wire_error, wire_result) result" where
  "result_to_wire r = rbind (contentPartsToWire (res_Content r)) (\<lambda>c. Inr
     \<lparr>wr_ToolCallID = res_ToolCallID r, wr_Name = res_Name r, wr_Content = c, wr_IsError = res_IsError r\<rparr>)"

definition messageToWire :: "message \<Rightarrow> (wire_error, wire_message) result" where
  "messageToWire m =
     rbind (contentPartsToWire (msg_Content m)) (\<lambda>c.
     rbind (rmap result_to_wire (msg_ToolResults m)) (\<lambda>rs. Inr
       \<lparr>wm_Role = msg_Role m, wm_ID = msg_ID m, wm_Name = msg_Name m, wm_Phase = msg_Phase m, wm_Content = c,
        wm_ToolCalls = msg_ToolCalls m, wm_ToolResults = rs, wm_Meta = msg_Meta m\<rparr>))"

definition derefBlobSource :: "blob_source option \<Rightarrow> blob_source" where
  "derefBlobSource b = (case b of None \<Rightarrow> no_blob | Some s \<Rightarrow> s)"

definition part_from_wire :: "wire_part \<Rightarrow> content_part list" where
  "part_from_wire p =
     (case wp_Type p of
        KindText \<Rightarrow> [TextPart \<lparr>tp_Text = wp_Text p, tp_CacheControl = wp_CacheControl p\<rparr>]
      | KindNone \<Rightarrow> [TextPart \<lparr>tp_Text = wp_Text p, tp_CacheControl = wp_CacheControl p\<rparr>]
      | KindImage \<Rightarrow> [ImagePart \<lparr>im_Source = derefBlobSource (wp_Source p), im_Alt = wp_Alt p\<rparr>]
      | KindAudio \<Rightarrow> [AudioPart (derefBlobSource (wp_Source p))]
      | KindVideo \<Rightarrow> [VideoPart (derefBlobSource (wp_Source p))]
      | KindFile \<Rightarrow> [FilePart \<lparr>fl_Source = derefBlobSource (wp_Source p), fl_Filename = wp_Filename p, fl_MIMEType = wp_MIMEType p\<rparr>]
      | KindReasoning \<Rightarrow> [ReasoningPart \<lparr>rs_Text = wp_Text p, rs_Signature = wp_Signature p\<rparr>]
      | KindRefusal \<Rightarrow> [RefusalPart (wp_Text p)]
      | KindOther k \<Rightarrow> [])"

definition contentPartsFromWire :: "wire_part list \<Rightarrow> content_part list" where
  "contentPartsFromWire ps = concat (map part_from_wire ps)"

definition wire_unified :: "wire_message \<Rightarrow> message" where
  "wire_unified m =
     \<lparr>msg_Role = wm_Role m, msg_ID = wm_ID m, msg_Name = wm_Name m, msg_Phase = wm_Phase m,
      msg_Content = contentPartsFromWire (wm_Content m), msg_ToolCalls = wm_ToolCalls m,
      msg_ToolResults = map (\<lambda>r. \<lparr>res_ToolCallID = wr_ToolCallID r, res_Name = wr_Name r,
        res_Content = contentPartsFromWire (wr_Content r), res_IsError = wr_IsError r\<rparr>) (wm_ToolResults m),
      msg_Meta = wm_Meta m\<rparr>"

section \<open>JSON\<close>

definition omit_opt :: "string \<Rightarrow> json option \<Rightarrow> (string \<times> json) list" where
  "omit_opt k j = (case j of None \<Rightarrow> [] | Some v \<Rightarrow> [(k, v)])"

definition omit_list :: "string \<Rightarrow> ('a \<Rightarrow> json) \<Rightarrow> 'a list \<Rightarrow> (string \<times> json) list" where
  "omit_list k enc xs = (if xs = [] then [] else [(k, JArr (map enc xs))])"

fun enc_meta_value :: "meta_value \<Rightarrow> json" where
  "enc_meta_value (MetaText t) = JStr t"
| "enc_meta_value (MetaNodes ns) = enc_strs ns"
| "enc_meta_value (MetaAny j) = j"

fun dec_meta_value :: "json \<Rightarrow> meta_value" where
  "dec_meta_value (JStr t) = MetaText t"
| "dec_meta_value j = MetaAny j"

definition put_meta :: "string \<Rightarrow> meta_value \<Rightarrow> (string \<times> meta_value) list \<Rightarrow> (string \<times> meta_value) list" where
  "put_meta k v m = filter (\<lambda>e. fst e < k) m @ (k, v) # filter (\<lambda>e. k < fst e) m"

fun dec_meta :: "(string \<times> meta_value) list decoder" where
  "dec_meta (JObj kvs) m = Inr (fold (\<lambda>(k, j). put_meta k (dec_meta_value j)) kvs m)"
| "dec_meta JNull m = Inr []"
| "dec_meta _ m = Inl TypeMismatch"

definition enc_meta :: "(string \<times> meta_value) list \<Rightarrow> json" where
  "enc_meta m = JObj (map (\<lambda>(k, v). (k, enc_meta_value v)) m)"

definition omit_meta :: "(string \<times> meta_value) list \<Rightarrow> (string \<times> json) list" where
  "omit_meta m = (if m = [] then [] else [(''meta'', enc_meta m)])"

definition enc_part :: "unified_json \<Rightarrow> wire_part \<Rightarrow> json" where
  "enc_part u p = JObj (fld ''type'' (fst (uj_Kind u) (wp_Type p)) @ omit_str ''text'' (wp_Text p) @ omit_str ''signature'' (wp_Signature p) @
     omit_opt ''cache_control'' (map_option (fst (uj_CacheControl u)) (wp_CacheControl p)) @
     omit_opt ''source'' (map_option (fst (uj_BlobSource u)) (wp_Source p)) @ omit_str ''alt'' (wp_Alt p) @
     omit_str ''filename'' (wp_Filename p) @ omit_str ''mime_type'' (wp_MIMEType p))"

definition part_handlers :: "unified_json \<Rightarrow> wire_part handler list" where
  "part_handlers u =
     [(''type'', at_field (snd (uj_Kind u)) wp_Type (\<lambda>v r. r\<lparr>wp_Type := v\<rparr>)),
      (''text'', at_field dec_string wp_Text (\<lambda>v r. r\<lparr>wp_Text := v\<rparr>)),
      (''signature'', at_field dec_string wp_Signature (\<lambda>v r. r\<lparr>wp_Signature := v\<rparr>)),
      (''cache_control'', at_field (dec_ptr (snd (uj_CacheControl u)) []) wp_CacheControl (\<lambda>v r. r\<lparr>wp_CacheControl := v\<rparr>)),
      (''source'', at_field (dec_ptr (snd (uj_BlobSource u)) no_blob) wp_Source (\<lambda>v r. r\<lparr>wp_Source := v\<rparr>)),
      (''alt'', at_field dec_string wp_Alt (\<lambda>v r. r\<lparr>wp_Alt := v\<rparr>)),
      (''filename'', at_field dec_string wp_Filename (\<lambda>v r. r\<lparr>wp_Filename := v\<rparr>)),
      (''mime_type'', at_field dec_string wp_MIMEType (\<lambda>v r. r\<lparr>wp_MIMEType := v\<rparr>))]"

definition enc_result :: "unified_json \<Rightarrow> wire_result \<Rightarrow> json" where
  "enc_result u r = JObj (fld ''tool_call_id'' (JStr (wr_ToolCallID r)) @ omit_str ''name'' (wr_Name r) @
     omit_list ''content'' (enc_part u) (wr_Content r) @ omit_bool ''is_error'' (wr_IsError r))"

definition result_handlers :: "unified_json \<Rightarrow> wire_result handler list" where
  "result_handlers u =
     [(''tool_call_id'', at_field dec_string wr_ToolCallID (\<lambda>v r. r\<lparr>wr_ToolCallID := v\<rparr>)),
      (''name'', at_field dec_string wr_Name (\<lambda>v r. r\<lparr>wr_Name := v\<rparr>)),
      (''content'', at_field (dec_list (dec_struct (part_handlers u)) no_part) wr_Content (\<lambda>v r. r\<lparr>wr_Content := v\<rparr>)),
      (''is_error'', at_field dec_bool wr_IsError (\<lambda>v r. r\<lparr>wr_IsError := v\<rparr>))]"

definition enc_message :: "unified_json \<Rightarrow> wire_message \<Rightarrow> json" where
  "enc_message u m = JObj (fld ''role'' (fst (uj_Role u) (wm_Role m)) @ omit_str ''id'' (wm_ID m) @ omit_str ''name'' (wm_Name m) @
     omit_str ''phase'' (wm_Phase m) @ omit_list ''content'' (enc_part u) (wm_Content m) @
     omit_list ''tool_calls'' (fst (uj_ToolCall u)) (wm_ToolCalls m) @ omit_list ''tool_results'' (enc_result u) (wm_ToolResults m) @
     omit_meta (wm_Meta m))"

definition message_handlers :: "unified_json \<Rightarrow> wire_message handler list" where
  "message_handlers u =
     [(''role'', at_field (snd (uj_Role u)) wm_Role (\<lambda>v r. r\<lparr>wm_Role := v\<rparr>)),
      (''id'', at_field dec_string wm_ID (\<lambda>v r. r\<lparr>wm_ID := v\<rparr>)),
      (''name'', at_field dec_string wm_Name (\<lambda>v r. r\<lparr>wm_Name := v\<rparr>)),
      (''phase'', at_field dec_string wm_Phase (\<lambda>v r. r\<lparr>wm_Phase := v\<rparr>)),
      (''content'', at_field (dec_list (dec_struct (part_handlers u)) no_part) wm_Content (\<lambda>v r. r\<lparr>wm_Content := v\<rparr>)),
      (''tool_calls'', at_field (dec_list (snd (uj_ToolCall u)) no_call) wm_ToolCalls (\<lambda>v r. r\<lparr>wm_ToolCalls := v\<rparr>)),
      (''tool_results'', at_field (dec_list (dec_struct (result_handlers u)) no_wire_result) wm_ToolResults (\<lambda>v r. r\<lparr>wm_ToolResults := v\<rparr>)),
      (''meta'', at_field dec_meta wm_Meta (\<lambda>v r. r\<lparr>wm_Meta := v\<rparr>))]"

definition enc_continuation :: "unified_json \<Rightarrow> provider_continuation \<Rightarrow> json" where
  "enc_continuation u c = JObj (omit_str ''provider_name'' (pc_ProviderName c) @ omit_str ''api_kind'' (pc_APIKind c) @
     omit_str ''api_family'' (pc_APIFamily c) @ omit_str ''native_model'' (pc_NativeModel c) @ omit_str ''response_id'' (pc_ResponseID c) @
     omit_str ''consumer_continuation'' (pc_ConsumerContinuation c) @ omit_str ''internal_continuation'' (pc_InternalContinuation c) @
     omit_str ''transport'' (pc_Transport c) @ omit_opt ''extensions'' (fst (uj_Extensions u) (pc_Extensions c)))"

definition continuation_handlers :: "unified_json \<Rightarrow> provider_continuation handler list" where
  "continuation_handlers u =
     [(''provider_name'', at_field dec_string pc_ProviderName (\<lambda>v r. r\<lparr>pc_ProviderName := v\<rparr>)),
      (''api_kind'', at_field dec_string pc_APIKind (\<lambda>v r. r\<lparr>pc_APIKind := v\<rparr>)),
      (''api_family'', at_field dec_string pc_APIFamily (\<lambda>v r. r\<lparr>pc_APIFamily := v\<rparr>)),
      (''native_model'', at_field dec_string pc_NativeModel (\<lambda>v r. r\<lparr>pc_NativeModel := v\<rparr>)),
      (''response_id'', at_field dec_string pc_ResponseID (\<lambda>v r. r\<lparr>pc_ResponseID := v\<rparr>)),
      (''consumer_continuation'', at_field dec_string pc_ConsumerContinuation (\<lambda>v r. r\<lparr>pc_ConsumerContinuation := v\<rparr>)),
      (''internal_continuation'', at_field dec_string pc_InternalContinuation (\<lambda>v r. r\<lparr>pc_InternalContinuation := v\<rparr>)),
      (''transport'', at_field dec_string pc_Transport (\<lambda>v r. r\<lparr>pc_Transport := v\<rparr>)),
      (''extensions'', at_field (snd (uj_Extensions u)) pc_Extensions (\<lambda>v r. r\<lparr>pc_Extensions := v\<rparr>))]"

definition enc_turn :: "unified_json \<Rightarrow> wire_turn \<Rightarrow> json" where
  "enc_turn u t = JObj (fld ''message'' (enc_message u (wt_Message t)) @ omit_str ''finish_reason'' (wt_FinishReason t) @
     omit_opt ''usage'' (fst (uj_Usage u) (wt_Usage t)) @ omit_list ''continuations'' (enc_continuation u) (wt_Continuations t))"

definition turn_handlers :: "unified_json \<Rightarrow> wire_turn handler list" where
  "turn_handlers u =
     [(''message'', at_field (dec_struct (message_handlers u)) wt_Message (\<lambda>v r. r\<lparr>wt_Message := v\<rparr>)),
      (''finish_reason'', at_field dec_string wt_FinishReason (\<lambda>v r. r\<lparr>wt_FinishReason := v\<rparr>)),
      (''usage'', at_field (snd (uj_Usage u)) wt_Usage (\<lambda>v r. r\<lparr>wt_Usage := v\<rparr>)),
      (''continuations'', at_field (dec_list (dec_struct (continuation_handlers u)) no_continuation) wt_Continuations
         (\<lambda>v r. r\<lparr>wt_Continuations := v\<rparr>))]"

text \<open>A \<^verbatim>\<open>wireMessageEvent\<close> has the message as its only field.\<close>

definition enc_message_event :: "unified_json \<Rightarrow> wire_message \<Rightarrow> json" where
  "enc_message_event u m = JObj (fld ''message'' (enc_message u m))"

definition message_event_handlers :: "unified_json \<Rightarrow> wire_message handler list" where
  "message_event_handlers u = [(''message'', dec_struct (message_handlers u))]"

definition enc_compaction :: "compaction \<Rightarrow> json" where
  "enc_compaction c = JObj (fld ''summary'' (JStr (cmp_Summary c)) @ omit_strs ''replaces'' (cmp_Replaces c))"

definition no_compaction :: compaction where
  "no_compaction = \<lparr>cmp_Summary = [], cmp_Replaces = []\<rparr>"

definition compaction_handlers :: "compaction handler list" where
  "compaction_handlers =
     [(''summary'', at_field dec_string cmp_Summary (\<lambda>v r. r\<lparr>cmp_Summary := v\<rparr>)),
      (''replaces'', at_field (dec_list dec_string []) cmp_Replaces (\<lambda>v r. r\<lparr>cmp_Replaces := v\<rparr>))]"

definition enc_annotation :: "annotation \<Rightarrow> json" where
  "enc_annotation a = JObj (omit_str ''text'' (an_Text a) @ omit_meta (an_Meta a))"

definition no_annotation :: annotation where
  "no_annotation = \<lparr>an_Text = [], an_Meta = []\<rparr>"

definition annotation_handlers :: "annotation handler list" where
  "annotation_handlers =
     [(''text'', at_field dec_string an_Text (\<lambda>v r. r\<lparr>an_Text := v\<rparr>)),
      (''meta'', at_field dec_meta an_Meta (\<lambda>v r. r\<lparr>an_Meta := v\<rparr>))]"

section \<open>Payloads as events\<close>

definition eventConversationUserMessage :: string where "eventConversationUserMessage = ''conversation.user_message''"
definition eventConversationAssistantMessage :: string where "eventConversationAssistantMessage = ''conversation.assistant_message''"
definition eventConversationToolResult :: string where "eventConversationToolResult = ''conversation.tool_result''"
definition eventConversationMessage :: string where "eventConversationMessage = ''conversation.message''"
definition eventConversationCompaction :: string where "eventConversationCompaction = ''conversation.compaction''"
definition eventConversationAnnotation :: string where "eventConversationAnnotation = ''conversation.annotation''"

lemmas history_kind_defs = eventConversationUserMessage_def eventConversationAssistantMessage_def eventConversationToolResult_def
  eventConversationMessage_def eventConversationCompaction_def eventConversationAnnotation_def

definition marshalMessagePayload :: "unified_json \<Rightarrow> message \<Rightarrow> (wire_error, string \<times> json) result" where
  "marshalMessagePayload u m =
     rbind (messageToWire m) (\<lambda>w. Inr
       ((case msg_Role m of
           RoleUser \<Rightarrow> eventConversationUserMessage
         | RoleTool \<Rightarrow> eventConversationToolResult
         | RoleAssistant \<Rightarrow> eventConversationAssistantMessage
         | RoleOther r \<Rightarrow> eventConversationMessage), enc_message_event u w))"

definition marshal_turn :: "unified_json \<Rightarrow> assistant_turn \<Rightarrow> (wire_error, string \<times> json) result" where
  "marshal_turn u a =
     rbind (messageToWire (at_Message a)) (\<lambda>w. Inr (eventConversationAssistantMessage, enc_turn u
       \<lparr>wt_Message = w, wt_FinishReason = at_FinishReason a, wt_Usage = at_Usage a, wt_Continuations = at_Continuations a\<rparr>))"

fun marshalThreadPayload :: "unified_json \<Rightarrow> payload \<Rightarrow> (wire_error, string \<times> json) result" where
  "marshalThreadPayload u (MessageEvent m) = marshalMessagePayload u m"
| "marshalThreadPayload u (PtrMessageEvent None) = Inl PayloadNil"
| "marshalThreadPayload u (PtrMessageEvent (Some m)) = marshalMessagePayload u m"
| "marshalThreadPayload u (AssistantTurnEvent a) = marshal_turn u a"
| "marshalThreadPayload u (PtrAssistantTurnEvent None) = Inl PayloadNil"
| "marshalThreadPayload u (PtrAssistantTurnEvent (Some a)) = marshal_turn u a"
| "marshalThreadPayload u (CompactionEvent c) = Inr (eventConversationCompaction, enc_compaction c)"
| "marshalThreadPayload u (PtrCompactionEvent None) = Inl PayloadNil"
| "marshalThreadPayload u (PtrCompactionEvent (Some c)) = Inr (eventConversationCompaction, enc_compaction c)"
| "marshalThreadPayload u (AnnotationEvent a) = Inr (eventConversationAnnotation, enc_annotation a)"
| "marshalThreadPayload u (PtrAnnotationEvent None) = Inl PayloadNil"
| "marshalThreadPayload u (PtrAnnotationEvent (Some a)) = Inr (eventConversationAnnotation, enc_annotation a)"

definition threadEventFromPayload :: "unified_json \<Rightarrow> payload \<Rightarrow> event \<Rightarrow> (wire_error, event) result" where
  "threadEventFromPayload u p e = rbind (marshalThreadPayload u p) (\<lambda>(k, j). Inr (e\<lparr>ev_Kind := k, ev_Payload := Doc j\<rparr>))"

definition unmarshalMessagePayload :: "unified_json \<Rightarrow> rawmsg \<Rightarrow> (json_error, payload) result" where
  "unmarshalMessagePayload u raw =
     map_sum id (\<lambda>w. MessageEvent (wire_unified w)) (Unmarshal (dec_struct (message_event_handlers u)) raw no_wire_message)"

definition unmarshalAssistantTurnPayload :: "unified_json \<Rightarrow> rawmsg \<Rightarrow> (json_error, payload) result" where
  "unmarshalAssistantTurnPayload u raw =
     map_sum id (\<lambda>w. AssistantTurnEvent \<lparr>at_Message = wire_unified (wt_Message w), at_FinishReason = wt_FinishReason w,
       at_Usage = wt_Usage w, at_Continuations = wt_Continuations w\<rparr>)
       (Unmarshal (dec_struct (turn_handlers u)) raw no_wire_turn)"

definition payloadFromThreadEvent :: "unified_json \<Rightarrow> event \<Rightarrow> (json_error, payload option) result" where
  "payloadFromThreadEvent u e =
     (let k = ev_Kind e; raw = ev_Payload e in
      if k = eventConversationUserMessage \<or> k = eventConversationToolResult \<or> k = eventConversationMessage then
        map_sum id Some (unmarshalMessagePayload u raw)
      else if k = eventConversationAssistantMessage then
        (case unmarshalAssistantTurnPayload u raw of
           Inr p \<Rightarrow> Inr (Some p)
         | Inl err \<Rightarrow> (case unmarshalMessagePayload u raw of Inr p \<Rightarrow> Inr (Some p) | Inl _ \<Rightarrow> Inl err))
      else if k = eventConversationCompaction then
        map_sum id (\<lambda>c. Some (CompactionEvent c)) (Unmarshal (dec_struct compaction_handlers) raw no_compaction)
      else if k = eventConversationAnnotation then
        map_sum id (\<lambda>a. Some (AnnotationEvent a)) (Unmarshal (dec_struct annotation_handlers) raw no_annotation)
      else Inr None)"

section \<open>What the log keeps\<close>

definition lossless :: "('a \<Rightarrow> json) \<times> 'a decoder \<Rightarrow> 'a \<Rightarrow> bool" where
  "lossless c z \<longleftrightarrow> (\<forall>x. snd c (fst c x) z = Inr x)"

definition lossless_opt :: "('a \<Rightarrow> json option) \<times> 'a decoder \<Rightarrow> 'a \<Rightarrow> bool" where
  "lossless_opt c z \<longleftrightarrow> (\<forall>x. case fst c x of None \<Rightarrow> x = z | Some j \<Rightarrow> snd c j z = Inr x)"

text \<open>
  What is relied on of \<^verbatim>\<open>unified\<close>: its types read back what they wrote. A pointer that is written is not
  written as \<^verbatim>\<open>null\<close>.
\<close>

definition unified_json_ok :: "unified_json \<Rightarrow> bool" where
  "unified_json_ok u \<longleftrightarrow> lossless (uj_Role u) (RoleOther []) \<and> lossless (uj_Kind u) KindNone \<and>
     lossless (uj_CacheControl u) [] \<and> lossless (uj_BlobSource u) no_blob \<and> lossless (uj_ToolCall u) no_call \<and>
     lossless_opt (uj_Usage u) [] \<and> lossless_opt (uj_Extensions u) fmempty \<and>
     (\<forall>c. fst (uj_CacheControl u) c \<noteq> JNull) \<and> (\<forall>b. fst (uj_BlobSource u) b \<noteq> JNull)"

fun meta_kept :: "meta_value \<Rightarrow> bool" where
  "meta_kept (MetaText t) = True"
| "meta_kept (MetaNodes ns) = False"
| "meta_kept (MetaAny j) = (case j of JStr t \<Rightarrow> False | _ \<Rightarrow> True)"

definition meta_ok :: "(string \<times> meta_value) list \<Rightarrow> bool" where
  "meta_ok m \<longleftrightarrow> sorted_wrt (<) (map fst m) \<and> (\<forall>e \<in> set m. meta_kept (snd e))"

section \<open>Round trips\<close>

lemma history_names [simp]:
  "fold_name ''type'' = ''type''" "fold_name ''text'' = ''text''" "fold_name ''signature'' = ''signature''"
  "fold_name ''cache_control'' = ''cache_control''" "fold_name ''source'' = ''source''" "fold_name ''alt'' = ''alt''"
  "fold_name ''filename'' = ''filename''" "fold_name ''mime_type'' = ''mime_type''" "fold_name ''tool_call_id'' = ''tool_call_id''"
  "fold_name ''name'' = ''name''" "fold_name ''is_error'' = ''is_error''" "fold_name ''id'' = ''id''" "fold_name ''phase'' = ''phase''"
  "fold_name ''tool_calls'' = ''tool_calls''" "fold_name ''tool_results'' = ''tool_results''" "fold_name ''meta'' = ''meta''"
  "fold_name ''message'' = ''message''" "fold_name ''finish_reason'' = ''finish_reason''" "fold_name ''usage'' = ''usage''"
  "fold_name ''continuations'' = ''continuations''" "fold_name ''provider_name'' = ''provider_name''" "fold_name ''api_kind'' = ''api_kind''"
  "fold_name ''api_family'' = ''api_family''" "fold_name ''native_model'' = ''native_model''" "fold_name ''response_id'' = ''response_id''"
  "fold_name ''consumer_continuation'' = ''consumer_continuation''" "fold_name ''internal_continuation'' = ''internal_continuation''"
  "fold_name ''transport'' = ''transport''" "fold_name ''extensions'' = ''extensions''" "fold_name ''summary'' = ''summary''"
  "fold_name ''replaces'' = ''replaces''"
  by code_simp+

lemma dec_fields_omit_opt:
  "find (\<lambda>h. fold_name (fst h) = fold_name k) hs = Some (k', at_field (snd c) get put) \<Longrightarrow> lossless_opt c (get s) \<Longrightarrow>
     put (get s) s = s \<Longrightarrow> dec_fields hs (omit_opt k (fst c v)) s = Inr (put v s)"
  unfolding lossless_opt_def by (drule spec [of _ v]) (cases "fst c v", simp_all add: omit_opt_def at_field_def)

lemma dec_fields_omit_ptr:
  "find (\<lambda>h. fold_name (fst h) = fold_name k) hs = Some (k', at_field (dec_ptr dec z) get put) \<Longrightarrow> get s = None \<Longrightarrow>
     (\<And>x. dec_ptr dec z (enc x) None = Inr (Some x)) \<Longrightarrow> put None s = s \<Longrightarrow>
     dec_fields hs (omit_opt k (map_option enc v)) s = Inr (put v s)"
  by (cases v) (simp_all add: omit_opt_def at_field_def)

lemma dec_elems_map: "(\<And>x. x \<in> set xs \<Longrightarrow> dec (enc x) z = Inr x) \<Longrightarrow> dec_elems dec z (map enc xs) = Inr xs"
  by (induction xs) simp_all

lemma dec_fields_omit_list:
  "find (\<lambda>h. fold_name (fst h) = fold_name k) hs = Some (k', at_field (dec_list dec z) get put) \<Longrightarrow>
     (\<And>x. x \<in> set xs \<Longrightarrow> dec (enc x) z = Inr x) \<Longrightarrow> (xs = [] \<Longrightarrow> put [] s = s) \<Longrightarrow>
     dec_fields hs (omit_list k enc xs) s = Inr (put xs s)"
  by (simp add: omit_list_def at_field_def dec_elems_map)

lemma dec_meta_value_enc: "meta_kept v \<Longrightarrow> dec_meta_value (enc_meta_value v) = v"
proof (cases v)
  case (MetaAny j)
  then show "meta_kept v \<Longrightarrow> ?thesis" by (cases j) simp_all
qed simp_all

lemma put_meta_last: "\<forall>e \<in> set m. fst e < k \<Longrightarrow> put_meta k v m = m @ [(k, v)]"
  by (auto simp: put_meta_def filter_id_conv filter_empty_conv dest: order_less_asym)

lemma dec_meta_fold:
  assumes "sorted_wrt (<) (map fst m)" "\<forall>e \<in> set m. meta_kept (snd e)" "\<forall>e \<in> set m0. \<forall>e' \<in> set m. fst e < fst e'"
  shows "fold (\<lambda>(k, j). put_meta k (dec_meta_value j)) (map (\<lambda>(k, v). (k, enc_meta_value v)) m) m0 = m0 @ m"
  using assms
proof (induction m arbitrary: m0)
  case (Cons e m)
  obtain k v where e: "e = (k, v)" by (cases e)
  have "put_meta k v m0 = m0 @ [(k, v)]" using Cons.prems(3) by (intro put_meta_last) (simp add: e)
  moreover have "\<forall>x \<in> set (m0 @ [(k, v)]). \<forall>e' \<in> set m. fst x < fst e'" using Cons.prems(1,3) by (auto simp: e)
  ultimately show ?case using Cons.IH [of "m0 @ [(k, v)]"] Cons.prems(1,2) by (simp add: e dec_meta_value_enc)
qed simp

lemma dec_enc_meta: "meta_ok m \<Longrightarrow> dec_meta (enc_meta m) [] = Inr m"
  using dec_meta_fold [of m "[]"] by (simp add: enc_meta_def meta_ok_def)

lemma dec_fields_omit_meta:
  "find (\<lambda>h. fold_name (fst h) = ''meta'') hs = Some (k', at_field dec_meta get put) \<Longrightarrow> meta_ok m \<Longrightarrow> get s = [] \<Longrightarrow>
     (m = [] \<Longrightarrow> put [] s = s) \<Longrightarrow> dec_fields hs (omit_meta m) s = Inr (put m s)"
  by (simp add: omit_meta_def at_field_def dec_enc_meta)

lemma dec_ptr_enc: "dec (enc x) z = Inr x \<Longrightarrow> enc x \<noteq> JNull \<Longrightarrow> dec_ptr dec z (enc x) None = Inr (Some x)"
  by (cases "enc x") simp_all

lemma unified_jsonD:
  assumes "unified_json_ok u"
  shows "snd (uj_Role u) (fst (uj_Role u) r) (RoleOther []) = Inr r" "snd (uj_Kind u) (fst (uj_Kind u) k) KindNone = Inr k"
    "dec_ptr (snd (uj_CacheControl u)) [] (fst (uj_CacheControl u) c) None = Inr (Some c)"
    "dec_ptr (snd (uj_BlobSource u)) no_blob (fst (uj_BlobSource u) b) None = Inr (Some b)"
    "snd (uj_ToolCall u) (fst (uj_ToolCall u) t) no_call = Inr t"
  using assms by (simp_all add: unified_json_ok_def lossless_def dec_ptr_enc)

lemma unified_opts: "unified_json_ok u \<Longrightarrow> lossless_opt (uj_Usage u) []" "unified_json_ok u \<Longrightarrow> lossless_opt (uj_Extensions u) fmempty"
  by (simp_all add: unified_json_ok_def)

lemmas dec_omit = dec_fields_append dec_fields_omit_str dec_fields_omit_opt dec_fields_omit_ptr dec_fields_omit_list dec_fields_omit_meta
  dec_fields_omit_bool dec_fields_omit_strs dec_fields_fld

lemma dec_enc_part:
  assumes "unified_json_ok u"
  shows "dec_struct (part_handlers u) (enc_part u p) no_part = Inr p"
  using unified_jsonD [OF assms]
  by (simp add: enc_part_def part_handlers_def no_part_def dec_omit at_field_apply)

lemma dec_enc_result:
  assumes "unified_json_ok u"
  shows "dec_struct (result_handlers u) (enc_result u r) no_wire_result = Inr r"
  by (simp add: enc_result_def result_handlers_def no_wire_result_def dec_omit at_field_apply dec_enc_part [OF assms])

lemma dec_enc_message:
  assumes "unified_json_ok u" "meta_ok (wm_Meta m)"
  shows "dec_struct (message_handlers u) (enc_message u m) no_wire_message = Inr m"
  using unified_jsonD [OF assms(1)] assms(2)
  by (simp add: enc_message_def message_handlers_def no_wire_message_def dec_omit at_field_apply dec_enc_part dec_enc_result assms(1))

lemma dec_enc_continuation:
  assumes "unified_json_ok u"
  shows "dec_struct (continuation_handlers u) (enc_continuation u c) no_continuation = Inr c"
  using unified_opts(2) [OF assms]
  by (simp add: enc_continuation_def continuation_handlers_def no_continuation_def dec_omit at_field_apply)

lemma dec_enc_turn:
  assumes "unified_json_ok u" "meta_ok (wm_Meta (wt_Message t))"
  shows "dec_struct (turn_handlers u) (enc_turn u t) no_wire_turn = Inr t"
  using unified_opts(1) [OF assms(1)]
  by (simp add: enc_turn_def turn_handlers_def no_wire_turn_def dec_omit at_field_apply dec_enc_message dec_enc_continuation assms)

interpretation compaction_codec: codec enc_compaction "dec_struct compaction_handlers" no_compaction "\<lambda>c. True"
  by unfold_locales (simp add: enc_compaction_def compaction_handlers_def no_compaction_def dec_omit at_field_apply)

interpretation annotation_codec: codec enc_annotation "dec_struct annotation_handlers" no_annotation "\<lambda>a. meta_ok (an_Meta a)"
  by unfold_locales (simp add: enc_annotation_def annotation_handlers_def no_annotation_def dec_omit at_field_apply)

text \<open>
  What comes back: pointers come back as values, and a message of the assistant as a turn of the assistant.
\<close>

fun value_part :: "content_part \<Rightarrow> content_part" where
  "value_part (PtrTextPart (Some t)) = TextPart t"
| "value_part p = p"

definition value_result :: "tool_result \<Rightarrow> tool_result" where
  "value_result r = r\<lparr>res_Content := map value_part (res_Content r)\<rparr>"

definition value_message :: "message \<Rightarrow> message" where
  "value_message m = m\<lparr>msg_Content := map value_part (msg_Content m), msg_ToolResults := map value_result (msg_ToolResults m)\<rparr>"

definition stored_message :: "message \<Rightarrow> payload" where
  "stored_message m =
     (if msg_Role m = RoleAssistant
      then AssistantTurnEvent \<lparr>at_Message = value_message m, at_FinishReason = [], at_Usage = [], at_Continuations = []\<rparr>
      else MessageEvent (value_message m))"

definition stored_turn :: "assistant_turn \<Rightarrow> payload" where
  "stored_turn a = AssistantTurnEvent (a\<lparr>at_Message := value_message (at_Message a)\<rparr>)"

fun stored_payload :: "payload \<Rightarrow> payload" where
  "stored_payload (MessageEvent m) = stored_message m"
| "stored_payload (PtrMessageEvent (Some m)) = stored_message m"
| "stored_payload (AssistantTurnEvent a) = stored_turn a"
| "stored_payload (PtrAssistantTurnEvent (Some a)) = stored_turn a"
| "stored_payload (PtrCompactionEvent (Some c)) = CompactionEvent c"
| "stored_payload (PtrAnnotationEvent (Some a)) = AnnotationEvent a"
| "stored_payload p = p"

fun payload_ok :: "payload \<Rightarrow> bool" where
  "payload_ok (MessageEvent m) = meta_ok (msg_Meta m)"
| "payload_ok (PtrMessageEvent (Some m)) = meta_ok (msg_Meta m)"
| "payload_ok (AssistantTurnEvent a) = meta_ok (msg_Meta (at_Message a))"
| "payload_ok (PtrAssistantTurnEvent (Some a)) = meta_ok (msg_Meta (at_Message a))"
| "payload_ok (AnnotationEvent a) = meta_ok (an_Meta a)"
| "payload_ok (PtrAnnotationEvent (Some a)) = meta_ok (an_Meta a)"
| "payload_ok p = True"

lemma rmap_Inr: "rmap f xs = Inr ys \<longleftrightarrow> list_all2 (\<lambda>x y. f x = Inr y) xs ys"
proof (induction xs arbitrary: ys)
  case (Cons x xs)
  then show ?case by (cases ys) (auto simp: rbind_Inr_iff)
qed (auto)

lemma part_wire: "contentPartToWire p = Inr w \<Longrightarrow> part_from_wire w = [value_part p]"
  by (cases p rule: contentPartToWire.cases) (auto simp: part_from_wire_def derefBlobSource_def no_part_def)

lemma parts_wire: "contentPartsToWire ps = Inr ws \<Longrightarrow> contentPartsFromWire ws = map value_part ps"
  unfolding contentPartsToWire_def rmap_Inr
  by (induction rule: list_all2_induct) (simp_all add: contentPartsFromWire_def part_wire)

lemma result_wire:
  "result_to_wire r = Inr w \<Longrightarrow> \<lparr>res_ToolCallID = wr_ToolCallID w, res_Name = wr_Name w,
     res_Content = contentPartsFromWire (wr_Content w), res_IsError = wr_IsError w\<rparr> = value_result r"
  by (auto simp: result_to_wire_def rbind_Inr_iff value_result_def dest: parts_wire)

lemma results_wire:
  "list_all2 (\<lambda>r w. result_to_wire r = Inr w) rs ws \<Longrightarrow> map (\<lambda>w. \<lparr>res_ToolCallID = wr_ToolCallID w, res_Name = wr_Name w,
     res_Content = contentPartsFromWire (wr_Content w), res_IsError = wr_IsError w\<rparr>) ws = map value_result rs"
  by (induction rule: list_all2_induct) (simp_all add: result_wire)

lemma message_wire: "messageToWire m = Inr w \<Longrightarrow> wire_unified w = value_message m \<and> wm_Meta w = msg_Meta m"
  by (auto simp: messageToWire_def rbind_Inr_iff rmap_Inr wire_unified_def value_message_def parts_wire results_wire)

lemma unmarshal_message:
  assumes "unified_json_ok u" "meta_ok (wm_Meta w)"
  shows "unmarshalMessagePayload u (Doc (enc_message_event u w)) = Inr (MessageEvent (wire_unified w))"
    "unmarshalAssistantTurnPayload u (Doc (enc_message_event u w)) = Inr (AssistantTurnEvent
       \<lparr>at_Message = wire_unified w, at_FinishReason = [], at_Usage = [], at_Continuations = []\<rparr>)"
  using dec_enc_message [OF assms]
  by (simp_all add: unmarshalMessagePayload_def unmarshalAssistantTurnPayload_def enc_message_event_def message_event_handlers_def
      turn_handlers_def no_wire_turn_def at_field_apply del: dec_struct.simps(1) add: dec_struct.simps(1) [of "_ # _"])

lemma marshal_turn_reads:
  assumes "unified_json_ok u" "meta_ok (msg_Meta (at_Message a))" "marshal_turn u a = Inr (k, j)"
  shows "k = eventConversationAssistantMessage \<and> unmarshalAssistantTurnPayload u (Doc j) = Inr (stored_turn a)"
proof -
  obtain w where w: "messageToWire (at_Message a) = Inr w" "k = eventConversationAssistantMessage"
    "j = enc_turn u \<lparr>wt_Message = w, wt_FinishReason = at_FinishReason a, wt_Usage = at_Usage a, wt_Continuations = at_Continuations a\<rparr>"
    using assms(3) by (auto simp: marshal_turn_def rbind_Inr_iff)
  then show ?thesis using message_wire [OF w(1)] assms(1,2)
    by (simp add: unmarshalAssistantTurnPayload_def dec_enc_turn stored_turn_def)
qed

lemma marshal_message_reads:
  assumes "unified_json_ok u" "meta_ok (msg_Meta m)" "marshalMessagePayload u m = Inr (k, j)" "ev_Kind e = k" "ev_Payload e = Doc j"
  shows "payloadFromThreadEvent u e = Inr (Some (stored_message m))"
proof -
  obtain w where w: "messageToWire m = Inr w" "j = enc_message_event u w"
    "k = (case msg_Role m of RoleUser \<Rightarrow> eventConversationUserMessage | RoleTool \<Rightarrow> eventConversationToolResult
       | RoleAssistant \<Rightarrow> eventConversationAssistantMessage | RoleOther r \<Rightarrow> eventConversationMessage)"
    using assms(3) by (auto simp: marshalMessagePayload_def rbind_Inr_iff)
  note r = unmarshal_message [OF assms(1), of w] message_wire [OF w(1)]
  show ?thesis using r assms(2,4,5) w(2,3)
    by (cases "msg_Role m") (simp_all add: payloadFromThreadEvent_def Let_def stored_message_def history_kind_defs)
qed

lemma payload_reads:
  assumes "unified_json_ok u" "payload_ok p" "marshalThreadPayload u p = Inr (k, j)" "ev_Kind e = k" "ev_Payload e = Doc j"
  shows "payloadFromThreadEvent u e = Inr (Some (stored_payload p))"
proof -
  have turn: "payloadFromThreadEvent u e = Inr (Some (stored_turn a))" if "meta_ok (msg_Meta (at_Message a))" "marshal_turn u a = Inr (k, j)" for a
    using marshal_turn_reads [OF assms(1) that] assms(4,5) by (simp add: payloadFromThreadEvent_def Let_def history_kind_defs)
  have c: "dec_struct compaction_handlers (enc_compaction c) no_compaction = Inr c" for c using compaction_codec.dec_enc [of c] by simp
  have a: "dec_struct annotation_handlers (enc_annotation a) no_annotation = Inr a" if "meta_ok (an_Meta a)" for a
    using annotation_codec.dec_enc [OF that] .
  show ?thesis using assms turn c a marshal_message_reads [OF assms(1) _ _ assms(4,5)]
    by (cases p rule: stored_payload.cases) (auto simp: payloadFromThreadEvent_def Let_def history_kind_defs)
qed

section \<open>An instance of the encoding\<close>

fun demo_role :: "role \<Rightarrow> json" where
  "demo_role RoleUser = JStr ''user''"
| "demo_role RoleAssistant = JStr ''assistant''"
| "demo_role RoleTool = JStr ''tool''"
| "demo_role (RoleOther r) = JArr [JStr r]"

fun demo_role_dec :: "role decoder" where
  "demo_role_dec (JStr t) r = Inr (if t = ''user'' then RoleUser else if t = ''assistant'' then RoleAssistant else RoleTool)"
| "demo_role_dec (JArr [JStr t]) r = Inr (RoleOther t)"
| "demo_role_dec _ r = Inl TypeMismatch"

fun demo_kind :: "content_kind \<Rightarrow> json" where
  "demo_kind KindText = JNum 1"
| "demo_kind KindImage = JNum 2"
| "demo_kind KindAudio = JNum 3"
| "demo_kind KindVideo = JNum 4"
| "demo_kind KindFile = JNum 5"
| "demo_kind KindReasoning = JNum 6"
| "demo_kind KindRefusal = JNum 7"
| "demo_kind KindNone = JNum 0"
| "demo_kind (KindOther k) = JStr k"

fun demo_kind_dec :: "content_kind decoder" where
  "demo_kind_dec (JNum i) k = Inr ([KindNone, KindText, KindImage, KindAudio, KindVideo, KindFile, KindReasoning, KindRefusal] ! nat i)"
| "demo_kind_dec (JStr t) k = Inr (KindOther t)"
| "demo_kind_dec _ k = Inl TypeMismatch"

fun demo_blob_dec :: "blob_source decoder" where
  "demo_blob_dec (JArr [JStr a, JStr b, JStr c]) z = Inr \<lparr>bs_URL = a, bs_Base64 = b, bs_Rest = c\<rparr>"
| "demo_blob_dec _ z = Inl TypeMismatch"

fun demo_call_dec :: "tool_call decoder" where
  "demo_call_dec (JArr [JStr a, JStr b, JStr c]) z = Inr \<lparr>call_ID = a, call_Name = b, call_Arguments = c\<rparr>"
| "demo_call_dec _ z = Inl TypeMismatch"

fun demo_ext_dec :: "(string, string) fmap decoder" where
  "demo_ext_dec (JObj kvs) z = Inr (fmap_of_list (map (\<lambda>(k, j). (k, case j of JStr t \<Rightarrow> t | _ \<Rightarrow> [])) kvs))"
| "demo_ext_dec _ z = Inl TypeMismatch"

definition demo_json :: unified_json where
  "demo_json = \<lparr>uj_Role = (demo_role, demo_role_dec), uj_Kind = (demo_kind, demo_kind_dec), uj_CacheControl = (JStr, dec_string),
     uj_BlobSource = (\<lambda>b. JArr [JStr (bs_URL b), JStr (bs_Base64 b), JStr (bs_Rest b)], demo_blob_dec),
     uj_ToolCall = (\<lambda>c. JArr [JStr (call_ID c), JStr (call_Name c), JStr (call_Arguments c)], demo_call_dec),
     uj_Usage = (\<lambda>t. if t = [] then None else Some (JStr t), dec_string),
     uj_Extensions = (\<lambda>m. if m = fmempty then None else Some (JObj (map (\<lambda>(k, v). (k, JStr v)) (sorted_list_of_fmap m))), demo_ext_dec)\<rparr>"

lemma demo_role_reads [simp]: "demo_role_dec (demo_role r) z = Inr r"
  by (cases r) simp_all

lemma demo_kind_reads [simp]: "demo_kind_dec (demo_kind k) z = Inr k"
  by (cases k) simp_all

lemma demo_ext_reads [simp]: "demo_ext_dec (JObj (map (\<lambda>(k, v). (k, JStr v)) (sorted_list_of_fmap m))) z = Inr m"
proof -
  have "map (\<lambda>(k, j). (k, case j of JStr t \<Rightarrow> t | _ \<Rightarrow> [])) (map (\<lambda>(k, v). (k, JStr v)) kvs) = kvs" for kvs :: "(string \<times> string) list"
    by (induction kvs) auto
  moreover have "fmap_of_list (sorted_list_of_fmap m) = m" by (rule fmap_ext) (simp add: fmlookup_of_list)
  ultimately show ?thesis by simp
qed

lemma demo_json_ok: "unified_json_ok demo_json"
  by (simp add: unified_json_ok_def demo_json_def lossless_def lossless_opt_def del: demo_ext_dec.simps)

end
