(* ===== verification/Thread_History.thy ===== *)
theory Thread_History
  imports History_Events
begin

text \<open>
  The history of a conversation over a live thread (\<^verbatim>\<open>src/runtime/history.go\<close>) and the fragment a turn commits
  (\<^verbatim>\<open>src/conversation/turn_fragment.go\<close>). Every node is appended to the thread before it is inserted into the
  tree, and a history is resumed by inserting the nodes of the events of its branch. The live thread is
  used through its \<^verbatim>\<open>Append\<close> and the store through \<^verbatim>\<open>Read\<close>. Node identifiers and the clock are arguments.
  The defaults of a request and building one are not modelled.
\<close>

section \<open>Turn fragments\<close>

record turn_fragment =
  tf_requestMessages :: "message list"
  tf_assistant :: message
  tf_finishReason :: string
  tf_usage :: string
  tf_continuations :: "provider_continuation list"
  tf_completed :: bool
  tf_err :: "string option"

definition NewTurnFragment :: turn_fragment where
  "NewTurnFragment = \<lparr>tf_requestMessages = [], tf_assistant = no_message, tf_finishReason = [], tf_usage = [], tf_continuations = [],
     tf_completed = False, tf_err = None\<rparr>"

definition AddRequestMessages :: "message list \<Rightarrow> turn_fragment \<Rightarrow> turn_fragment" where
  "AddRequestMessages ms f = f\<lparr>tf_requestMessages := tf_requestMessages f @ ms\<rparr>"

definition SetAssistantMessage :: "message \<Rightarrow> turn_fragment \<Rightarrow> turn_fragment" where
  "SetAssistantMessage m f = f\<lparr>tf_assistant := m\<rparr>"

definition SetUsage :: "string \<Rightarrow> turn_fragment \<Rightarrow> turn_fragment" where
  "SetUsage u f = f\<lparr>tf_usage := u\<rparr>"

definition AddContinuation :: "provider_continuation \<Rightarrow> turn_fragment \<Rightarrow> turn_fragment" where
  "AddContinuation c f = (if pc_ResponseID c \<noteq> [] then f\<lparr>tf_continuations := tf_continuations f @ [c]\<rparr> else f)"

definition Fragment_Complete :: "string \<Rightarrow> turn_fragment \<Rightarrow> turn_fragment" where
  "Fragment_Complete reason f = f\<lparr>tf_finishReason := reason, tf_completed := True\<rparr>"

definition Fragment_Fail :: "string option \<Rightarrow> turn_fragment \<Rightarrow> turn_fragment" where
  "Fragment_Fail err f = f\<lparr>tf_err := err\<rparr>"

definition isZeroMessage :: "message \<Rightarrow> bool" where
  "isZeroMessage m \<longleftrightarrow> msg_Role m = RoleOther [] \<and> msg_ID m = [] \<and> msg_Name m = [] \<and> msg_Phase m = [] \<and> msg_Content m = [] \<and>
     msg_ToolCalls m = [] \<and> msg_ToolResults m = [] \<and> msg_Meta m = []"

datatype compaction_error = ReplacementRequired | ReplacementNotFound string

datatype 'e history_error =
    HistWire wire_error
  | PayloadMissing
  | DuplicateNode string
  | LiveRequired
  | SummaryRequired
  | HistCompaction compaction_error
  | FragmentNil
  | FragmentFailed string
  | FragmentIncomplete
  | FragmentEmpty
  | HistJson json_error
  | HistThread 'e
  | HistView thread_error
  | HistTree conv_error

text \<open>Whether usage has tokens or costs is asked of \<^verbatim>\<open>unified\<close>.\<close>

definition Fragment_Payloads :: "(string \<Rightarrow> bool) \<Rightarrow> turn_fragment \<Rightarrow> ('e history_error, payload list) result" where
  "Fragment_Payloads counted f =
     (case tf_err f of Some e \<Rightarrow> Inl (FragmentFailed e) | None \<Rightarrow>
        if \<not> tf_completed f then Inl FragmentIncomplete
        else
          let ps = map MessageEvent (tf_requestMessages f) @
            (if \<not> isZeroMessage (tf_assistant f) \<or> tf_continuations f \<noteq> [] \<or> tf_finishReason f \<noteq> [] \<or> counted (tf_usage f)
             then [AssistantTurnEvent \<lparr>at_Message = tf_assistant f, at_FinishReason = tf_finishReason f, at_Usage = tf_usage f,
               at_Continuations = tf_continuations f\<rparr>] else [])
          in if ps = [] then Inl FragmentEmpty else Inr ps)"

section \<open>Histories\<close>

record history =
  hs_sessionID :: string
  hs_sessionIDExplicit :: bool
  hs_branch :: string
  hs_tree :: tree
  hs_live :: bool

definition NewHistory :: "string \<Rightarrow> history" where
  "NewHistory sid = \<lparr>hs_sessionID = sid, hs_sessionIDExplicit = False, hs_branch = ConvMainBranch, hs_tree = NewTree, hs_live = False\<rparr>"

definition WithHistorySessionID :: "string \<Rightarrow> history \<Rightarrow> history" where
  "WithHistorySessionID i h = (if i \<noteq> [] then h\<lparr>hs_sessionID := i, hs_sessionIDExplicit := True\<rparr> else h)"

definition WithHistoryLiveThread :: "history \<Rightarrow> history" where
  "WithHistoryLiveThread h = h\<lparr>hs_live := True\<rparr>"

text \<open>The first loop of \<^verbatim>\<open>appendPayloads\<close>; a nil payload is \<^term>\<open>None\<close>.\<close>

fun draft_nodes :: "(nat \<Rightarrow> string) \<Rightarrow> nat \<Rightarrow> time \<Rightarrow> tree \<Rightarrow> string \<Rightarrow> payload option list \<Rightarrow> ('e history_error, node list) result" where
  "draft_nodes ids k now t parent [] = Inr []"
| "draft_nodes ids k now t parent (p # ps) =
     (if p = None then Inl PayloadMissing
      else if Tree_Node (ids k) t \<noteq> None then Inl (DuplicateNode (ids k))
      else rbind (draft_nodes ids (Suc k) now t (ids k) ps) (\<lambda>ns. Inr
        (\<lparr>nd_ID = ids k, nd_Parent = parent, nd_Payload = p, nd_CreatedAt = now\<rparr> # ns)))"

fun insert_nodes :: "time \<Rightarrow> string \<Rightarrow> node list \<Rightarrow> tree \<Rightarrow> (conv_error, unit) result \<times> tree" where
  "insert_nodes now b [] t = (Inr (), t)"
| "insert_nodes now b (n # ns) t =
     (case Tree_InsertNode now b n t of (Inl e, t') \<Rightarrow> (Inl e, t') | (Inr _, t') \<Rightarrow> insert_nodes now b ns t')"

definition conversation_source :: "string \<Rightarrow> event_source" where
  "conversation_source sid = \<lparr>src_Type = ''conversation'', src_ID = [], src_SessionID = sid\<rparr>"

fun node_events :: "unified_json \<Rightarrow> history \<Rightarrow> string \<Rightarrow> node list \<Rightarrow> (wire_error, event list) result" where
  "node_events u h parent [] = Inr []"
| "node_events u h parent (n # ns) =
     rbind (threadEventFromPayload u (the (nd_Payload n)) (no_event\<lparr>ev_BranchID := hs_branch h, ev_NodeID := nd_ID n,
       ev_ParentNodeID := parent, ev_At := nd_CreatedAt n, ev_Source := conversation_source (hs_sessionID h)\<rparr>)) (\<lambda>e.
     rbind (node_events u h (nd_ID n) ns) (\<lambda>es. Inr (e # es)))"

definition insert_all :: "time \<Rightarrow> node list \<Rightarrow> history \<Rightarrow> 's \<Rightarrow> ('e history_error, string list) result \<times> history \<times> 's" where
  "insert_all now ns h s =
     (case insert_nodes now (hs_branch h) ns (hs_tree h) of
        (r, t') \<Rightarrow> (map_sum HistTree (\<lambda>_. map nd_ID ns) r, h\<lparr>hs_tree := t'\<rparr>, s))"

definition appendPayloads ::
  "unified_json \<Rightarrow> (event list \<Rightarrow> 's \<Rightarrow> ('e, unit) result \<times> 's) \<Rightarrow> (nat \<Rightarrow> string) \<Rightarrow> time \<Rightarrow> event list \<Rightarrow> payload option list \<Rightarrow>
    history \<Rightarrow> 's \<Rightarrow> ('e history_error, string list) result \<times> history \<times> 's" where
  "appendPayloads u app ids now prefixEvents ps h s =
     (let parent = (case Tree_Head (hs_branch h) (hs_tree h) of None \<Rightarrow> [] | Some i \<Rightarrow> i) in
      case draft_nodes ids 0 now (hs_tree h) parent ps of
        Inl e \<Rightarrow> (Inl e, h, s)
      | Inr ns \<Rightarrow>
          if \<not> hs_live h then
            (if prefixEvents \<noteq> [] then (Inl LiveRequired, h, s) else insert_all now ns h s)
          else
            (case node_events u h parent ns of
               Inl e \<Rightarrow> (Inl (HistWire e), h, s)
             | Inr es \<Rightarrow>
                 (case app (prefixEvents @ es) s of
                    (Inl e, s') \<Rightarrow> (Inl (HistThread e), h, s')
                  | (Inr _, s') \<Rightarrow> insert_all now ns h s')))"

definition AppendContext ::
  "unified_json \<Rightarrow> (event list \<Rightarrow> 's \<Rightarrow> ('e, unit) result \<times> 's) \<Rightarrow> (nat \<Rightarrow> string) \<Rightarrow> time \<Rightarrow> payload option \<Rightarrow>
    history \<Rightarrow> 's \<Rightarrow> ('e history_error, string) result \<times> history \<times> 's" where
  "AppendContext u app ids now p h s =
     (case appendPayloads u app ids now [] [p] h s of (r, h', s') \<Rightarrow> (map_sum id hd r, h', s'))"

definition History_AddUser ::
  "unified_json \<Rightarrow> (event list \<Rightarrow> 's \<Rightarrow> ('e, unit) result \<times> 's) \<Rightarrow> (nat \<Rightarrow> string) \<Rightarrow> time \<Rightarrow> string \<Rightarrow>
    history \<Rightarrow> 's \<Rightarrow> ('e history_error, string) result \<times> history \<times> 's" where
  "History_AddUser u app ids now t h s =
     AppendContext u app ids now (Some (MessageEvent (no_message\<lparr>msg_Role := RoleUser, msg_Content := [plain_text t]\<rparr>))) h s"

definition CommitFragmentWithThreadEvents ::
  "unified_json \<Rightarrow> (string \<Rightarrow> bool) \<Rightarrow> (event list \<Rightarrow> 's \<Rightarrow> ('e, unit) result \<times> 's) \<Rightarrow> (nat \<Rightarrow> string) \<Rightarrow> time \<Rightarrow> turn_fragment option \<Rightarrow>
    event list \<Rightarrow> history \<Rightarrow> 's \<Rightarrow> ('e history_error, string list) result \<times> history \<times> 's" where
  "CommitFragmentWithThreadEvents u counted app ids now fragment events h s =
     (case fragment of
        None \<Rightarrow> (Inl FragmentNil, h, s)
      | Some f \<Rightarrow>
          (case Fragment_Payloads counted f of
             Inl e \<Rightarrow> (Inl e, h, s)
           | Inr ps \<Rightarrow> appendPayloads u app ids now events (map Some ps) h s))"

definition AppendThreadEvents ::
  "(event list \<Rightarrow> 's \<Rightarrow> ('e, unit) result \<times> 's) \<Rightarrow> event list \<Rightarrow> history \<Rightarrow> 's \<Rightarrow> ('e history_error, unit) result \<times> 's" where
  "AppendThreadEvents app events h s =
     (if events = [] then (Inr (), s)
      else if \<not> hs_live h then (Inl LiveRequired, s)
      else case app events s of (r, s') \<Rightarrow> (map_sum HistThread id r, s'))"

text \<open>\<^verbatim>\<open>setCompactionFloor\<close>; \<^term>\<open>None\<close> if walking the path does not end.\<close>

definition setCompactionFloor :: "string list \<Rightarrow> history \<Rightarrow> history option" where
  "setCompactionFloor replaced h =
     map_option (\<lambda>r. case r of
         Inl e \<Rightarrow> h
       | Inr path \<Rightarrow>
           (case find (\<lambda>n. nd_ID n \<notin> set replaced) path of
              None \<Rightarrow> h
            | Some n \<Rightarrow> h\<lparr>hs_tree := Tree_SetFloor (hs_branch h) (nd_ID n) (hs_tree h)\<rparr>))
       (Tree_Path (hs_branch h) (hs_tree h))"

fun replacement_error :: "tree \<Rightarrow> string list \<Rightarrow> compaction_error option" where
  "replacement_error t [] = None"
| "replacement_error t (i # is) =
     (if i = [] then Some ReplacementRequired
      else if Tree_Node i t = None then Some (ReplacementNotFound i) else replacement_error t is)"

definition CompactContext ::
  "unified_json \<Rightarrow> (event list \<Rightarrow> 's \<Rightarrow> ('e, unit) result \<times> 's) \<Rightarrow> (nat \<Rightarrow> string) \<Rightarrow> time \<Rightarrow> string \<Rightarrow> string list \<Rightarrow>
    history \<Rightarrow> 's \<Rightarrow> (('e history_error, string) result \<times> history \<times> 's) option" where
  "CompactContext u app ids now summary0 replaces h s =
     (let summary = TrimSpace summary0 in
      if summary = [] then Some (Inl SummaryRequired, h, s)
      else case replacement_error (hs_tree h) replaces of
        Some e \<Rightarrow> Some (Inl (HistCompaction e), h, s)
      | None \<Rightarrow>
          (case AppendContext u app ids now (Some (CompactionEvent \<lparr>cmp_Summary = summary, cmp_Replaces = replaces\<rparr>)) h s of
             (Inl e, h', s') \<Rightarrow> Some (Inl e, h', s')
           | (Inr i, h', s') \<Rightarrow> map_option (\<lambda>h''. (Inr i, h'', s')) (setCompactionFloor replaces h')))"

section \<open>Resuming\<close>

text \<open>One event of the branch: the tree, the session and what the last compaction replaced.\<close>

definition resume_step ::
  "unified_json \<Rightarrow> time \<Rightarrow> tree \<times> string \<times> string list \<Rightarrow> event \<Rightarrow> (json_error + conv_error, tree \<times> string \<times> string list) result" where
  "resume_step u now st e =
     (case st of (t, sid, replaced) \<Rightarrow>
        let sid' = (if sid = [] then src_SessionID (ev_Source e) else sid) in
        case payloadFromThreadEvent u e of
          Inl err \<Rightarrow> Inl (Inl err)
        | Inr None \<Rightarrow> Inr (t, sid', replaced)
        | Inr (Some p) \<Rightarrow>
            let replaced' = (if ev_Kind e = eventConversationCompaction
                             then (case p of CompactionEvent c \<Rightarrow> cmp_Replaces c | _ \<Rightarrow> replaced) else replaced)
            in case Tree_InsertNode now (ev_BranchID e) \<lparr>nd_ID = ev_NodeID e, nd_Parent = ev_ParentNodeID e, nd_Payload = Some p,
                nd_CreatedAt = ev_At e\<rparr> t of
                 (Inl err, _) \<Rightarrow> Inl (Inr err)
               | (Inr _, t') \<Rightarrow> Inr (t', sid', replaced'))"

definition resume_events :: "unified_json \<Rightarrow> time \<Rightarrow> string \<Rightarrow> event list \<Rightarrow> history \<Rightarrow> ('e history_error, history) result option" where
  "resume_events u now b es h0 =
     (case rfold (resume_step u now) (hs_tree h0, [], []) es of
        Inl e \<Rightarrow> Some (Inl (case_sum HistJson HistTree e))
      | Inr (t, sid, replaced) \<Rightarrow>
          let h1 = h0\<lparr>hs_branch := b, hs_tree := t\<rparr> in
          map_option (\<lambda>h. Inr (if \<not> hs_sessionIDExplicit h \<and> sid \<noteq> [] then h\<lparr>hs_sessionID := sid\<rparr> else h))
            (if replaced \<noteq> [] then setCompactionFloor replaced h1 else Some h1))"

text \<open>The argument \<^term>\<open>h0\<close> is the new history with the options of the caller applied.\<close>

definition ResumeHistoryFromThread ::
  "unified_json \<Rightarrow> time \<Rightarrow> ('e, stored) result \<Rightarrow> string \<Rightarrow> history \<Rightarrow> ('e history_error, history) result option" where
  "ResumeHistoryFromThread u now read b h0 =
     (case read of
        Inl e \<Rightarrow> Some (Inl (HistThread e))
      | Inr st \<Rightarrow> Option.bind (EventsForBranch st b) (\<lambda>r.
          case r of Inl e \<Rightarrow> Some (Inl (HistView e)) | Inr es \<Rightarrow> resume_events u now b es (WithHistoryLiveThread h0)))"

section \<open>What a resumed tree has\<close>

definition store_node :: "node \<Rightarrow> node" where
  "store_node n = n\<lparr>nd_Payload := map_option stored_payload (nd_Payload n)\<rparr>"

definition stored_tree :: "tree \<Rightarrow> tree \<Rightarrow> bool" where
  "stored_tree T t \<longleftrightarrow> tr_nodes t = fmmap store_node (tr_nodes T) \<and> tr_branches t = tr_branches T \<and> tr_floors t = fmempty"

definition conversation_kinds :: "string list" where
  "conversation_kinds = [eventConversationUserMessage, eventConversationAssistantMessage, eventConversationToolResult,
     eventConversationMessage, eventConversationCompaction, eventConversationAnnotation]"

lemma store_node_sel [simp]:
  "nd_ID (store_node n) = nd_ID n" "nd_Parent (store_node n) = nd_Parent n" "nd_CreatedAt (store_node n) = nd_CreatedAt n"
  by (simp_all add: store_node_def)

lemma fmmap_upd [simp]: "fmmap f (fmupd k v m) = fmupd k (f v) (fmmap f m)"
  by (rule fmap_ext) simp

lemma insert_stored:
  assumes "stored_tree T t" "Tree_InsertNode now b n T = (Inr (), T')" "nd_Payload n = Some p" "nd_CreatedAt n \<noteq> zero_time"
  shows "\<exists>t'. Tree_InsertNode now' b \<lparr>nd_ID = nd_ID n, nd_Parent = nd_Parent n, nd_Payload = Some (stored_payload p),
    nd_CreatedAt = nd_CreatedAt n\<rparr> t = (Inr (), t') \<and> stored_tree T' t'"
proof -
  have n: "\<lparr>nd_ID = nd_ID n, nd_Parent = nd_Parent n, nd_Payload = Some (stored_payload p), nd_CreatedAt = nd_CreatedAt n\<rparr> = store_node n"
    using assms(3) by (cases n) (simp add: store_node_def)
  show ?thesis unfolding n using assms
    by (auto simp: Tree_InsertNode_def Let_def stored_tree_def store_node_def split: if_splits)
qed

lemma resume_other:
  "ev_Kind e \<notin> set conversation_kinds \<Longrightarrow> \<exists>sid'. resume_step u now (t, sid, rep) e = Inr (t, sid', rep)"
  by (simp add: resume_step_def payloadFromThreadEvent_def conversation_kinds_def Let_def)

lemma resume_others:
  "\<forall>e \<in> set es. ev_Kind e \<notin> set conversation_kinds \<Longrightarrow> \<exists>sid'. rfold (resume_step u now) (t, sid, rep) es = Inr (t, sid', rep)"
proof (induction es arbitrary: sid)
  case (Cons e es)
  then obtain sid1 where "resume_step u now (t, sid, rep) e = Inr (t, sid1, rep)" using resume_other by (metis list.set_intros(1))
  with Cons show ?case by simp
qed simp

definition replaced_after :: "string list \<Rightarrow> payload \<Rightarrow> string list" where
  "replaced_after rep p = (case stored_payload p of CompactionEvent c \<Rightarrow> cmp_Replaces c | _ \<Rightarrow> rep)"

lemma marshal_kind:
  assumes "marshalThreadPayload u p = Inr (k, j)"
  shows "k = eventConversationCompaction \<longleftrightarrow> (\<exists>c. stored_payload p = CompactionEvent c)"
proof -
  have m: "marshalMessagePayload u m = Inr (k, j) \<Longrightarrow> k \<noteq> eventConversationCompaction" for m
    by (auto simp: marshalMessagePayload_def rbind_Inr_iff history_kind_defs split: role.splits)
  have t: "marshal_turn u a = Inr (k, j) \<Longrightarrow> k \<noteq> eventConversationCompaction" for a
    by (auto simp: marshal_turn_def rbind_Inr_iff history_kind_defs)
  show ?thesis using assms m t
    by (cases p rule: stored_payload.cases) (auto simp: stored_message_def stored_turn_def history_kind_defs)
qed

lemma resume_node:
  assumes "unified_json_ok u" "stored_tree T t" "Tree_InsertNode now b n T = (Inr (), T')" "nd_Payload n = Some p" "payload_ok p"
    "nd_CreatedAt n \<noteq> zero_time" "b \<noteq> []"
    and e: "threadEventFromPayload u p (no_event\<lparr>ev_BranchID := b, ev_NodeID := nd_ID n, ev_ParentNodeID := nd_Parent n,
      ev_At := nd_CreatedAt n, ev_Source := src\<rparr>) = Inr e" and "logged b e e'"
  shows "\<exists>t' sid'. resume_step u now' (t, sid, rep) e' = Inr (t', sid', replaced_after rep p) \<and> stored_tree T' t'"
proof -
  obtain k j where kj: "marshalThreadPayload u p = Inr (k, j)" "e = no_event\<lparr>ev_BranchID := b, ev_NodeID := nd_ID n, ev_ParentNodeID := nd_Parent n,
      ev_At := nd_CreatedAt n, ev_Source := src, ev_Kind := k, ev_Payload := Doc j\<rparr>"
    using e by (auto simp: threadEventFromPayload_def rbind_Inr_iff)
  then have e': "ev_Kind e' = k" "ev_Payload e' = Doc j" "ev_NodeID e' = nd_ID n" "ev_ParentNodeID e' = nd_Parent n" "ev_BranchID e' = b"
    "ev_At e' = nd_CreatedAt n"
    using assms(6,7,9) by (simp_all add: logged_def)
  have "payloadFromThreadEvent u e' = Inr (Some (stored_payload p))"
    by (rule payload_reads [OF assms(1,5) kj(1) e'(1,2)])
  moreover obtain t' where "Tree_InsertNode now' b \<lparr>nd_ID = nd_ID n, nd_Parent = nd_Parent n, nd_Payload = Some (stored_payload p),
      nd_CreatedAt = nd_CreatedAt n\<rparr> t = (Inr (), t')" "stored_tree T' t'" using insert_stored [OF assms(2-4,6)] by blast
  ultimately show ?thesis using e' marshal_kind [OF kj(1)]
    by (auto simp: resume_step_def Let_def replaced_after_def split: payload.splits)
qed

fun linked_from :: "string \<Rightarrow> node list \<Rightarrow> bool" where
  "linked_from parent [] = True"
| "linked_from parent (n # ns) = (nd_Parent n = parent \<and> linked_from (nd_ID n) ns)"

lemma draft_nodes_linked:
  "draft_nodes ids k now t parent ps = Inr ns \<Longrightarrow> linked_from parent ns \<and> map nd_Payload ns = ps \<and>
     (\<forall>n \<in> set ns. nd_CreatedAt n = now \<and> nd_Payload n \<noteq> None \<and> fmlookup (tr_nodes t) (nd_ID n) = None)"
  by (induction ps arbitrary: k parent ns) (auto simp: rbind_Inr_iff Tree_Node_def split: if_splits)

lemma insert_nodes_Cons:
  assumes "insert_nodes now b (n # ns) T = (Inr (), T')"
  obtains T1 where "Tree_InsertNode now b n T = (Inr (), T1)" "insert_nodes now b ns T1 = (Inr (), T')"
proof -
  obtain r T1 where "Tree_InsertNode now b n T = (r, T1)" by fastforce
  with assms that show thesis by (cases r) auto
qed

lemma resume_nodes:
  assumes "unified_json_ok u" "hs_branch h = b" "b \<noteq> []" "node_events u h parent ns = Inr es" "list_all2 (logged b) es new"
    "insert_nodes now b ns T = (Inr (), T')" "stored_tree T t" "linked_from parent ns"
    "\<forall>n \<in> set ns. nd_CreatedAt n \<noteq> zero_time \<and> (\<exists>p. nd_Payload n = Some p \<and> payload_ok p)"
  shows "\<exists>t' sid'. rfold (resume_step u now') (t, sid, rep) new =
    Inr (t', sid', fold (\<lambda>n r. replaced_after r (the (nd_Payload n))) ns rep) \<and> stored_tree T' t'"
  using assms(4-9)
proof (induction ns arbitrary: parent es new T t sid rep)
  case (Cons n ns)
  obtain p where p: "nd_Payload n = Some p" "payload_ok p" "nd_CreatedAt n \<noteq> zero_time" using Cons.prems(6) by auto
  obtain e es' where e: "es = e # es'" "node_events u h (nd_ID n) ns = Inr es'"
    "threadEventFromPayload u p (no_event\<lparr>ev_BranchID := b, ev_NodeID := nd_ID n, ev_ParentNodeID := nd_Parent n,
       ev_At := nd_CreatedAt n, ev_Source := conversation_source (hs_sessionID h)\<rparr>) = Inr e"
    using Cons.prems(1,5) p(1) assms(2) by (auto simp: rbind_Inr_iff)
  obtain e' new' where n: "new = e' # new'" "logged b e e'" "list_all2 (logged b) es' new'"
    using Cons.prems(2) unfolding e(1) by (cases new) auto
  obtain T1 where T1: "Tree_InsertNode now b n T = (Inr (), T1)" "insert_nodes now b ns T1 = (Inr (), T')"
    using Cons.prems(3) by (rule insert_nodes_Cons)
  obtain t1 sid1 where t1: "resume_step u now' (t, sid, rep) e' = Inr (t1, sid1, replaced_after rep p)" "stored_tree T1 t1"
    using resume_node [OF assms(1) Cons.prems(4) T1(1) p(1,2,3) assms(3) e(3) n(2)] by blast
  have "linked_from (nd_ID n) ns" using Cons.prems(5) by simp
  from Cons.IH [OF e(2) n(3) T1(2) t1(2) this, of sid1 "replaced_after rep p"] Cons.prems(6) t1(1) show ?case
    unfolding n(1) by (simp add: p(1))
qed auto

lemma insert_node_path:
  assumes "Tree_InsertNode now b n T = (Inr (), T')" "nd_CreatedAt n \<noteq> zero_time" "path_ok (tr_nodes T) [] (nd_Parent n) P"
  shows "fmlookup (tr_branches T') (or_main b) = Some (nd_ID n) \<and> path_ok (tr_nodes T') [] (nd_ID n) (n # P) \<and> tr_floors T' = tr_floors T"
proof -
  have T': "T' = T\<lparr>tr_nodes := fmupd (nd_ID n) n (tr_nodes T), tr_branches := fmupd (or_main b) (nd_ID n) (tr_branches T)\<rparr>"
    "nd_ID n \<noteq> []" "fmlookup (tr_nodes T) (nd_ID n) = None"
    using assms(1,2) by (auto simp: Tree_InsertNode_def Let_def split: if_splits)
  have "path_ok (tr_nodes T') [] (nd_Parent n) P"
    by (rule path_ok_mono [OF assms(3)]) (use T' in auto)
  then show ?thesis using T' by simp
qed

lemma insert_nodes_path:
  assumes "insert_nodes now b ns T = (Inr (), T')" "linked_from parent ns" "\<forall>n \<in> set ns. nd_CreatedAt n \<noteq> zero_time"
    "tree_wf T" "fmlookup (tr_branches T) (or_main b) = Some parent" "path_ok (tr_nodes T) [] parent P"
  shows "\<exists>head. fmlookup (tr_branches T') (or_main b) = Some head \<and> path_ok (tr_nodes T') [] head (rev ns @ P) \<and>
    tr_floors T' = tr_floors T \<and> tree_wf T'"
  using assms
proof (induction ns arbitrary: T parent P)
  case (Cons n ns)
  obtain T1 where T1: "Tree_InsertNode now b n T = (Inr (), T1)" "insert_nodes now b ns T1 = (Inr (), T')"
    using Cons.prems(1) by (rule insert_nodes_Cons)
  have "nd_CreatedAt n \<noteq> zero_time" "nd_Parent n = parent" using Cons.prems(2,3) by auto
  with insert_node_path [OF T1(1)] Cons.prems(6)
  have p: "fmlookup (tr_branches T1) (or_main b) = Some (nd_ID n)" "path_ok (tr_nodes T1) [] (nd_ID n) (n # P)" "tr_floors T1 = tr_floors T"
    by blast+
  have "tree_wf T1" using InsertNode_wf Cons.prems(4) T1(1) by blast
  from Cons.IH [OF T1(2) _ _ this p(1,2)] Cons.prems(2,3) p(3) show ?case by simp
qed auto

section \<open>Histories and their threads\<close>

lemma appendPayloads_live:
  fixes app :: "event list \<Rightarrow> 's \<Rightarrow> ('e, unit) result \<times> 's"
  assumes "appendPayloads u app ids now pre ps h s = (Inr out, h', s')" "hs_live h" "Tree_Head (hs_branch h) (hs_tree h) = Some parent"
  obtains ns es T' where "draft_nodes ids 0 now (hs_tree h) parent ps = (Inr ns :: ('e history_error, node list) result)"
    "node_events u h parent ns = Inr es" "app (pre @ es) s = (Inr (), s')"
    "insert_nodes now (hs_branch h) ns (hs_tree h) = (Inr (), T')" "h' = h\<lparr>hs_tree := T'\<rparr>" "out = map nd_ID ns"
proof -
  obtain ns where ns: "draft_nodes ids 0 now (hs_tree h) parent ps = (Inr ns :: ('e history_error, node list) result)"
    using assms by (cases "draft_nodes ids 0 now (hs_tree h) parent ps :: ('e history_error, node list) result")
      (simp_all add: appendPayloads_def)
  obtain es where es: "node_events u h parent ns = Inr es"
    using assms ns by (cases "node_events u h parent ns") (simp_all add: appendPayloads_def)
  obtain y s1 where y: "app (pre @ es) s = (y, s1)" by fastforce
  then obtain v where v: "y = Inr v" using assms ns es by (cases y) (simp_all add: appendPayloads_def)
  obtain r T' where r: "insert_nodes now (hs_branch h) ns (hs_tree h) = (r, T')" by fastforce
  have "insert_all now ns h s1 = (Inr out :: ('e history_error, string list) result, h', s')" using assms ns es y v by (simp add: appendPayloads_def)
  then have "r = Inr ()" "h' = h\<lparr>hs_tree := T'\<rparr>" "out = map nd_ID ns" "s1 = s'"
    using r by (cases r; simp add: insert_all_def)+
  then show thesis using that ns es y v r by simp
qed

definition replays :: "unified_json \<Rightarrow> event list \<Rightarrow> tree \<Rightarrow> string list \<Rightarrow> bool" where
  "replays u es T rep \<longleftrightarrow> (\<forall>now. \<exists>t sid. rfold (resume_step u now) (NewTree, [], []) es = Inr (t, sid, rep) \<and> stored_tree T t)"

definition floors_ok :: "tree \<Rightarrow> string \<Rightarrow> node list \<Rightarrow> string list \<Rightarrow> bool" where
  "floors_ok T b P rep \<longleftrightarrow> (\<forall>b' f. fmlookup (tr_floors T) b' = Some f \<longrightarrow> b' = b \<and> f \<in> nd_ID ` set P \<and> f \<notin> set rep) \<and>
     (tr_floors T = fmempty \<longrightarrow> rep = [])"

text \<open>A history in step with the log \<^term>\<open>es\<close> of its branch.\<close>

definition hist_inv :: "unified_json \<Rightarrow> string \<Rightarrow> history \<Rightarrow> event list \<Rightarrow> bool" where
  "hist_inv u b h es \<longleftrightarrow> hs_live h \<and> hs_branch h = b \<and> b \<noteq> [] \<and> tree_wf (hs_tree h) \<and>
     (\<exists>head P rep. fmlookup (tr_branches (hs_tree h)) b = Some head \<and> path_ok (tr_nodes (hs_tree h)) [] head P \<and>
        replays u es (hs_tree h) rep \<and> floors_ok (hs_tree h) b P rep)"

definition fresh_payload :: "payload option \<Rightarrow> bool" where
  "fresh_payload p \<longleftrightarrow> (\<forall>q. p = Some q \<longrightarrow> payload_ok q)"

definition other_event :: "string \<Rightarrow> event \<Rightarrow> bool" where
  "other_event b e \<longleftrightarrow> own_event b e \<and> ev_Kind e \<notin> set conversation_kinds"

lemma node_events_own:
  "node_events u h parent ns = Inr es \<Longrightarrow> hs_branch h = b \<Longrightarrow> e \<in> set es \<Longrightarrow> own_event b e"
proof (induction ns arbitrary: parent es)
  case (Cons n ns)
  then obtain e0 es' where e: "es = e0 # es'" "node_events u h (nd_ID n) ns = Inr es'"
    "threadEventFromPayload u (the (nd_Payload n)) (no_event\<lparr>ev_BranchID := b, ev_NodeID := nd_ID n, ev_ParentNodeID := parent,
       ev_At := nd_CreatedAt n, ev_Source := conversation_source (hs_sessionID h)\<rparr>) = Inr e0" by (auto simp: rbind_Inr_iff)
  then obtain k j where kj: "marshalThreadPayload u (the (nd_Payload n)) = Inr (k, j)" "ev_Kind e0 = k" "ev_BranchID e0 = b"
    by (auto simp: threadEventFromPayload_def rbind_Inr_iff)
  have "k \<in> set conversation_kinds"
    using kj(1) by (cases "the (nd_Payload n)" rule: stored_payload.cases)
      (auto simp: marshalMessagePayload_def marshal_turn_def rbind_Inr_iff conversation_kinds_def split: role.splits)
  then have "own_event b e0" using kj(2,3)
    by (auto simp: own_event_def conversation_kinds_def core_kinds_def history_kind_defs thread_kind_defs)
  then show ?case using Cons.IH [OF e(2) Cons.prems(2)] Cons.prems(3) e(1) by auto
qed simp

section \<open>Paths and floors\<close>

fun upto_floor :: "string \<Rightarrow> node list \<Rightarrow> node list" where
  "upto_floor f [] = []"
| "upto_floor f (n # ns) = n # (if nd_ID n = f then [] else upto_floor f ns)"

lemma upto_floor_ok: "ranked rank ns \<Longrightarrow> path_ok ns [] i P \<Longrightarrow> path_ok ns f i (upto_floor f P)"
  by (induction P arbitrary: i) (auto simp: ranked_def)

lemma Tree_Path_upto:
  assumes "tree_wf T" "fmlookup (tr_branches T) b = Some head" "path_ok (tr_nodes T) [] head P" "b \<noteq> []"
  shows "Tree_Path b T = Some (Inr (rev (upto_floor (floor_of T b) P)))"
proof -
  obtain rank where "ranked rank (tr_nodes T)" using assms(1) by (auto simp: tree_wf_def)
  from upto_floor_ok [OF this assms(3)] Tree_Path_ok [of T b head] assms(2,4) show ?thesis by (simp add: or_main_def)
qed

lemma path_ids:
  assumes "tree_wf T" "path_ok (tr_nodes T) [] head P"
  shows "distinct (map nd_ID P)" "[] \<notin> nd_ID ` set P"
proof -
  obtain rank where r: "ranked rank (tr_nodes T)" using assms(1) by (auto simp: tree_wf_def)
  then show "distinct (map nd_ID P)" using path_ok_linked [OF r assms(2)] by blast
  have "nd_ID n \<noteq> []" if "n \<in> set P" for n
    using assms(2) that by (induction P arbitrary: head) (use r in \<open>auto simp: ranked_def\<close>)
  then show "[] \<notin> nd_ID ` set P" by (metis imageE)
qed

lemma find_split: "find Q xs = Some x \<Longrightarrow> \<exists>ys zs. xs = ys @ x # zs \<and> Q x \<and> (\<forall>y \<in> set ys. \<not> Q y)"
proof (induction xs)
  case (Cons a xs)
  show ?case
  proof (cases "Q a")
    case False
    with Cons obtain ys zs where "xs = ys @ x # zs" "Q x" "\<forall>y \<in> set ys. \<not> Q y" by auto
    with False show ?thesis by (intro exI [of _ "a # ys"] exI [of _ zs]) simp
  qed (use Cons.prems in force)
qed simp

lemma upto_floor_absent: "f \<notin> nd_ID ` set P \<Longrightarrow> upto_floor f P = P"
  by (induction P) auto

lemma upto_floor_append: "f \<in> nd_ID ` set xs \<Longrightarrow> upto_floor f (xs @ ys) = upto_floor f xs"
  by (induction xs) auto

lemma upto_floor_prefix: "\<exists>zs. xs = upto_floor f xs @ zs"
  by (induction xs) auto

lemma upto_floor_last: "nd_ID m \<notin> nd_ID ` set xs \<Longrightarrow> upto_floor (nd_ID m) (xs @ m # ys) = xs @ [m]"
  by (induction xs) auto

lemma upto_floor_map [simp]: "upto_floor f (map store_node P) = map store_node (upto_floor f P)"
  by (induction P) simp_all

lemma stored_path: "path_ok ns [] i P \<Longrightarrow> path_ok (fmmap store_node ns) [] i (map store_node P)"
  by (induction P arbitrary: i) auto

lemma stored_wf:
  assumes "stored_tree T t" "tree_wf T"
  shows "tree_wf t"
proof -
  obtain rank where "ranked rank (tr_nodes T)" using assms(2) by (auto simp: tree_wf_def)
  then have "ranked rank (tr_nodes t)" using assms(1) by (auto simp: ranked_def stored_tree_def store_node_def)
  moreover have "heads_ok (tr_nodes t) (tr_branches t)"
    using assms by (auto simp: tree_wf_def heads_ok_def node_or_root_def stored_tree_def)
  ultimately show ?thesis by (auto simp: tree_wf_def)
qed

text \<open>The oldest node that was not replaced comes no later than any floor that was not replaced.\<close>

lemma oldest_kept:
  assumes "find (\<lambda>n. nd_ID n \<notin> set rep) (rev P) = Some m" "distinct (map nd_ID P)" "f \<in> nd_ID ` set P" "f \<notin> set rep"
  shows "\<exists>zs. upto_floor (nd_ID m) P = upto_floor f P @ zs"
proof -
  obtain ys xs where p: "rev P = ys @ m # xs" "nd_ID m \<notin> set rep" "\<forall>y \<in> set ys. nd_ID y \<in> set rep"
    using find_split [OF assms(1)] by auto
  then have P: "P = rev xs @ m # rev ys" by (metis append.assoc append_Cons append_Nil rev_append rev_rev_ident rev_singleton_conv)
  have "f \<in> nd_ID ` set (rev xs @ [m])" using assms(3,4) p(3) by (auto simp: P)
  then have "upto_floor f P = upto_floor f (rev xs @ [m])" using upto_floor_append [of f "rev xs @ [m]" "rev ys"] by (simp add: P)
  moreover have "upto_floor (nd_ID m) P = rev xs @ [m]" using assms(2) upto_floor_last [of m "rev xs"] by (auto simp: P)
  ultimately show ?thesis using upto_floor_prefix [of "rev xs @ [m]" f] by simp
qed

definition plain_payload :: "payload option \<Rightarrow> bool" where
  "plain_payload p \<longleftrightarrow> (\<exists>q. p = Some q \<and> payload_ok q \<and> (\<forall>c. stored_payload q \<noteq> CompactionEvent c))"

lemma replaced_plain: "plain_payload p \<Longrightarrow> replaced_after rep (the p) = rep"
  by (auto simp: plain_payload_def replaced_after_def split: payload.splits)

lemma replacements_exist: "replacement_error t is = None \<Longrightarrow> i \<in> set is \<Longrightarrow> fmlookup (tr_nodes t) i \<noteq> None"
  by (induction "is") (auto simp: Tree_Node_def split: if_splits)

lemma CompactContext_Inr:
  assumes "CompactContext u app ids now summary replaces h s = Some (Inr i, h', s')"
  obtains h1 out where "replacement_error (hs_tree h) replaces = None" "setCompactionFloor replaces h1 = Some h'"
    "appendPayloads u app ids now [] [Some (CompactionEvent \<lparr>cmp_Summary = TrimSpace summary, cmp_Replaces = replaces\<rparr>)] h s = (Inr out, h1, s')"
proof -
  let ?p = "Some (CompactionEvent \<lparr>cmp_Summary = TrimSpace summary, cmp_Replaces = replaces\<rparr>)"
  have r: "TrimSpace summary \<noteq> []" "replacement_error (hs_tree h) replaces = None"
    using assms by (auto simp: CompactContext_def Let_def split: if_splits option.splits)
  obtain x h1 s1 where x: "appendPayloads u app ids now [] [?p] h s = (x, h1, s1)" by (metis prod_cases3)
  with r obtain out where "x = Inr out" using assms by (cases x) (simp_all add: CompactContext_def AppendContext_def)
  with r x assms show thesis by (intro that [of h1 out]) (auto simp: CompactContext_def AppendContext_def)
qed

lemma compaction_floor:
  assumes "setCompactionFloor replaces h1 = Some h'" "tree_wf (hs_tree h1)" "fmlookup (tr_branches (hs_tree h1)) (hs_branch h1) = Some head"
    "path_ok (tr_nodes (hs_tree h1)) [] head (n # P)" "hs_branch h1 \<noteq> []" "nd_ID n \<notin> set replaces"
  obtains m where "hs_tree h' = Tree_SetFloor (hs_branch h1) (nd_ID m) (hs_tree h1)" "m \<in> set (n # P)" "nd_ID m \<notin> set replaces"
    "hs_live h' = hs_live h1" "hs_branch h' = hs_branch h1"
proof -
  let ?f = "floor_of (hs_tree h1) (hs_branch h1)"
  have p: "Tree_Path (hs_branch h1) (hs_tree h1) = Some (Inr (rev (upto_floor ?f (n # P))))"
    by (rule Tree_Path_upto [OF assms(2-5)])
  have "n \<in> set (rev (upto_floor ?f (n # P)))" by simp
  then have "find (\<lambda>n. nd_ID n \<notin> set replaces) (rev (upto_floor ?f (n # P))) \<noteq> None"
    using assms(6) unfolding find_None_iff by blast
  then obtain m where m: "find (\<lambda>n. nd_ID n \<notin> set replaces) (rev (upto_floor ?f (n # P))) = Some m" by blast
  then have "m \<in> set (upto_floor ?f (n # P))" "nd_ID m \<notin> set replaces" using find_split [OF m] by (metis in_set_conv_decomp set_rev)+
  moreover have "set (upto_floor ?f (n # P)) \<subseteq> set (n # P)" using upto_floor_prefix [of "n # P" ?f] by (metis Un_upper1 set_append)
  ultimately show thesis using that assms(1) p m by (auto simp: setCompactionFloor_def)
qed

context live_log
begin

lemma history_append:
  assumes "unified_json_ok u" "ok s" "view s = Some es" "hist_inv u branch h es"
    and "appendPayloads u (append ctx g) ids now pre ps h s = (Inr out, h', s')" "fits s'" "now \<noteq> zero_time"
    and "\<forall>p \<in> set ps. fresh_payload p" "\<forall>e \<in> set pre. other_event branch e"
  obtains es' head P rep ns where "ok s'" "view s' = Some es'" "hs_live h'" "hs_branch h' = branch" "tree_wf (hs_tree h')"
    "fmlookup (tr_branches (hs_tree h')) branch = Some head" "path_ok (tr_nodes (hs_tree h')) [] head (rev ns @ P)"
    "replays u es' (hs_tree h') (fold (\<lambda>p r. replaced_after r (the p)) ps rep)" "floors_ok (hs_tree h) branch P rep"
    "tr_floors (hs_tree h') = tr_floors (hs_tree h)" "map nd_Payload ns = ps"
    "\<forall>n \<in> set ns. fmlookup (tr_nodes (hs_tree h)) (nd_ID n) = None"
proof -
  have b: "branch \<noteq> []" "or_main branch = branch" using branch_named [OF assms(2)] by (simp_all add: or_main_def)
  obtain parent P rep where h: "hs_live h" "hs_branch h = branch" "tree_wf (hs_tree h)" "fmlookup (tr_branches (hs_tree h)) branch = Some parent"
    "path_ok (tr_nodes (hs_tree h)) [] parent P" "replays u es (hs_tree h) rep" "floors_ok (hs_tree h) branch P rep"
    using assms(4) unfolding hist_inv_def by blast
  have "Tree_Head (hs_branch h) (hs_tree h) = Some parent" using h(2,4) b(2) by (simp add: Tree_Head_def)
  then obtain ns nes T' where a: "draft_nodes ids 0 now (hs_tree h) parent ps = (Inr ns :: ('e history_error, node list) result)"
    "node_events u h parent ns = Inr nes" "append ctx g (pre @ nes) s = (Inr (), s')"
    "insert_nodes now branch ns (hs_tree h) = (Inr (), T')" "h' = h\<lparr>hs_tree := T'\<rparr>"
    using appendPayloads_live [OF assms(5) h(1)] h(2) by metis
  note d = draft_nodes_linked [OF a(1)]
  have own: "\<forall>e \<in> set (pre @ nes). own_event branch e"
    using node_events_own [OF a(2) h(2)] assms(9) by (auto simp: other_event_def)
  have ok': "ok s'" by (rule append_ok [OF assms(2) a(3) own assms(6)])
  obtain new where new: "view s' = Some (es @ new)" "list_all2 (logged branch) (pre @ nes) new"
    using append_logged [OF assms(2) a(3) own assms(6,3)] by blast
  then obtain n1 n2 where n: "new = n1 @ n2" "list_all2 (logged branch) pre n1" "list_all2 (logged branch) nes n2"
    by (auto simp: list_all2_append1)
  have "\<forall>e \<in> set n1. ev_Kind e \<notin> set conversation_kinds"
    using n(2) assms(9) by (induction rule: list_all2_induct) (auto simp: logged_def other_event_def)
  then have o: "\<exists>sid'. rfold (resume_step u now') (t, sid, rep) n1 = Inr (t, sid', rep)" for t sid now' by (rule resume_others)
  have pay: "\<forall>n \<in> set ns. nd_CreatedAt n \<noteq> zero_time \<and> (\<exists>p. nd_Payload n = Some p \<and> payload_ok p)"
    using d assms(7,8) by (fastforce simp: fresh_payload_def)
  have rep: "fold (\<lambda>n r. replaced_after r (the (nd_Payload n))) ns rep = fold (\<lambda>p r. replaced_after r (the p)) ps rep"
    using d by (simp add: fold_map comp_def flip: conjunct1 [OF conjunct2 [OF d]])
  have "replays u (es @ new) T' (fold (\<lambda>p r. replaced_after r (the p)) ps rep)"
    unfolding replays_def
  proof
    fix now'
    obtain t sid where t: "rfold (resume_step u now') (NewTree, [], []) es = Inr (t, sid, rep)" "stored_tree (hs_tree h) t"
      using h(6) unfolding replays_def by blast
    obtain sid' where o': "rfold (resume_step u now') (t, sid, rep) n1 = Inr (t, sid', rep)" using o by blast
    obtain t' sid'' where "rfold (resume_step u now') (t, sid', rep) n2 =
        Inr (t', sid'', fold (\<lambda>n r. replaced_after r (the (nd_Payload n))) ns rep)" "stored_tree T' t'"
      using resume_nodes [OF assms(1) h(2) b(1) a(2) n(3) a(4) t(2) _ pay] d by blast
    then show "\<exists>t' sid'. rfold (resume_step u now') (NewTree, [], []) (es @ new) =
        Inr (t', sid', fold (\<lambda>p r. replaced_after r (the p)) ps rep) \<and> stored_tree T' t'"
      using t(1) o' by (simp add: n(1) rfold_append rep)
  qed
  moreover obtain head where "fmlookup (tr_branches T') branch = Some head" "path_ok (tr_nodes T') [] head (rev ns @ P)"
    "tr_floors T' = tr_floors (hs_tree h)" "tree_wf T'"
    using insert_nodes_path [OF a(4) conjunct1 [OF d] _ h(3) _ h(5)] pay h(4) b(2) by auto
  ultimately show thesis using that ok' new(1) a(5) h d by simp
qed

lemma history_extends:
  assumes "unified_json_ok u" "ok s" "view s = Some es" "hist_inv u branch h es"
    and "appendPayloads u (append ctx g) ids now pre ps h s = (Inr out, h', s')" "fits s'" "now \<noteq> zero_time"
    and "\<forall>p \<in> set ps. plain_payload p" "\<forall>e \<in> set pre. other_event branch e"
  shows "ok s' \<and> (\<exists>es'. view s' = Some es' \<and> hist_inv u branch h' es')"
proof -
  have "\<forall>p \<in> set ps. fresh_payload p" using assms(8) by (auto simp: plain_payload_def fresh_payload_def)
  from history_append [OF assms(1-7) this assms(9)]
  obtain es' head P rep ns where a: "ok s'" "view s' = Some es'" "hs_live h'" "hs_branch h' = branch" "tree_wf (hs_tree h')"
    "fmlookup (tr_branches (hs_tree h')) branch = Some head" "path_ok (tr_nodes (hs_tree h')) [] head (rev ns @ P)"
    "replays u es' (hs_tree h') (fold (\<lambda>p r. replaced_after r (the p)) ps rep)" "floors_ok (hs_tree h) branch P rep"
    "tr_floors (hs_tree h') = tr_floors (hs_tree h)" by metis
  have "fold (\<lambda>p r. replaced_after r (the p)) ps rep = rep" using assms(8) by (induction ps) (auto simp: replaced_plain)
  moreover have "floors_ok (hs_tree h') branch (rev ns @ P) rep" using a(9,10) by (auto simp: floors_ok_def)
  ultimately show ?thesis using a branch_named [OF assms(2)] unfolding hist_inv_def by metis
qed

lemma history_compacts:
  assumes "unified_json_ok u" "ok s" "view s = Some es" "hist_inv u branch h es"
    and "CompactContext u (append ctx g) ids now summary replaces h s = Some (Inr i, h', s')" "fits s'" "now \<noteq> zero_time"
  shows "ok s' \<and> (\<exists>es'. view s' = Some es' \<and> hist_inv u branch h' es')"
proof -
  obtain h1 out where c: "replacement_error (hs_tree h) replaces = None" "setCompactionFloor replaces h1 = Some h'"
    "appendPayloads u (append ctx g) ids now [] [Some (CompactionEvent \<lparr>cmp_Summary = TrimSpace summary, cmp_Replaces = replaces\<rparr>)] h s = (Inr out, h1, s')"
    using assms(5) by (rule CompactContext_Inr)
  have "\<forall>p \<in> set [Some (CompactionEvent \<lparr>cmp_Summary = TrimSpace summary, cmp_Replaces = replaces\<rparr>)]. fresh_payload p"
    by (simp add: fresh_payload_def)
  from history_append [OF assms(1-4) c(3) assms(6,7) this] obtain es' head P rep ns where a0: "ok s'" "view s' = Some es'" "hs_live h1"
    "hs_branch h1 = branch" "tree_wf (hs_tree h1)" "fmlookup (tr_branches (hs_tree h1)) branch = Some head"
    "path_ok (tr_nodes (hs_tree h1)) [] head (rev ns @ P)"
    "replays u es' (hs_tree h1) (fold (\<lambda>p r. replaced_after r (the p)) [Some (CompactionEvent \<lparr>cmp_Summary = TrimSpace summary, cmp_Replaces = replaces\<rparr>)] rep)"
    "floors_ok (hs_tree h) branch P rep" "tr_floors (hs_tree h1) = tr_floors (hs_tree h)"
    "map nd_Payload ns = [Some (CompactionEvent \<lparr>cmp_Summary = TrimSpace summary, cmp_Replaces = replaces\<rparr>)]"
    "\<forall>n \<in> set ns. fmlookup (tr_nodes (hs_tree h)) (nd_ID n) = None" by (metis empty_iff empty_set)
  obtain n where "ns = [n]" using a0(11) by auto
  with a0 have a: "ok s'" "view s' = Some es'" "hs_live h1"
    "hs_branch h1 = branch" "tree_wf (hs_tree h1)" "fmlookup (tr_branches (hs_tree h1)) branch = Some head"
    "path_ok (tr_nodes (hs_tree h1)) [] head (n # P)" "replays u es' (hs_tree h1) replaces" "floors_ok (hs_tree h) branch P rep"
    "tr_floors (hs_tree h1) = tr_floors (hs_tree h)" "fmlookup (tr_nodes (hs_tree h)) (nd_ID n) = None"
    by (simp_all add: replaced_after_def)
  have b: "branch \<noteq> []" by (rule branch_named [OF assms(2)])
  have "nd_ID n \<notin> set replaces" using replacements_exist [OF c(1)] a(11) by (metis option.distinct(1))
  then obtain m where m: "hs_tree h' = Tree_SetFloor branch (nd_ID m) (hs_tree h1)" "m \<in> set (n # P)" "nd_ID m \<notin> set replaces"
    "hs_live h' = hs_live h1" "hs_branch h' = hs_branch h1"
    using compaction_floor [OF c(2) a(5) _ a(7)] a(4,6) b by metis
  have id: "nd_ID m \<noteq> []" using path_ids(2) [OF a(5,7)] m(2) by force
  have "floors_ok (hs_tree h') branch (n # P) replaces"
    using a(9,10) m(1,2,3) id b by (auto simp: floors_ok_def Tree_SetFloor_def or_main_def split: if_splits)
  moreover have "replays u es' (hs_tree h') replaces" "path_ok (tr_nodes (hs_tree h')) [] head (n # P)"
    "fmlookup (tr_branches (hs_tree h')) branch = Some head"
    using a(6,7,8) m(1) id by (simp_all add: replays_def stored_tree_def Tree_SetFloor_def Let_def)
  moreover have "tree_wf (hs_tree h')" using SetFloor_wf [OF a(5)] m(1) by simp
  ultimately show ?thesis using a(1-4) m(4,5) b unfolding hist_inv_def by metis
qed

end

section \<open>A resumed history\<close>

lemma find_map_store: "find (\<lambda>n. Q (nd_ID n)) (map store_node xs) = map_option store_node (find (\<lambda>n. Q (nd_ID n)) xs)"
  by (induction xs) auto

text \<open>Where the resumed tree stops, if there was a compaction: no later than the live one.\<close>

lemma resumed_floor:
  assumes "tree_wf t" "fmlookup (tr_branches t) (hs_branch h1) = Some head" "path_ok (tr_nodes t) [] head (map store_node P)"
    "hs_tree h1 = t" "hs_branch h1 \<noteq> []" "tr_floors t = fmempty" "f \<in> nd_ID ` set P" "f \<notin> set rep"
  shows "\<exists>i zs. setCompactionFloor rep h1 = Some (h1\<lparr>hs_tree := Tree_SetFloor (hs_branch h1) i t\<rparr>) \<and> i \<noteq> [] \<and>
    Tree_Path (hs_branch h1) (Tree_SetFloor (hs_branch h1) i t) = Some (Inr (map store_node (zs @ rev (upto_floor f P)))) \<and>
    (\<exists>ws. rev P = ws @ zs @ rev (upto_floor f P))"
proof -
  let ?b = "hs_branch h1"
  note ids = path_ids [OF assms(1,3)]
  have "distinct (map nd_ID P)" "[] \<notin> nd_ID ` set P" using ids by (simp_all add: comp_def image_image)
  note ids = this
  have rp: "Tree_Path ?b t = Some (Inr (map store_node (rev P)))"
    using Tree_Path_upto [OF assms(1-3,5)] upto_floor_absent [OF ids(2)] assms(6) by (simp add: floor_of_def rev_map)
  have "find (\<lambda>n. nd_ID n \<notin> set rep) (rev P) \<noteq> None" using assms(7,8) unfolding find_None_iff by auto
  then obtain m where m: "find (\<lambda>n. nd_ID n \<notin> set rep) (rev P) = Some m" by blast
  then have fl: "setCompactionFloor rep h1 = Some (h1\<lparr>hs_tree := Tree_SetFloor ?b (nd_ID m) t\<rparr>)"
    using rp assms(4) find_map_store [where Q = "\<lambda>i. i \<notin> set rep", of "rev P"] by (simp add: setCompactionFloor_def)
  have "m \<in> set P" using find_split [OF m] by (metis in_set_conv_decomp set_rev)
  then have id: "nd_ID m \<noteq> []" using ids(2) by force
  have "floor_of (Tree_SetFloor ?b (nd_ID m) t) ?b = nd_ID m" using id assms(5) by (simp add: floor_of_def Tree_SetFloor_def or_main_def)
  moreover have "tree_wf (Tree_SetFloor ?b (nd_ID m) t)" using SetFloor_wf assms(1) by blast
  ultimately have "Tree_Path ?b (Tree_SetFloor ?b (nd_ID m) t) = Some (Inr (map store_node (rev (upto_floor (nd_ID m) P))))"
    using Tree_Path_upto [of "Tree_SetFloor ?b (nd_ID m) t" ?b head "map store_node P"] assms(2,3,5) id
    by (simp add: Tree_SetFloor_def Let_def rev_map)
  moreover obtain zs where zs: "upto_floor (nd_ID m) P = upto_floor f P @ zs" using oldest_kept [OF m ids(1) assms(7,8)] by blast
  moreover have "\<exists>ws. rev P = ws @ rev zs @ rev (upto_floor f P)"
    using upto_floor_prefix [of P "nd_ID m"] zs by (metis rev_append append.assoc)
  ultimately show ?thesis using fl id by (intro exI [of _ "nd_ID m"] exI [of _ "rev zs"]) simp
qed

lemma resume_path:
  assumes "hist_inv u b h es" "hs_tree h0 = NewTree"
  shows "\<exists>h' lp zs ws P head. resume_events u now b es h0 = Some (Inr h' :: ('e history_error, history) result) \<and> hs_branch h' = b \<and>
    tr_nodes (hs_tree h') = fmmap store_node (tr_nodes (hs_tree h)) \<and> tr_branches (hs_tree h') = tr_branches (hs_tree h) \<and>
    fmlookup (tr_branches (hs_tree h)) b = Some head \<and> path_ok (tr_nodes (hs_tree h)) [] head (rev P) \<and> P = ws @ zs @ lp \<and>
    Tree_Path b (hs_tree h) = Some (Inr lp) \<and> Tree_Path b (hs_tree h') = Some (Inr (map store_node (zs @ lp))) \<and>
    (tr_floors (hs_tree h) = fmempty \<longrightarrow> zs = [])"
proof -
  obtain head P rep where h: "b \<noteq> []" "tree_wf (hs_tree h)" "fmlookup (tr_branches (hs_tree h)) b = Some head"
    "path_ok (tr_nodes (hs_tree h)) [] head P" "replays u es (hs_tree h) rep" "floors_ok (hs_tree h) b P rep"
    using assms(1) unfolding hist_inv_def by blast
  obtain t sid where t: "rfold (resume_step u now) (NewTree, [], []) es = Inr (t, sid, rep)" "stored_tree (hs_tree h) t"
    using h(5) unfolding replays_def by blast
  have tp: "tree_wf t" "fmlookup (tr_branches t) b = Some head" "path_ok (tr_nodes t) [] head (map store_node P)" "tr_floors t = fmempty"
    "tr_nodes t = fmmap store_node (tr_nodes (hs_tree h))" "tr_branches t = tr_branches (hs_tree h)"
    using t(2) h(2,3) stored_path [OF h(4)] stored_wf by (auto simp: stored_tree_def)
  note lp = Tree_Path_upto [OF h(2-4,1)] and ids = path_ids [OF h(2,4)]
  have rp: "Tree_Path b t = Some (Inr (map store_node (rev P)))"
    using Tree_Path_upto [OF tp(1-3) h(1)] upto_floor_absent [OF ids(2)] tp(4) by (simp add: floor_of_def rev_map)
  let ?h1 = "h0\<lparr>hs_branch := b, hs_tree := t\<rparr>" and ?f = "floor_of (hs_tree h) b"
  have res: "(resume_events u now b es h0 :: ('e history_error, history) result option) = map_option (\<lambda>h. Inr (if \<not> hs_sessionIDExplicit h \<and> sid \<noteq> [] then h\<lparr>hs_sessionID := sid\<rparr> else h))
      (if rep \<noteq> [] then setCompactionFloor rep ?h1 else Some ?h1)"
    using t(1) assms(2) by (simp add: resume_events_def Let_def)
  define L where "L = upto_floor ?f P"
  have lp': "Tree_Path b (hs_tree h) = Some (Inr (rev L))" using lp by (simp add: L_def)
  have "\<exists>h' zs ws. resume_events u now b es h0 = Some (Inr h' :: ('e history_error, history) result) \<and> hs_branch h' = b \<and>
    tr_nodes (hs_tree h') = tr_nodes t \<and> tr_branches (hs_tree h') = tr_branches t \<and> rev P = ws @ zs @ rev L \<and>
    Tree_Path b (hs_tree h') = Some (Inr (map store_node (zs @ rev L))) \<and> (tr_floors (hs_tree h) = fmempty \<longrightarrow> zs = [])"
  proof (cases "rep = []")
    case True
    obtain zs where zs: "P = L @ zs" using upto_floor_prefix L_def by blast
    have "tr_floors (hs_tree h) = fmempty \<longrightarrow> L = P" using upto_floor_absent [OF ids(2)] by (simp add: floor_of_def L_def)
    then have "tr_floors (hs_tree h) = fmempty \<longrightarrow> rev zs = []" using zs by (metis append_self_conv rev.simps(1))
    moreover have "rev P = [] @ rev zs @ rev L" by (simp add: zs)
    ultimately show ?thesis using res True rp
      by - (rule exI [of _ "if \<not> hs_sessionIDExplicit ?h1 \<and> sid \<noteq> [] then ?h1\<lparr>hs_sessionID := sid\<rparr> else ?h1"],
          rule exI [of _ "rev zs"], rule exI [of _ "[]"], simp)
  next
    case False
    then obtain f where f: "fmlookup (tr_floors (hs_tree h)) b = Some f" "f \<in> nd_ID ` set P" "f \<notin> set rep"
      using h(6) unfolding floors_ok_def by (metis fmempty_lookup fmap_ext option.exhaust)
    then have "L = upto_floor f P" by (simp add: floor_of_def L_def)
    then obtain i zs ws where i: "setCompactionFloor rep ?h1 = Some (?h1\<lparr>hs_tree := Tree_SetFloor b i t\<rparr>)" "i \<noteq> []"
      "Tree_Path b (Tree_SetFloor b i t) = Some (Inr (map store_node (zs @ rev L)))" "rev P = ws @ zs @ rev L"
      using resumed_floor [OF tp(1), of ?h1 head P f rep] tp(2,3,4) h(1) f(2,3) by auto
    let ?h2 = "?h1\<lparr>hs_tree := Tree_SetFloor b i t\<rparr>"
    have "tr_floors (hs_tree h) \<noteq> fmempty" using f(1) by auto
    then show ?thesis using res False i
      by - (rule exI [of _ "if \<not> hs_sessionIDExplicit ?h2 \<and> sid \<noteq> [] then ?h2\<lparr>hs_sessionID := sid\<rparr> else ?h2"],
          rule exI [of _ zs], rule exI [of _ ws], simp add: Tree_SetFloor_def Let_def)
  qed
  then obtain h' zs ws where r: "resume_events u now b es h0 = Some (Inr h' :: ('e history_error, history) result)" "hs_branch h' = b"
    "tr_nodes (hs_tree h') = tr_nodes t" "tr_branches (hs_tree h') = tr_branches t" "rev P = ws @ zs @ rev L"
    "Tree_Path b (hs_tree h') = Some (Inr (map store_node (zs @ rev L)))" "tr_floors (hs_tree h) = fmempty \<longrightarrow> zs = []" by metis
  have "path_ok (tr_nodes (hs_tree h)) [] head (rev (rev P))" using h(4) by simp
  with r lp' h(3) tp(5,6) show ?thesis by metis
qed

lemma resume_in_step:
  assumes "hist_inv u b h es" "hs_tree h0 = NewTree"
  shows "\<exists>h' lp older. resume_events u now b es h0 = Some (Inr h' :: ('e history_error, history) result) \<and> hs_branch h' = b \<and>
    tr_nodes (hs_tree h') = fmmap store_node (tr_nodes (hs_tree h)) \<and> tr_branches (hs_tree h') = tr_branches (hs_tree h) \<and>
    Tree_Path b (hs_tree h) = Some (Inr lp) \<and> Tree_Path b (hs_tree h') = Some (Inr (older @ map store_node lp)) \<and>
    (tr_floors (hs_tree h) = fmempty \<longrightarrow> older = [])"
proof -
  obtain h' lp zs where "resume_events u now b es h0 = Some (Inr h' :: ('e history_error, history) result)" "hs_branch h' = b"
    "tr_nodes (hs_tree h') = fmmap store_node (tr_nodes (hs_tree h))" "tr_branches (hs_tree h') = tr_branches (hs_tree h)"
    "Tree_Path b (hs_tree h) = Some (Inr lp)" "Tree_Path b (hs_tree h') = Some (Inr (map store_node (zs @ lp)))"
    "tr_floors (hs_tree h) = fmempty \<longrightarrow> zs = []"
    using resume_path [OF assms, of now] by metis
  moreover from this(6) have "Tree_Path b (hs_tree h') = Some (Inr (map store_node zs @ map store_node lp))" by simp
  moreover from calculation(7) have "tr_floors (hs_tree h) = fmempty \<longrightarrow> map store_node zs = []" by simp
  ultimately show ?thesis by metis
qed

definition fragment_ok :: "turn_fragment \<Rightarrow> bool" where
  "fragment_ok f \<longleftrightarrow> (\<forall>m \<in> set (tf_requestMessages f). meta_ok (msg_Meta m)) \<and> meta_ok (msg_Meta (tf_assistant f))"

text \<open>The calls on a history over a live thread of a memory store; a call the thread refuses changes nothing.\<close>

inductive write_step :: "unified_json \<Rightarrow> (string \<Rightarrow> bool) \<Rightarrow> memory_live \<Rightarrow> history \<times> memory_store \<Rightarrow> history \<times> memory_store \<Rightarrow> bool"
  for u counted l where
  Append: "appendPayloads u (\<lambda>es. memoryLive_Append ctx g l es) ids now pre ps h s = (Inr out, h', s') \<Longrightarrow> now \<noteq> zero_time \<Longrightarrow>
    \<forall>p \<in> set ps. plain_payload p \<Longrightarrow> \<forall>e \<in> set pre. other_event (ml_branchID l) e \<Longrightarrow> write_step u counted l (h, s) (h', s')"
| Commit: "CommitFragmentWithThreadEvents u counted (\<lambda>es. memoryLive_Append ctx g l es) ids now (Some f) pre h s = (Inr out, h', s') \<Longrightarrow>
    now \<noteq> zero_time \<Longrightarrow> fragment_ok f \<Longrightarrow> \<forall>e \<in> set pre. other_event (ml_branchID l) e \<Longrightarrow> write_step u counted l (h, s) (h', s')"
| Events: "AppendThreadEvents (\<lambda>es. memoryLive_Append ctx g l es) es h s = (Inr (), s') \<Longrightarrow> \<forall>e \<in> set es. other_event (ml_branchID l) e \<Longrightarrow>
    write_step u counted l (h, s) (h, s')"
| Refused: "appendPayloads u (\<lambda>es. memoryLive_Append ctx g l es) ids now pre ps h s = (Inl e, h', s') \<Longrightarrow> (\<And>c. e \<noteq> HistTree c) \<Longrightarrow>
    write_step u counted l (h, s) (h', s')"

inductive hist_step :: "unified_json \<Rightarrow> (string \<Rightarrow> bool) \<Rightarrow> memory_live \<Rightarrow> history \<times> memory_store \<Rightarrow> history \<times> memory_store \<Rightarrow> bool"
  for u counted l where
  Write: "write_step u counted l st st' \<Longrightarrow> hist_step u counted l st st'"
| Compact: "CompactContext u (\<lambda>es. memoryLive_Append ctx g l es) ids now summary replaces h s = Some (Inr i, h', s') \<Longrightarrow> now \<noteq> zero_time \<Longrightarrow>
    hist_step u counted l (h, s) (h', s')"

definition in_step :: "unified_json \<Rightarrow> memory_live \<Rightarrow> history \<times> memory_store \<Rightarrow> bool" where
  "in_step u l st \<longleftrightarrow> (case st of (h, s) \<Rightarrow> memory_ok l s \<and> (\<exists>es. memory_view l s = Some es \<and> hist_inv u (ml_branchID l) h es))"

lemma Fragment_plain:
  "Fragment_Payloads counted f = Inr ps \<Longrightarrow> fragment_ok f \<Longrightarrow> p \<in> set (map Some ps) \<Longrightarrow> plain_payload p"
  by (auto simp: Fragment_Payloads_def fragment_ok_def plain_payload_def stored_message_def stored_turn_def Let_def
      split: option.splits if_splits)

lemma memory_append_refused: "memoryLive_Append ctx g l es s = (Inl e, s') \<Longrightarrow> s' = s"
  by (auto simp: memoryLive_Append_def split: option.splits if_splits sum.splits)

lemma refused_unchanged:
  assumes "appendPayloads u (\<lambda>es. memoryLive_Append ctx g l es) ids now pre ps h s = (Inl e, h', s')" "\<And>c. e \<noteq> HistTree c" "hs_live h"
  shows "h' = h \<and> s' = s"
proof -
  have "map_sum HistTree f r = Inl e \<Longrightarrow> False" for f :: "unit \<Rightarrow> string list" and r using assms(2) by (cases r) auto
  then show ?thesis using assms
    by (auto simp: appendPayloads_def insert_all_def Let_def dest!: memory_append_refused split: sum.splits prod.splits)
qed

lemma write_step_in_step:
  assumes "write_step u counted l st st'" "unified_json_ok u" "in_step u l st"
  shows "in_step u l st'"
  using assms(1,3)
proof cases
  case (Append ctx g ids now pre ps h s out h' s')
  then obtain es where "memory_ok l s" "memory_view l s = Some es" "hist_inv u (ml_branchID l) h es" using assms(3) by (auto simp: in_step_def)
  from mem_log.history_extends [OF assms(2) this Append(3) _ Append(4-6)] show ?thesis by (auto simp: in_step_def Append(2))
next
  case (Commit ctx g ids now f pre h s out h' s')
  then obtain es where h: "memory_ok l s" "memory_view l s = Some es" "hist_inv u (ml_branchID l) h es" using assms(3) by (auto simp: in_step_def)
  obtain ps where ps: "Fragment_Payloads counted f = (Inr ps :: (thread_error history_error, payload list) result)"
    "appendPayloads u (\<lambda>es. memoryLive_Append ctx g l es) ids now pre (map Some ps) h s = (Inr out, h', s')"
    using Commit(3) by (auto simp: CommitFragmentWithThreadEvents_def split: sum.splits)
  have "\<forall>p \<in> set (map Some ps). plain_payload p" using Fragment_plain [OF ps(1) Commit(5)] by blast
  from mem_log.history_extends [OF assms(2) h ps(2) _ Commit(4) this Commit(6)] show ?thesis by (auto simp: in_step_def Commit(2))
next
  case (Events ctx g es h s s')
  then obtain vs where h: "memory_ok l s" "memory_view l s = Some vs" "hist_inv u (ml_branchID l) h vs" using assms(3) by (auto simp: in_step_def)
  show ?thesis
  proof (cases "es = []")
    case True
    then show ?thesis using Events assms(3) by (simp add: AppendThreadEvents_def)
  next
    case False
    then have "appendPayloads u (\<lambda>es. memoryLive_Append ctx g l es) (\<lambda>_. []) 1 es [] h s = (Inr [], h, s')"
    using Events(3) h(3) hist_inv_def [of u "ml_branchID l" h vs]
    by (auto simp: appendPayloads_def AppendThreadEvents_def insert_all_def memoryLive_Append_def Let_def split: if_splits option.splits sum.splits prod.splits)
    from mem_log.history_extends [OF assms(2) h this _ _ _ Events(4)] show ?thesis by (auto simp: in_step_def Events(2))
  qed
next
  case (Refused ctx g ids now pre ps h s e h' s')
  then show ?thesis using refused_unchanged [OF Refused(3,4)] assms(3) by (auto simp: in_step_def hist_inv_def)
qed

lemma hist_step_in_step:
  assumes "hist_step u counted l st st'" "unified_json_ok u" "in_step u l st"
  shows "in_step u l st'"
  using assms(1,3)
proof cases
  case Write
  then show ?thesis by (rule write_step_in_step [OF _ assms(2,3)])
next
  case (Compact ctx g ids now summary replaces h s i h' s')
  then obtain es where "memory_ok l s" "memory_view l s = Some es" "hist_inv u (ml_branchID l) h es" using assms(3) by (auto simp: in_step_def)
  from mem_log.history_compacts [OF assms(2) this Compact(3) _ Compact(4)] show ?thesis by (auto simp: in_step_def Compact(2))
qed

lemma new_history_inv:
  assumes "b = ConvMainBranch" "\<forall>e \<in> set es. ev_Kind e \<notin> set conversation_kinds"
  shows "hist_inv u b (WithHistoryLiveThread (NewHistory sid)) es"
proof -
  have "replays u es NewTree []"
    using resume_others [OF assms(2)] by (fastforce simp: replays_def stored_tree_def NewTree_def)
  moreover have "tree_wf NewTree" by (rule NewTree_wf)
  ultimately show ?thesis using assms(1)
    by (auto simp: hist_inv_def WithHistoryLiveThread_def NewHistory_def ConvMainBranch_def floors_ok_def NewTree_def intro!: exI [of _ "[]"])
qed

text \<open>The same over the JSON line store: after a commit the files hold the history.\<close>

lemma history_durable:
  assumes "unified_json_ok u" "jsonl_ok tid b s" "jsonl_view tid b s = Some es" "hist_inv u b h es"
    and "appendPayloads u (jsonl_append ctx g) ids now pre ps h s = (Inr out, h1, s1)" "ints_ok (lt_memory (fst s1))" "now \<noteq> zero_time"
    and "\<forall>p \<in> set ps. plain_payload p" "\<forall>e \<in> set pre. other_event b e" "hs_tree h0 = NewTree"
  shows "\<exists>es1 h' lp older. jsonl_view tid b s1 = Some es1 \<and> resume_events u now' b es1 h0 = Some (Inr h') \<and>
    Tree_Path b (hs_tree h1) = Some (Inr lp) \<and> Tree_Path b (hs_tree h') = Some (Inr (older @ map store_node lp))"
proof -
  obtain es1 where "jsonl_view tid b s1 = Some es1" "hist_inv u b h1 es1" using jsonl_log.history_extends [OF assms(1-9)] by blast
  then show ?thesis using resume_in_step [OF _ assms(10), of u b h1 es1] by metis
qed

text \<open>Events of other branches leave a branch without a head.\<close>

lemma resume_step_elsewhere:
  assumes "resume_step u now (t, sid, rep) e = Inr (t', sid', rep')" "fmlookup (tr_branches t) b = None" "b \<noteq> ConvMainBranch"
    and "ev_BranchID e \<noteq> b \<or> ev_Kind e \<notin> set conversation_kinds"
  shows "fmlookup (tr_branches t') b = None"
proof (cases "ev_Kind e \<in> set conversation_kinds")
  case True
  then have "or_main (ev_BranchID e) \<noteq> b" using assms(3,4) by (auto simp: or_main_def)
  then show ?thesis using assms(1,2)
    by (auto simp: resume_step_def Tree_InsertNode_def Let_def split: sum.splits option.splits prod.splits if_splits)
next
  case False
  then show ?thesis using resume_other [OF False, of u now t sid rep] assms(1,2) by auto
qed

lemma resume_elsewhere:
  assumes "rfold (resume_step u now) (t, sid, rep) es = Inr (t', sid', rep')" "fmlookup (tr_branches t) b = None" "b \<noteq> ConvMainBranch"
    and "\<forall>e \<in> set es. ev_BranchID e \<noteq> b \<or> ev_Kind e \<notin> set conversation_kinds"
  shows "fmlookup (tr_branches t') b = None"
  using assms(1,2,4)
proof (induction es arbitrary: t sid rep)
  case (Cons e es)
  then obtain t1 sid1 rep1 where "resume_step u now (t, sid, rep) e = Inr (t1, sid1, rep1)" "rfold (resume_step u now) (t1, sid1, rep1) es = Inr (t', sid', rep')"
    by (auto simp: rbind_Inr_iff)
  then show ?case using Cons resume_step_elsewhere [OF _ _ assms(3)] by (metis list.set_intros)
qed simp

lemma resume_headless:
  assumes r: "rfold (resume_step u now) (NewTree, [], []) es = Inr (t, sid, rep)" "hs_tree h0 = NewTree" and "b \<noteq> ConvMainBranch" "b \<noteq> []"
    and "\<forall>e \<in> set es. ev_BranchID e \<noteq> b \<or> ev_Kind e \<notin> set conversation_kinds"
  shows "\<exists>h'. resume_events u now b es h0 = Some (Inr h') \<and> tr_nodes (hs_tree h') = tr_nodes t \<and>
    Tree_Head (hs_branch h') (hs_tree h') = None \<and> Tree_Path (hs_branch h') (hs_tree h') = Some (Inl (ConvBranchNotFound b))"
proof -
  have "fmlookup (tr_branches t) b = None" by (rule resume_elsewhere [OF r(1) _ assms(3,5)]) (use assms(3) in \<open>simp add: NewTree_def\<close>)
  then have t: "Tree_Head b t = None" "Tree_Path b t = Some (Inl (ConvBranchNotFound b))"
    using assms(4) by (simp_all add: Tree_Head_def Tree_Path_def or_main_def)
  then have "setCompactionFloor rep (h0\<lparr>hs_branch := b, hs_tree := t\<rparr>) = Some (h0\<lparr>hs_branch := b, hs_tree := t\<rparr>)"
    by (simp add: setCompactionFloor_def)
  then show ?thesis using r t by (auto simp: resume_events_def Let_def)
qed

lemma Fork_new_branch:
  assumes "store_inv s" "gen_ok g" "MemoryStore_Fork ctx g p s = (Inr l, s')" "fmlookup (ms_threads s) (fp_ID p) = Some t"
  shows "fmlookup (mt_branches t) (ml_branchID l) = None \<and> ml_branchID l \<noteq> []"
  using assms(3) by (rule Fork_success) (use assms(2,4) in \<open>auto simp: gen_ok_def\<close>)

lemma reached_in_step:
  assumes "unified_json_ok u" "memory_ok l s0" "ml_branchID l = ConvMainBranch" "memory_view l s0 = Some es0"
    and "\<forall>e \<in> set es0. ev_Kind e \<notin> set conversation_kinds"
    and "(hist_step u counted l)\<^sup>*\<^sup>* (WithHistoryLiveThread (NewHistory sid), s0) st"
  shows "in_step u l st"
  using assms(6)
proof (induction rule: rtranclp_induct)
  case base
  then show ?case using new_history_inv [OF assms(3,5)] assms(2,4) by (simp add: in_step_def)
next
  case (step y z)
  then show ?case using hist_step_in_step [OF _ assms(1)] by blast
qed

section \<open>Properties\<close>


text \<open>A user message on the demo thread.\<close>

definition demo_ask :: "(thread_error history_error, string) result \<times> history \<times> memory_store" where
  "demo_ask = History_AddUser demo_json (\<lambda>es. memoryLive_Append None demo_gen demo_live es) (\<lambda>k. ''n1'') 7 ''hello''
     (WithHistoryLiveThread (NewHistory ''s1'')) demo_store"

definition demo_message :: message where
  "demo_message = no_message\<lparr>msg_Role := RoleUser, msg_Content := [plain_text ''hello'']\<rparr>"

lemma demo_ask_ok: "\<not> isl (fst demo_ask)"
  "map_option nd_Payload (fmlookup (tr_nodes (hs_tree (fst (snd demo_ask)))) ''n1'') = Some (Some (MessageEvent demo_message))"
  "stored_payload (MessageEvent demo_message) = MessageEvent demo_message"
  by code_simp+

lemma demo_ask_step: "hist_step demo_json (\<lambda>_. False) demo_live (WithHistoryLiveThread (NewHistory ''s1''), demo_store) (snd demo_ask)"
proof -
  obtain r h s where d: "demo_ask = (r, h, s)" by (metis prod_cases3)
  then obtain out where "appendPayloads demo_json (\<lambda>es. memoryLive_Append None demo_gen demo_live es) (\<lambda>k. ''n1'') 7 [] [Some (MessageEvent demo_message)]
      (WithHistoryLiveThread (NewHistory ''s1'')) demo_store = (Inr out, h, s)"
    using demo_ask_ok(1) by (auto simp: demo_ask_def History_AddUser_def AppendContext_def demo_message_def map_sum_def split: prod.splits sum.splits)
  from hist_step.Write [OF write_step.Append [OF this]] show ?thesis
    by (simp add: d plain_payload_def demo_message_def no_message_def meta_ok_def stored_message_def)
qed

lemma demo_ask_reached:
  "(hist_step demo_json (\<lambda>_. False) demo_live)\<^sup>*\<^sup>* (WithHistoryLiveThread (NewHistory ''s1''), demo_store) (fst (snd demo_ask), snd (snd demo_ask))"
  "\<forall>e \<in> set (mt_events demo_thread). ev_Kind e \<notin> set conversation_kinds"
proof -
  show "(hist_step demo_json (\<lambda>_. False) demo_live)\<^sup>*\<^sup>* (WithHistoryLiveThread (NewHistory ''s1''), demo_store) (fst (snd demo_ask), snd (snd demo_ask))"
    using demo_ask_step by auto
  show "\<forall>e \<in> set (mt_events demo_thread). ev_Kind e \<notin> set conversation_kinds" by code_simp
qed

lemma demo_live_names: "ml_branchID demo_live = ConvMainBranch" "ml_branchID demo_live = ''main''" "ml_threadID demo_live = ''t1''"
  by (simp_all add: demo_live_def ConvMainBranch_def)



definition demo_forked :: "(thread_error, memory_live) result \<times> memory_store" where
  "demo_forked = MemoryStore_Fork None demo_gen (demo_fork\<lparr>fp_FromBranchID := ''main''\<rparr>) (snd (snd demo_ask))"

lemma demo_forked_ok: "\<not> isl (fst demo_forked)" "ml_branchID (projr (fst demo_forked)) = ''b1''" "ml_threadID (projr (fst demo_forked)) = ''t1''"
  by code_simp+


end
