(* ===== verification/Spec2Isabelle.thy ===== *)
theory Spec2Isabelle
  imports Jsonl_Store Conversation_Items Planner Workflow_Thread File_Edit Trigger_Scheduler Context_Runtime Thread_History
begin

text \<open>
  Verification of the Go module \<^verbatim>\<open>codewandler/agentsdk\<close>, a kit for building LLM agents.

  \<^bold>\<open>The program.\<close> An agent keeps its history in a \<^emph>\<open>thread\<close>, an append-only log of events with branches.
  The log is kept in memory or in JSON line files. A \<^emph>\<open>conversation tree\<close> over the log gives the messages
  of a request; the \<^emph>\<open>history\<close> writes both and is resumed from the log. \<^emph>\<open>Capabilities\<close>, of which the planner is one, keep state that is rebuilt by replaying
  their events. The \<^emph>\<open>context manager\<close> tells each turn what changed in its surroundings since the last
  one and records that in the thread as well. \<^emph>\<open>Workflows\<close> are graphs of actions, run sequentially or in
  parallel, whose events are recorded in a thread and projected to the state of a run. The \<^emph>\<open>trigger
  scheduler\<close> starts runs when sources emit events. The \<^verbatim>\<open>file_edit\<close> tool edits files with a check against
  concurrent changes. These parts are modelled; around them are the turn loop over an external LLM
  adapter, tools, plugins, configuration and user interfaces.

  \<^bold>\<open>Conventions.\<close> A Go string is a \<^typ>\<open>string\<close> (a list of bytes), a \<^verbatim>\<open>time.Time\<close> a number of nanoseconds
  with 0 for the zero time, a \<^verbatim>\<open>context.Context\<close> the error it reports if any, a fallible function one
  that returns a sum with the error on the left. A method that changes its receiver takes and
  returns the state, also on its error paths. Go maps are finite maps; where the code ranges over a
  map the order is an argument or, when only displayed, that of the keys. Random identifiers, the
  clock, digests, the file system's failures and the answers of goroutines that race are arguments.
  JSON documents are trees; a struct is decoded field by field, in the order of the document,
  case-insensitively, with unknown fields ignored. Strings that are encoded are taken to be valid
  UTF-8, so that encoding keeps them. Integers are unbounded except where the encoding boundary
  checks a 64-bit range.

  \<^bold>\<open>Theories.\<close>
  \<^item> \<^verbatim>\<open>Prelude\<close>: results, strings, association lists, the shared lemmas. \<^verbatim>\<open>Go_Json\<close>, \<^verbatim>\<open>Go_Base64\<close>: the parts of the
    Go library the sources rely on. The locale \<^verbatim>\<open>codec\<close> is the contract of an encoded struct - what
    is decoded is what was encoded - and is interpreted for every struct that is stored.
  \<^item> \<^verbatim>\<open>Thread_Event\<close>, \<^verbatim>\<open>Thread_Store\<close>, \<^verbatim>\<open>Memory_Store\<close> (\<^verbatim>\<open>src/thread/event.go\<close>, \<^verbatim>\<open>event_registry.go\<close>, \<^verbatim>\<open>store.go\<close>,
    \<^verbatim>\<open>memorystore.go\<close>): events and their registry, the view of a branch (\<^verbatim>\<open>EventsForBranch\<close>, a
    \<^theory_text>\<open>partial_function\<close> because the code follows parents without a bound), and every operation of
    \<^verbatim>\<open>MemoryStore\<close> and its live handles. An inductive step relation ranges over all calls; every
    reachable store satisfies an invariant, on which views always return, appends extend exactly the
    views they should and are all-or-nothing, and forks are snapshots. Two theorems show what goes
    wrong outside it: a fork that is refused leaves its branch, and an imported branch can be its own parent.
  \<^item> \<^verbatim>\<open>Thread_Replay\<close>: importing the log of a thread rebuilds the thread.
  \<^item> \<^verbatim>\<open>Jsonl_Store\<close> (\<^verbatim>\<open>src/thread/jsonlstore/store.go\<close>): the store on disk over a directory of line files. Its
    operations simulate those of the memory store, a live append is durable, and two live handles
    repeat sequence numbers.
  \<^item> \<^verbatim>\<open>Live_Log\<close>: a live thread as its clients in \<^verbatim>\<open>src/runtime\<close> use it. The locale \<^verbatim>\<open>live_log\<close> is its contract - what is
    appended is at the end of what a reader finds on the branch - and is interpreted for the handles of
    both stores, so that what is proved over it holds in memory and on disk.
  \<^item> \<^verbatim>\<open>Conversation_Tree\<close>, \<^verbatim>\<open>Conversation_Items\<close> (\<^verbatim>\<open>src/conversation\<close>): the tree, the path of a branch, items,
    compaction, the pairing of tool calls and results, projection and native continuation.
  \<^item> \<^verbatim>\<open>Capability\<close> (\<^verbatim>\<open>src/capability\<close>), \<^verbatim>\<open>Planner_Topo\<close>, \<^verbatim>\<open>Planner\<close> (\<^verbatim>\<open>src/capabilities/planner\<close>): attaching and
    replaying capabilities; plans, Kahn's algorithm, actions, state events. \<^verbatim>\<open>step_sorter\<close> is the contract of
    the sort. Reachable plans are well formed, action batches are all-or-nothing, and the logged
    events rebuild the plan.
  \<^item> \<^verbatim>\<open>Workflow_Value\<close>, \<^verbatim>\<open>Workflow_Order\<close>, \<^verbatim>\<open>Workflow_Exec\<close>, \<^verbatim>\<open>Workflow_Schedule\<close>, \<^verbatim>\<open>Workflow_Laws\<close> (\<^verbatim>\<open>src/workflow/workflow.go\<close>):
    values, templates, ordering, execution. Rounds of the parallel executor are functions of a
    schedule that says how goroutines interleave. The laws bound attempts, give the data flow, the
    outcome of a run and its independence of the schedule.
  \<^item> \<^verbatim>\<open>Workflow_Run\<close>, \<^verbatim>\<open>Workflow_Thread\<close> (\<^verbatim>\<open>run.go\<close>, \<^verbatim>\<open>runstore.go\<close>, \<^verbatim>\<open>threadrunstore.go\<close>, \<^verbatim>\<open>threadrecorder.go\<close>): the state
    of a run from its events; the run store over a thread refines the one in memory, and a recorded
    run is read back as it ended.
  \<^item> \<^verbatim>\<open>Text_Edit\<close>, \<^verbatim>\<open>Text_Patch\<close>, \<^verbatim>\<open>File_Edit\<close> (\<^verbatim>\<open>src/tools/filesystem/edit_impl.go\<close>, the patch functions of
    \<^verbatim>\<open>tools.go\<close>): edits of a text, their conflicts, unified diffs, and the handler over a file system
    whose calls may fail and that others may write to.
  \<^item> \<^verbatim>\<open>Trigger_Rules\<close>, \<^verbatim>\<open>Trigger_Scheduler\<close> (\<^verbatim>\<open>src/trigger\<close>): rules, matchers with \<^verbatim>\<open>filepath.Match\<close>, and the scheduler
    as goroutines of atomic steps; runs of a job never overlap in any interleaving.
  \<^item> \<^verbatim>\<open>Agent_Context\<close>, \<^verbatim>\<open>Context_Runtime\<close> (\<^verbatim>\<open>src/agentcontext\<close>, the context part of \<^verbatim>\<open>src/runtime/thread_runtime.go\<close>):
    the manager's records and diffs under any interleaving of renders, the events of a render, and
    their replay by a resumed runtime.
  \<^item> \<^verbatim>\<open>History_Events\<close>, \<^verbatim>\<open>Thread_History\<close> (\<^verbatim>\<open>src/runtime/history_events.go\<close>, \<^verbatim>\<open>history.go\<close>, \<^verbatim>\<open>src/conversation/turn_fragment.go\<close>):
    the JSON of messages and turns, and the conversation history that keeps its tree in step with a
    live thread. The JSON of the external adapter's types is a parameter that reads back what it wrote.
    A history resumed from the stored thread is the one that wrote it, unless the branch was forked.

  \<^bold>\<open>Fuel and termination.\<close> Loops that may not end are \<^theory_text>\<open>partial_function (option)\<close>, so that not returning
  is \<^const>\<open>None\<close>; the theorems say when they return. The sort of the planner runs with as much fuel as
  there are steps, and is shown to have emptied its queue by then. All other loops are structural or
  have a measure.

  \<^bold>\<open>Not modelled.\<close> The LLM adapter, YAML, Markdown, CDP and other external packages are not part of the
  repository; code that only builds or passes on their values (\<^verbatim>\<open>src/runner\<close>, \<^verbatim>\<open>src/agent\<close>, most of
  \<^verbatim>\<open>src/runtime\<close>, \<^verbatim>\<open>src/agentdir\<close>, \<^verbatim>\<open>src/appconfig\<close>, \<^verbatim>\<open>src/app\<close>, plugins) is left out, as are drivers of processes,
  devices and the network (\<^verbatim>\<open>src/tools\<close> other than \<^verbatim>\<open>file_edit\<close>), terminal output, and reflection-based
  binding (\<^verbatim>\<open>src/action\<close>, \<^verbatim>\<open>src/command\<close>). Within the modelled packages: descriptors and display texts,
  the defaults of a request in \<^verbatim>\<open>history.go\<close>,
  the ticker of \<^verbatim>\<open>IntervalSource\<close>, the read-only file tools, and the executor that runs a trigger in a
  session.
\<close>

end
